(* ===== verification/Prelude.thy ===== *)
theory Prelude
  imports Main "HOL-Library.Word" "HOL-Library.AList"
begin

section \<open>Prelude: types, collections and generic lemmas\<close>

text \<open>
  What every component shares: the types that stand for Go's machine types, the conversions
  between Go strings and byte slices, the model of \<open>time.Duration\<close> arithmetic, and generic
  lemmas on lists and association lists. A Go \<open>byte\<close> is an \<open>8 word\<close>, a \<open>[]byte\<close> a list of
  them; a Go \<open>string\<close> is an Isabelle \<open>string\<close>, whose characters are bytes too. A Go map is an
  association list, looked up by \<open>map_of\<close> and written by \<open>AList.update\<close>, so that the number of
  entries and the order of an iteration are part of the model. A Go \<open>int\<close> is an \<open>int\<close>, with
  the 64-bit wrap-around written out where a product can overflow.
\<close>

named_theorems wf_intros \<open>well-formedness facts, one per operation\<close>
named_theorems inv_intros \<open>preservation of a component's invariant, one per operation\<close>
named_theorems frame_simps \<open>fields an operation leaves alone\<close>

type_synonym byte = "8 word"
type_synonym bytes = "byte list"

subsection \<open>Strings and byte slices\<close>

definition bytes_of :: "string \<Rightarrow> bytes" where
  "bytes_of s = map (\<lambda>c. of_nat (of_char c)) s"

definition text_of :: "bytes \<Rightarrow> string" where
  "text_of bs = map (\<lambda>b. char_of (unat b)) bs"

lemma text_of_bytes_of [simp]: "text_of (bytes_of s) = s"
proof -
  have "char_of (unat (of_nat (of_char c) :: byte)) = c" for c :: char
  proof -
    have lt: "of_char c < (256 :: nat)" by simp
    then have "unat (of_nat (of_char c) :: byte) = of_char c"
      by (simp add: unat_of_nat)
    then show ?thesis by simp
  qed
  then show ?thesis by (simp add: text_of_def bytes_of_def comp_def)
qed

lemma bytes_of_text_of [simp]: "bytes_of (text_of bs) = bs"
proof -
  have "of_nat (of_char (char_of (unat b) :: char)) = b" for b :: byte
  proof -
    have "unat b < 2 ^ LENGTH(8)" by (rule unsigned_less)
    then have "unat b < 256" by simp
    then have "of_char (char_of (unat b) :: char) = unat b" by simp
    then show ?thesis by simp
  qed
  then show ?thesis by (simp add: text_of_def bytes_of_def comp_def)
qed

lemma bytes_of_append [simp]: "bytes_of (s @ t) = bytes_of s @ bytes_of t"
  by (simp add: bytes_of_def)

lemma text_of_append [simp]: "text_of (s @ t) = text_of s @ text_of t"
  by (simp add: text_of_def)

lemma bytes_of_Nil [simp]: "bytes_of [] = []"
  by (simp add: bytes_of_def)

lemma text_of_Nil [simp]: "text_of [] = []"
  by (simp add: text_of_def)

lemma length_text_of [simp]: "length (text_of bs) = length bs"
  by (simp add: text_of_def)

lemma length_bytes_of [simp]: "length (bytes_of s) = length s"
  by (simp add: bytes_of_def)

lemma bytes_of_inj [simp]: "bytes_of s = bytes_of t \<longleftrightarrow> s = t"
  using text_of_bytes_of by metis

lemma bytes_of_eq_Nil [simp]: "bytes_of s = [] \<longleftrightarrow> s = []"
  by (simp add: bytes_of_def)

subsection \<open>Go's 64-bit integers and durations\<close>

text \<open>
  Times and durations are \<open>int\<close>s in nanoseconds. Multiplication of a configured number of seconds
  by \<open>time.Second\<close> is a 64-bit product and wraps around. \<open>Time.Sub\<close> saturates.
\<close>

type_synonym time = int
type_synonym duration = int

definition max_int64 :: int where "max_int64 = 2 ^ 63 - 1"
definition min_int64 :: int where "min_int64 = - (2 ^ 63)"

definition wrap64 :: "int \<Rightarrow> int" where
  "wrap64 x = (x + 2 ^ 63) mod 2 ^ 64 - 2 ^ 63"

definition second :: duration where "second = 1000000000"
definition millisecond :: duration where "millisecond = 1000000"

definition seconds :: "int \<Rightarrow> duration" where
  "seconds n = wrap64 (n * second)"

definition time_sub :: "time \<Rightarrow> time \<Rightarrow> duration" where
  "time_sub t u = max min_int64 (min max_int64 (t - u))"

text \<open>The zero \<open>time.Time\<close>, 1 January of year 1, in nanoseconds since the Unix epoch.\<close>

definition zero_time :: time where "zero_time = - 62135596800000000000"

lemma wrap64_range: "min_int64 \<le> wrap64 x \<and> wrap64 x \<le> max_int64"
proof -
  have "0 \<le> (x + 2 ^ 63) mod 2 ^ 64" and "(x + 2 ^ 63) mod 2 ^ 64 < (2 :: int) ^ 64"
    by simp_all
  then show ?thesis by (simp add: wrap64_def min_int64_def max_int64_def)
qed

lemma wrap64_id: "min_int64 \<le> x \<Longrightarrow> x \<le> max_int64 \<Longrightarrow> wrap64 x = x"
  by (simp add: wrap64_def min_int64_def max_int64_def)

lemma seconds_small: "0 \<le> n \<Longrightarrow> n \<le> 9000000000 \<Longrightarrow> seconds n = n * 1000000000"
  unfolding seconds_def second_def
  by (rule wrap64_id) (simp_all add: min_int64_def max_int64_def)

lemma time_sub_small:
  "\<bar>t - u\<bar> < 2 ^ 63 \<Longrightarrow> time_sub t u = t - u"
  by (auto simp: time_sub_def min_int64_def max_int64_def)

lemma time_sub_mono: "t \<le> t' \<Longrightarrow> time_sub t u \<le> time_sub t' u"
  by (auto simp: time_sub_def)

lemma time_sub_gt_iff: "min_int64 \<le> d \<Longrightarrow> d < max_int64 \<Longrightarrow> d < time_sub t u \<longleftrightarrow> d < t - u"
  by (auto simp: time_sub_def min_int64_def max_int64_def)

lemma time_sub_le_iff: "min_int64 < d \<Longrightarrow> d \<le> max_int64 \<Longrightarrow> d \<le> time_sub t u \<longleftrightarrow> d \<le> t - u"
  by (auto simp: time_sub_def min_int64_def max_int64_def)

subsection \<open>Lists\<close>

lemma takeWhile_append_stop:
  "list_all P xs \<Longrightarrow> \<not> P y \<Longrightarrow> takeWhile P (xs @ y # ys) = xs"
  by (induction xs) auto

lemma dropWhile_append_stop:
  "list_all P xs \<Longrightarrow> \<not> P y \<Longrightarrow> dropWhile P (xs @ y # ys) = y # ys"
  by (induction xs) auto

lemma takeWhile_neq_append: "c \<notin> set xs \<Longrightarrow> takeWhile (\<lambda>d. d \<noteq> c) (xs @ c # ys) = xs"
  by (induction xs) auto

lemma takeWhile_all: "list_all P xs \<Longrightarrow> takeWhile P xs = xs"
  by (induction xs) auto

lemma dropWhile_all: "list_all P xs \<Longrightarrow> dropWhile P xs = []"
  by (induction xs) auto

lemma list_all_takeWhile: "list_all P (takeWhile P xs)"
  by (induction xs) auto

lemma list_all_butlast_append [simp]:
  "ys \<noteq> [] \<Longrightarrow> list_all P (butlast (xs @ ys)) \<longleftrightarrow> list_all P xs \<and> list_all P (butlast ys)"
  by (simp add: butlast_append)

subsection \<open>Association lists as Go maps\<close>

lemma map_of_update [simp]: "map_of (AList.update k v al) = (map_of al)(k \<mapsto> v)"
  by (rule AList.update_conv')

lemma map_of_delete_alist [simp]: "map_of (AList.delete k al) = (map_of al)(k := None)"
  by (rule AList.delete_conv')

lemma keys_update [simp]:
  "fst ` set (AList.update k v al) = insert k (fst ` set al)"
  using AList.dom_update [of k v al] by (auto simp: dom_map_of_conv_image_fst)

lemma keys_delete [simp]:
  "fst ` set (AList.delete k al) = fst ` set al - {k}"
  using AList.delete_keys [of k al] by (auto simp: image_iff AList.delete_eq)

lemma distinct_keys_update [simp]:
  "distinct (map fst al) \<Longrightarrow> distinct (map fst (AList.update k v al))"
  by (rule AList.distinct_update)

lemma distinct_keys_delete [simp]:
  "distinct (map fst al) \<Longrightarrow> distinct (map fst (AList.delete k al))"
  by (rule AList.distinct_delete)

lemma length_update:
  "length (AList.update k v al) = (if k \<in> fst ` set al then length al else Suc (length al))"
  by (induction al) auto

lemma length_delete_le: "length (AList.delete k al) \<le> length al"
  by (simp add: AList.delete_eq)

lemma length_delete_present:
  "distinct (map fst al) \<Longrightarrow> k \<in> fst ` set al \<Longrightarrow> Suc (length (AList.delete k al)) = length al"
proof (induction al)
  case Nil
  then show ?case by simp
next
  case (Cons p al)
  show ?case
  proof (cases "fst p = k")
    case True
    with Cons.prems have "k \<notin> fst ` set al" by auto
    then have "AList.delete k al = al"
      by (auto simp: AList.delete_eq filter_id_conv image_iff)
    with True show ?thesis by (cases p) simp
  next
    case False
    with Cons show ?thesis by (cases p) auto
  qed
qed

section \<open>Runs of a step function\<close>

text \<open>
  The limiter, the bridge, a session, the server and the gateway are each a function that takes one
  step, and a run of a list of labels. What all of them share is proved here once: runs compose, and
  what every step keeps a run keeps.
\<close>

locale run_system =
  fixes step :: "'s \<Rightarrow> 'l \<Rightarrow> 's"
    and run :: "'s \<Rightarrow> 'l list \<Rightarrow> 's"
  assumes run_Nil: "run s [] = s"
    and run_Cons: "run s (l # ls) = run (step s l) ls"
begin

lemma run_append: "run s (xs @ ys) = run (run s xs) ys"
  by (induction xs arbitrary: s) (simp_all add: run_Nil run_Cons)

lemma run_snoc: "run s (ls @ [l]) = step (run s ls) l"
  by (simp add: run_append run_Nil run_Cons)

lemma run_keeps_if:
  assumes "\<And>s l. I s \<Longrightarrow> Q l \<Longrightarrow> I (step s l)" and "I s" and "list_all Q ls"
  shows "I (run s ls)"
  using assms(2,3) by (induction ls arbitrary: s) (simp_all add: run_Nil run_Cons assms(1))

lemma run_keeps:
  assumes "\<And>s l. I s \<Longrightarrow> I (step s l)" and "I s"
  shows "I (run s ls)"
  using run_keeps_if [of I "\<lambda>_. True" s ls] assms by (simp add: list_all_iff)

lemma run_frame:
  assumes "\<And>s l. f (step s l) = f s"
  shows "f (run s ls) = f s"
  using run_keeps [of "\<lambda>t. f t = f s"] assms by simp

end

text \<open>A system with an invariant: what a step keeps under the invariant a run keeps.\<close>

locale invariant_system = run_system +
  fixes inv :: "'s \<Rightarrow> bool"
  assumes inv_step: "inv s \<Longrightarrow> inv (step s l)"
begin

lemma inv_run: "inv s \<Longrightarrow> inv (run s ls)"
  by (rule run_keeps) (rule inv_step)

lemma run_keeps_under:
  assumes "\<And>s l. inv s \<Longrightarrow> I s \<Longrightarrow> I (step s l)" and "inv s" and "I s"
  shows "I (run s ls)"
  using run_keeps [of "\<lambda>s. inv s \<and> I s" s ls] assms inv_step by blast

end

end
