(* ===== verification/SRegisters.thy ===== *)
theory SRegisters
  imports Prelude
begin

section \<open>The S-registers (internal/modem/sregisters.go)\<close>

text \<open>
  The register file of the virtual modem. \<open>Set\<close> clamps silently, so the lemmas show that a
  register that has a limit never leaves it, whatever value a caller asks for. The interface
  \<open>register_file\<close> states what the modem relies on.
\<close>

record sregisters =
  registers :: "(int \<times> int) list"

definition defaultSRegisters :: "(int \<times> int) list" where
  "defaultSRegisters =
    [(0, 0), (1, 0), (2, 43), (3, 13), (4, 10), (5, 8), (6, 2), (7, 30), (8, 2), (9, 6),
     (10, 7), (12, 50)]"

text \<open>\<open>Reset\<close> writes the defaults over the map; registers without a default are left alone.\<close>

definition reset_registers :: "sregisters \<Rightarrow> sregisters" where
  "reset_registers s =
     s\<lparr>registers := foldl (\<lambda>m (k, v). AList.update k v m) (registers s) defaultSRegisters\<rparr>"

definition new_sregisters :: sregisters where
  "new_sregisters = reset_registers \<lparr>registers = []\<rparr>"

definition get_register :: "sregisters \<Rightarrow> int \<Rightarrow> int" where
  "get_register s reg = (case map_of (registers s) reg of Some val \<Rightarrow> val | None \<Rightarrow> 0)"

record register_limit =
  limit_min :: int
  limit_max :: int

definition registerLimits :: "int \<rightharpoonup> register_limit" where
  "registerLimits = map_of
    [(0, \<lparr>limit_min = 0, limit_max = 255\<rparr>),
     (2, \<lparr>limit_min = 0, limit_max = 127\<rparr>),
     (3, \<lparr>limit_min = 1, limit_max = 31\<rparr>),
     (4, \<lparr>limit_min = 1, limit_max = 31\<rparr>),
     (5, \<lparr>limit_min = 1, limit_max = 31\<rparr>),
     (6, \<lparr>limit_min = 0, limit_max = 10\<rparr>),
     (7, \<lparr>limit_min = 1, limit_max = 60\<rparr>),
     (8, \<lparr>limit_min = 0, limit_max = 10\<rparr>),
     (9, \<lparr>limit_min = 1, limit_max = 255\<rparr>),
     (10, \<lparr>limit_min = 1, limit_max = 255\<rparr>),
     (12, \<lparr>limit_min = 20, limit_max = 255\<rparr>)]"

definition set_register :: "sregisters \<Rightarrow> int \<Rightarrow> int \<Rightarrow> sregisters" where
  "set_register s reg val =
     (let val' =
        (case registerLimits reg of
           Some limit \<Rightarrow>
             if val < limit_min limit then limit_min limit
             else if val > limit_max limit then limit_max limit
             else val
         | None \<Rightarrow> if val < 0 then 0 else if val > 255 then 255 else val)
      in s\<lparr>registers := AList.update reg val' (registers s)\<rparr>)"

definition get_escape_char :: "sregisters \<Rightarrow> byte" where
  "get_escape_char s = word_of_int (get_register s 2)"

definition get_cr :: "sregisters \<Rightarrow> byte" where
  "get_cr s = word_of_int (get_register s 3)"

definition get_lf :: "sregisters \<Rightarrow> byte" where
  "get_lf s = word_of_int (get_register s 4)"

definition get_backspace :: "sregisters \<Rightarrow> byte" where
  "get_backspace s = word_of_int (get_register s 5)"

definition get_dial_tone_wait :: "sregisters \<Rightarrow> int" where
  "get_dial_tone_wait s = get_register s 6"

definition get_connection_timeout :: "sregisters \<Rightarrow> int" where
  "get_connection_timeout s = get_register s 7"

definition get_carrier_detect_time :: "sregisters \<Rightarrow> int" where
  "get_carrier_detect_time s = get_register s 9 * 100"

definition get_escape_guard_time :: "sregisters \<Rightarrow> int" where
  "get_escape_guard_time s = get_register s 12 * 20"

text \<open>\<open>All\<close> copies the map entry by entry into a fresh one.\<close>

definition all_registers :: "sregisters \<Rightarrow> (int \<times> int) list" where
  "all_registers s = foldl (\<lambda>m (k, v). AList.update k v m) [] (registers s)"

subsection \<open>Limits and the register invariant\<close>

definition lower_limit :: "int \<Rightarrow> int" where
  "lower_limit reg = (case registerLimits reg of Some l \<Rightarrow> limit_min l | None \<Rightarrow> 0)"

definition upper_limit :: "int \<Rightarrow> int" where
  "upper_limit reg = (case registerLimits reg of Some l \<Rightarrow> limit_max l | None \<Rightarrow> 255)"

text \<open>
  The invariant: every stored value is inside the limits of its register, the registers that have
  a default are all present (the map is never pruned), and the map holds each key once.
\<close>

definition sregs_inv :: "sregisters \<Rightarrow> bool" where
  "sregs_inv s \<longleftrightarrow> distinct (map fst (registers s))
     \<and> fst ` set defaultSRegisters \<subseteq> fst ` set (registers s)
     \<and> (\<forall>reg val. map_of (registers s) reg = Some val
          \<longrightarrow> lower_limit reg \<le> val \<and> val \<le> upper_limit reg)"

lemma limits_cases:
  "(lower_limit reg, upper_limit reg) \<in>
     {(0, 255), (0, 127), (1, 31), (0, 10), (1, 60), (1, 255), (20, 255)}"
  by (auto simp: lower_limit_def upper_limit_def registerLimits_def)

lemma limits_ordered: "0 \<le> lower_limit reg \<and> lower_limit reg \<le> upper_limit reg \<and> upper_limit reg \<le> 255"
  using limits_cases [of reg] by auto

definition clamp_register :: "int \<Rightarrow> int \<Rightarrow> int" where
  "clamp_register reg val = max (lower_limit reg) (min (upper_limit reg) val)"

lemma set_register_clamps:
  "set_register s reg val = s\<lparr>registers := AList.update reg (clamp_register reg val) (registers s)\<rparr>"
  using limits_ordered [of reg]
  by (auto simp: set_register_def clamp_register_def lower_limit_def upper_limit_def Let_def
      max_def min_def split: option.splits)

lemma clamp_register_bounds:
  "lower_limit reg \<le> clamp_register reg val \<and> clamp_register reg val \<le> upper_limit reg"
  using limits_ordered [of reg] by (auto simp: clamp_register_def)

lemma get_set_register [simp]:
  "get_register (set_register s reg val) r =
     (if r = reg then clamp_register reg val else get_register s r)"
  by (simp add: set_register_clamps get_register_def)

lemma foldl_update_map_of:
  "map_of (foldl (\<lambda>m (k, v). AList.update k v m) m xs) = map_of m ++ map_of (rev xs)"
  by (induction xs arbitrary: m) (auto simp: map_add_def fun_eq_iff split: option.splits)

lemma foldl_update_distinct:
  "distinct (map fst m) \<Longrightarrow> distinct (map fst (foldl (\<lambda>m (k, v). AList.update k v m) m xs))"
  by (induction xs arbitrary: m) auto

lemma foldl_update_keys:
  "fst ` set (foldl (\<lambda>m (k, v). AList.update k v m) m xs) = fst ` set m \<union> fst ` set xs"
  by (induction xs arbitrary: m) (simp_all add: split_beta)

lemma map_of_all_registers:
  assumes "distinct (map fst (registers s))"
  shows "map_of (all_registers s) = map_of (registers s)"
proof -
  have "map_of (rev (registers s)) = map_of (registers s)"
    using assms by (intro map_of_inject_set [THEN iffD2]) (auto simp: rev_map [symmetric])
  then show ?thesis by (simp add: all_registers_def foldl_update_map_of)
qed

lemma map_of_reset:
  "map_of (registers (reset_registers s)) = map_of (registers s) ++ map_of defaultSRegisters"
proof -
  have "map_of (rev defaultSRegisters) = map_of defaultSRegisters"
    by (intro map_of_inject_set [THEN iffD2]) (auto simp: defaultSRegisters_def)
  then show ?thesis by (simp add: reset_registers_def foldl_update_map_of)
qed

lemma default_in_limits:
  "map_of defaultSRegisters reg = Some val \<Longrightarrow> lower_limit reg \<le> val \<and> val \<le> upper_limit reg"
  by (auto simp: defaultSRegisters_def lower_limit_def upper_limit_def registerLimits_def
      split: if_splits)

lemma sregs_inv_reset_distinct:
  assumes "distinct (map fst (registers s))"
    and "\<forall>reg val. map_of (registers s) reg = Some val
           \<longrightarrow> lower_limit reg \<le> val \<and> val \<le> upper_limit reg"
  shows "sregs_inv (reset_registers s)"
proof -
  have "distinct (map fst (registers (reset_registers s)))"
    using assms(1) by (simp add: reset_registers_def foldl_update_distinct)
  moreover have "fst ` set defaultSRegisters \<subseteq> fst ` set (registers (reset_registers s))"
    by (simp add: reset_registers_def foldl_update_keys)
  moreover have "lower_limit reg \<le> val \<and> val \<le> upper_limit reg"
    if "map_of (registers (reset_registers s)) reg = Some val" for reg val
    using that assms(2) default_in_limits
    by (auto simp: map_of_reset map_add_def split: option.splits)
  ultimately show ?thesis by (simp add: sregs_inv_def)
qed

lemma sregs_inv_reset [inv_intros]: "sregs_inv s \<Longrightarrow> sregs_inv (reset_registers s)"
  by (rule sregs_inv_reset_distinct) (auto simp: sregs_inv_def)

lemma sregs_inv_new [inv_intros]: "sregs_inv new_sregisters"
  unfolding new_sregisters_def by (rule sregs_inv_reset_distinct) auto

lemma sregs_inv_set [inv_intros]: "sregs_inv s \<Longrightarrow> sregs_inv (set_register s reg val)"
  using clamp_register_bounds [of reg val]
  by (auto simp: sregs_inv_def set_register_clamps)

lemma get_register_reset:
  "get_register (reset_registers s) reg =
     (case map_of defaultSRegisters reg of Some v \<Rightarrow> v | None \<Rightarrow> get_register s reg)"
  by (auto simp: get_register_def map_of_reset map_add_def split: option.splits)

lemma get_register_limits:
  assumes "sregs_inv s" and "reg \<in> fst ` set defaultSRegisters"
  shows "lower_limit reg \<le> get_register s reg \<and> get_register s reg \<le> upper_limit reg"
proof -
  from assms have "reg \<in> fst ` set (registers s)" by (auto simp: sregs_inv_def)
  then obtain val where "map_of (registers s) reg = Some val"
    by (meson map_of_eq_None_iff not_Some_eq)
  with assms(1) show ?thesis by (auto simp: sregs_inv_def get_register_def)
qed

text \<open>The registers the terminal protocol is built on keep their meaning in every state.\<close>

lemma control_char_bounds:
  assumes "sregs_inv s"
  shows "1 \<le> uint (get_cr s)" "uint (get_cr s) \<le> 31"
    and "1 \<le> uint (get_lf s)" "uint (get_lf s) \<le> 31"
    and "1 \<le> uint (get_backspace s)" "uint (get_backspace s) \<le> 31"
    and "uint (get_escape_char s) \<le> 127"
  using get_register_limits [OF assms, of 3] get_register_limits [OF assms, of 4]
    get_register_limits [OF assms, of 5] get_register_limits [OF assms, of 2]
  by (auto simp: get_cr_def get_lf_def get_backspace_def get_escape_char_def
      defaultSRegisters_def lower_limit_def upper_limit_def registerLimits_def
      uint_word_of_int take_bit_eq_mod)

lemma guard_time_bounds:
  assumes "sregs_inv s"
  shows "400 \<le> get_escape_guard_time s" "get_escape_guard_time s \<le> 5100"
  using get_register_limits [OF assms, of 12]
  by (auto simp: get_escape_guard_time_def defaultSRegisters_def lower_limit_def upper_limit_def
      registerLimits_def)

subsection \<open>The register file as an interface\<close>

text \<open>
  What the modem relies on: a read after a write sees the clamped value, other registers are
  untouched, and every operation keeps the invariant. Inside the locale, the value of a register
  after any sequence of writes is the clamp of the last value written to it.
\<close>

locale register_file =
  fixes read :: "'r \<Rightarrow> int \<Rightarrow> int"
    and store :: "'r \<Rightarrow> int \<Rightarrow> int \<Rightarrow> 'r"
    and clamp :: "int \<Rightarrow> int \<Rightarrow> int"
    and invar :: "'r \<Rightarrow> bool"
  assumes read_store: "read (store s r v) r' = (if r' = r then clamp r v else read s r')"
    and invar_store: "invar s \<Longrightarrow> invar (store s r v)"
begin

definition store_all :: "'r \<Rightarrow> (int \<times> int) list \<Rightarrow> 'r" where
  "store_all s ws = foldl (\<lambda>s (r, v). store s r v) s ws"

lemma invar_store_all: "invar s \<Longrightarrow> invar (store_all s ws)"
  unfolding store_all_def
  by (induction ws arbitrary: s) (auto intro: invar_store)

lemma read_store_all:
  "read (store_all s ws) r =
     (case map_of (rev ws) r of Some v \<Rightarrow> clamp r v | None \<Rightarrow> read s r)"
  unfolding store_all_def
  by (induction ws arbitrary: s) (auto simp: read_store map_add_def split: option.splits)

end

interpretation sregs: register_file get_register set_register clamp_register sregs_inv
  by unfold_locales (simp_all add: inv_intros)

subsection \<open>Properties\<close>

text \<open>After any sequence of register writes a register holds the last value written to it, cut to
  its limits, and a register never written holds what it held.\<close>

theorem register_writes:
  "get_register (foldl (\<lambda>s (r, v). set_register s r v) s ws) r =
     (case map_of (rev ws) r of
        Some v \<Rightarrow> max (lower_limit r) (min (upper_limit r) v)
      | None \<Rightarrow> get_register s r)"
  using sregs.read_store_all [of s ws r] by (simp add: sregs.store_all_def clamp_register_def split: option.split)

text \<open>No sequence of register writes leaves the terminal without its control characters: carriage
  return, line feed and backspace stay between 1 and 31, the escape character below 128, and the guard
  time between 0.4 and 5.1 seconds.\<close>

theorem registers_stay_usable:
  "let s = foldl (\<lambda>s (r, v). set_register s r v) new_sregisters ws
   in uint (get_cr s) \<in> {1..31} \<and> uint (get_lf s) \<in> {1..31} \<and> uint (get_backspace s) \<in> {1..31}
      \<and> uint (get_escape_char s) \<le> 127 \<and> get_escape_guard_time s \<in> {400..5100}"
proof -
  have i: "sregs_inv (foldl (\<lambda>s (r, v). set_register s r v) new_sregisters ws)"
    using sregs.invar_store_all [OF sregs_inv_new, of ws] by (simp add: sregs.store_all_def)
  show ?thesis using control_char_bounds [OF i] guard_time_bounds [OF i] by (simp add: Let_def)
qed

end
