(* ===== verification/GoText.thy ===== *)
theory GoText
  imports Prelude
begin

section \<open>The part of Go's strings, strconv and fmt that the gateway uses\<close>

text \<open>
  Executable definitions of \<open>strings.ToUpper\<close>, \<open>ToLower\<close>, \<open>TrimSpace\<close>, \<open>HasPrefix\<close>,
  \<open>TrimSuffix\<close>, \<open>strconv.Atoi\<close> on digit strings, and the \<open>%d\<close>, \<open>%03d\<close> and \<open>%c\<close> verbs, on byte
  strings.

  \<^item> \<open>TrimSpace\<close> strips Unicode white space: the list \<open>ws_encodings\<close> holds the UTF-8 encodings of
    exactly the runes \<open>unicode.IsSpace\<close> accepts.
  \<^item> \<open>ToUpper\<close> is bytewise on ASCII. Two runes outside ASCII have an ASCII upper case, U+0131 (to
    \<open>I\<close>) and U+017F (to \<open>S\<close>); their encodings start with a byte that is never a continuation byte,
    so replacing them wherever they occur is what decoding does. Every other byte from 128 on is
    kept: the code only compares an upper-cased string with ASCII words, and the upper case of any
    other rune (or of an invalid byte) is outside ASCII as well, so no comparison can tell the
    difference. \<open>ToLower\<close> treats U+0130 (to \<open>i\<close>) and U+212A (to \<open>k\<close>) the same way.
\<close>

subsection \<open>Case\<close>

definition upper_char :: "char \<Rightarrow> char" where
  "upper_char c = (if 97 \<le> (of_char c :: nat) \<and> (of_char c :: nat) \<le> 122
     then char_of ((of_char c :: nat) - 32) else c)"

definition lower_char :: "char \<Rightarrow> char" where
  "lower_char c = (if 65 \<le> (of_char c :: nat) \<and> (of_char c :: nat) \<le> 90
     then char_of ((of_char c :: nat) + 32) else c)"

fun to_upper :: "string \<Rightarrow> string" where
  "to_upper [] = []"
| "to_upper [c] = [upper_char c]"
| "to_upper (c # d # s) =
     (if c = CHR 0xC4 \<and> d = CHR 0xB1 then CHR ''I'' # to_upper s
      else if c = CHR 0xC5 \<and> d = CHR 0xBF then CHR ''S'' # to_upper s
      else upper_char c # to_upper (d # s))"

fun to_lower :: "string \<Rightarrow> string" where
  "to_lower (c # d # e # s) =
     (if c = CHR 0xE2 \<and> d = CHR 0x84 \<and> e = CHR 0xAA then CHR ''k'' # to_lower s
      else if c = CHR 0xC4 \<and> d = CHR 0xB0 then CHR ''i'' # to_lower (e # s)
      else lower_char c # to_lower (d # e # s))"
| "to_lower [c, d] =
     (if c = CHR 0xC4 \<and> d = CHR 0xB0 then ''i'' else [lower_char c, lower_char d])"
| "to_lower [c] = [lower_char c]"
| "to_lower [] = []"

definition is_ascii :: "string \<Rightarrow> bool" where
  "is_ascii s \<longleftrightarrow> list_all (\<lambda>c. (of_char c :: nat) < 128) s"

lemma is_ascii_simps [simp]:
  "is_ascii []"
  "is_ascii (c # s) \<longleftrightarrow> (of_char c :: nat) < 128 \<and> is_ascii s"
  "is_ascii (s @ t) \<longleftrightarrow> is_ascii s \<and> is_ascii t"
  by (simp_all add: is_ascii_def)

lemma to_upper_Cons_ascii:
  assumes "(of_char c :: nat) < 128"
  shows "to_upper (c # s) = upper_char c # to_upper s"
  using assms by (cases s) auto

lemma to_upper_append_ascii: "is_ascii s \<Longrightarrow> to_upper (s @ t) = map upper_char s @ to_upper t"
  by (induction s) (simp_all add: to_upper_Cons_ascii)

lemma to_upper_ascii: "is_ascii s \<Longrightarrow> to_upper s = map upper_char s"
  using to_upper_append_ascii [of s "[]"] by simp

lemma to_upper_eq_Nil [simp]: "to_upper s = [] \<longleftrightarrow> s = []"
  by (induction s rule: to_upper.induct) auto

lemma of_upper_char:
  "(of_char (upper_char c) :: nat) =
     (if 97 \<le> (of_char c :: nat) \<and> (of_char c :: nat) \<le> 122 then of_char c - 32 else of_char c)"
  by (auto simp: upper_char_def)

lemma upper_char_ascii:
  "(of_char c :: nat) < 128 \<Longrightarrow> (of_char (upper_char c) :: nat) < 128"
  by (auto simp: of_upper_char)

lemma upper_char_keeps_high:
  "128 \<le> (of_char c :: nat) \<Longrightarrow> upper_char c = c"
  by (simp add: upper_char_def)

lemma upper_char_nonalpha:
  "\<not> (97 \<le> (of_char c :: nat) \<and> (of_char c :: nat) \<le> 122) \<Longrightarrow> upper_char c = c"
  by (auto simp: upper_char_def)

lemma upper_char_idem [simp]: "upper_char (upper_char c) = upper_char c"
  by (rule upper_char_nonalpha) (auto simp: of_upper_char)

subsection \<open>Prefixes, suffixes and white space\<close>

definition has_prefix :: "string \<Rightarrow> string \<Rightarrow> bool" where
  "has_prefix s p \<longleftrightarrow> take (length p) s = p"

definition has_suffix :: "string \<Rightarrow> string \<Rightarrow> bool" where
  "has_suffix s p \<longleftrightarrow> length p \<le> length s \<and> drop (length s - length p) s = p"

definition trim_suffix :: "string \<Rightarrow> string \<Rightarrow> string" where
  "trim_suffix s p = (if has_suffix s p then take (length s - length p) s else s)"

lemma has_prefix_iff: "has_prefix s p \<longleftrightarrow> (\<exists>t. s = p @ t)"
  by (metis has_prefix_def append_eq_conv_conj append_take_drop_id)

lemma has_suffix_iff: "has_suffix s p \<longleftrightarrow> (\<exists>t. s = t @ p)"
proof
  assume "has_suffix s p"
  then have "s = take (length s - length p) s @ p"
    by (metis has_suffix_def append_take_drop_id)
  then show "\<exists>t. s = t @ p" by blast
next
  assume "\<exists>t. s = t @ p"
  then show "has_suffix s p" by (auto simp: has_suffix_def)
qed

lemma trim_suffix_append [simp]: "trim_suffix (s @ p) p = s"
  by (simp add: trim_suffix_def has_suffix_def)

definition ws_encodings :: "string list" where
  "ws_encodings =
    [[CHR 0x09], [CHR 0x0A], [CHR 0x0B], [CHR 0x0C], [CHR 0x0D], [CHR 0x20],
     [CHR 0xC2, CHR 0x85], [CHR 0xC2, CHR 0xA0], [CHR 0xE1, CHR 0x9A, CHR 0x80],
     [CHR 0xE2, CHR 0x80, CHR 0x80], [CHR 0xE2, CHR 0x80, CHR 0x81],
     [CHR 0xE2, CHR 0x80, CHR 0x82], [CHR 0xE2, CHR 0x80, CHR 0x83],
     [CHR 0xE2, CHR 0x80, CHR 0x84], [CHR 0xE2, CHR 0x80, CHR 0x85],
     [CHR 0xE2, CHR 0x80, CHR 0x86], [CHR 0xE2, CHR 0x80, CHR 0x87],
     [CHR 0xE2, CHR 0x80, CHR 0x88], [CHR 0xE2, CHR 0x80, CHR 0x89],
     [CHR 0xE2, CHR 0x80, CHR 0x8A], [CHR 0xE2, CHR 0x80, CHR 0xA8],
     [CHR 0xE2, CHR 0x80, CHR 0xA9], [CHR 0xE2, CHR 0x80, CHR 0xAF],
     [CHR 0xE2, CHR 0x81, CHR 0x9F], [CHR 0xE3, CHR 0x80, CHR 0x80]]"

function strip_front :: "string list \<Rightarrow> string \<Rightarrow> string" where
  "strip_front encs s =
     (case find (\<lambda>e. e \<noteq> [] \<and> has_prefix s e) encs of
        None \<Rightarrow> s
      | Some e \<Rightarrow> strip_front encs (drop (length e) s))"
  by pat_completeness auto
termination
proof (relation "measure (\<lambda>(encs, s). length s)", simp)
  fix encs s e
  assume "find (\<lambda>e. e \<noteq> [] \<and> has_prefix s e) encs = Some e"
  then have "e \<noteq> []" and "has_prefix s e" by (auto simp: find_Some_iff)
  then show "((encs, drop (length e) s), (encs, s)) \<in> measure (\<lambda>(encs, s). length s)"
    by (auto simp: has_prefix_iff)
qed

declare strip_front.simps [simp del]

definition trim_space :: "string \<Rightarrow> string" where
  "trim_space s = rev (strip_front (map rev ws_encodings) (rev (strip_front ws_encodings s)))"

lemma strip_front_stop:
  "(\<And>e. e \<in> set encs \<Longrightarrow> e \<noteq> [] \<Longrightarrow> \<not> has_prefix s e) \<Longrightarrow> strip_front encs s = s"
  by (subst strip_front.simps) (auto split: option.split simp: find_Some_iff dest: nth_mem)

lemma strip_front_no_prefix:
  "e \<in> set encs \<Longrightarrow> e \<noteq> [] \<Longrightarrow> \<not> has_prefix (strip_front encs s) e"
proof (induction encs s rule: strip_front.induct)
  case (1 encs s)
  show ?case
  proof (cases "find (\<lambda>e. e \<noteq> [] \<and> has_prefix s e) encs")
    case None
    then have "strip_front encs s = s" by (subst strip_front.simps) simp
    with None "1.prems" show ?thesis by (auto simp: find_None_iff)
  next
    case (Some e')
    then have "strip_front encs s = strip_front encs (drop (length e') s)"
      by (subst strip_front.simps) simp
    with "1.IH" [OF Some] "1.prems" show ?thesis by simp
  qed
qed

lemma strip_front_suffix: "\<exists>p. s = p @ strip_front encs s"
proof (induction encs s rule: strip_front.induct)
  case (1 encs s)
  show ?case
  proof (cases "find (\<lambda>e. e \<noteq> [] \<and> has_prefix s e) encs")
    case None
    then have "strip_front encs s = s" by (subst strip_front.simps) simp
    then show ?thesis by simp
  next
    case (Some e)
    then have eq: "strip_front encs s = strip_front encs (drop (length e) s)"
      by (subst strip_front.simps) simp
    obtain p where "drop (length e) s = p @ strip_front encs (drop (length e) s)"
      using "1.IH" [OF Some] by blast
    then have "s = (take (length e) s @ p) @ strip_front encs s"
      by (metis append.assoc append_take_drop_id eq)
    then show ?thesis by blast
  qed
qed

definition plain_char :: "char \<Rightarrow> bool" where
  "plain_char c \<longleftrightarrow> 33 \<le> (of_char c :: nat) \<and> (of_char c :: nat) < 128"

lemma plain_not_ws:
  assumes "plain_char c" and "e \<in> set ws_encodings \<or> e \<in> rev ` set ws_encodings"
  shows "\<not> has_prefix (c # s) e"
  using assms by (auto simp: has_prefix_def ws_encodings_def plain_char_def)

lemma ws_encodings_nonempty: "e \<in> set ws_encodings \<Longrightarrow> e \<noteq> []"
  by (auto simp: ws_encodings_def)

lemma strip_front_plain_left: "plain_char c \<Longrightarrow> strip_front ws_encodings (c # s) = c # s"
  by (rule strip_front_stop) (simp add: plain_not_ws)

lemma strip_front_plain_right:
  assumes "plain_char c"
  shows "strip_front (map rev ws_encodings) (c # s) = c # s"
proof (rule strip_front_stop)
  fix e assume "e \<in> set (map rev ws_encodings)"
  then have "e \<in> rev ` set ws_encodings" by simp
  then show "\<not> has_prefix (c # s) e" using assms plain_not_ws by blast
qed

lemma trim_space_plain:
  assumes "s \<noteq> []" and "plain_char (hd s)" and "plain_char (last s)"
  shows "trim_space s = s"
proof -
  obtain c t where s: "s = c # t" using assms(1) by (cases s) auto
  have 1: "strip_front ws_encodings s = s" using assms(2) s by (simp add: strip_front_plain_left)
  obtain d u where r: "rev s = d # u" using assms(1) by (cases "rev s") auto
  then have "d = last s" by (metis hd_rev list.sel(1))
  with assms(3) have "plain_char d" by simp
  then have "strip_front (map rev ws_encodings) (rev s) = rev s"
    unfolding r by (rule strip_front_plain_right)
  with 1 show ?thesis by (simp add: trim_space_def)
qed

lemma strip_front_Nil [simp]: "strip_front encs [] = []"
  using strip_front_suffix [of "[]" encs] by simp

lemma trim_space_Nil [simp]: "trim_space [] = []"
  by (simp add: trim_space_def)

subsection \<open>Decimal numbers\<close>

definition is_digit :: "char \<Rightarrow> bool" where
  "is_digit c \<longleftrightarrow> 48 \<le> (of_char c :: nat) \<and> (of_char c :: nat) \<le> 57"

definition digit_val :: "char \<Rightarrow> int" where
  "digit_val c = of_char c - 48"

definition dec_val :: "string \<Rightarrow> int" where
  "dec_val s = foldl (\<lambda>n c. n * 10 + digit_val c) 0 s"

text \<open>\<open>strconv.Atoi\<close> on a string of digits: an error when empty or out of the 64-bit range.\<close>

definition atoi :: "string \<Rightarrow> int option" where
  "atoi s = (if s \<noteq> [] \<and> list_all is_digit s \<and> dec_val s \<le> max_int64
     then Some (dec_val s) else None)"

fun nat_digits :: "nat \<Rightarrow> string" where
  "nat_digits n = (if n < 10 then [char_of (48 + n)]
     else nat_digits (n div 10) @ [char_of (48 + n mod 10)])"

declare nat_digits.simps [simp del]

definition fmt_d :: "int \<Rightarrow> string" where
  "fmt_d i = (if i < 0 then ''-'' @ nat_digits (nat (- i)) else nat_digits (nat i))"

definition fmt_0d :: "nat \<Rightarrow> int \<Rightarrow> string" where
  "fmt_0d w i =
     (let sign = (if i < 0 then ''-'' else ''''); ds = nat_digits (nat \<bar>i\<bar>)
      in sign @ replicate (w - length sign - length ds) (CHR ''0'') @ ds)"

text \<open>\<open>%c\<close> prints the rune with the byte's value, two UTF-8 bytes from 128 on.\<close>

definition fmt_c :: "byte \<Rightarrow> string" where
  "fmt_c b = (if unat b < 128 then [char_of (unat b)]
     else [char_of (192 + unat b div 64), char_of (128 + unat b mod 64)])"

lemma nat_digits_nonempty [simp]: "nat_digits n \<noteq> []"
  by (subst nat_digits.simps) simp

lemma is_digit_char_of: "d < (10 :: nat) \<Longrightarrow> is_digit (char_of (48 + d))"
  by (simp add: is_digit_def)

lemma digit_val_char_of: "d < (10 :: nat) \<Longrightarrow> digit_val (char_of (48 + d)) = int d"
proof -
  assume "d < (10 :: nat)"
  then have "(of_char (char_of (48 + d) :: char) :: nat) = 48 + d" by simp
  then have "(of_char (char_of (48 + d) :: char) :: int) = int (48 + d)"
    by (metis of_char_of of_nat_of_char)
  then show ?thesis by (simp add: digit_val_def)
qed

lemma nat_digits_digits: "list_all is_digit (nat_digits n)"
proof (induction n rule: nat_digits.induct)
  case (1 n)
  then show ?case
    by (subst nat_digits.simps) (simp add: is_digit_char_of)
qed

lemma dec_val_append: "dec_val (s @ [c]) = dec_val s * 10 + digit_val c"
  by (simp add: dec_val_def)

lemma dec_val_nat_digits: "dec_val (nat_digits n) = int n"
proof (induction n rule: nat_digits.induct)
  case (1 n)
  show ?case
  proof (cases "n < 10")
    case True
    then show ?thesis
      by (subst nat_digits.simps) (simp add: dec_val_def digit_val_char_of)
  next
    case False
    then have "dec_val (nat_digits n) = int (n div 10) * 10 + int (n mod 10)"
      using "1.IH" by (subst nat_digits.simps) (simp add: dec_val_append digit_val_char_of)
    then show ?thesis by presburger
  qed
qed

lemma atoi_fmt_d: "0 \<le> n \<Longrightarrow> n \<le> max_int64 \<Longrightarrow> atoi (fmt_d n) = Some n"
  by (simp add: atoi_def fmt_d_def nat_digits_digits dec_val_nat_digits)

lemma fmt_d_digits: "0 \<le> n \<Longrightarrow> fmt_d n \<noteq> [] \<and> list_all is_digit (fmt_d n)"
  by (simp add: fmt_d_def nat_digits_digits)

lemma dec_val_nonneg: "list_all is_digit s \<Longrightarrow> 0 \<le> dec_val s"
proof (induction s rule: rev_induct)
  case Nil
  then show ?case by (simp add: dec_val_def)
next
  case (snoc c s)
  have "is_digit c" using snoc.prems by simp
  then have "48 \<le> (of_char c :: nat)" by (simp add: is_digit_def)
  then have "48 \<le> (of_char c :: int)"
    by (metis of_nat_le_iff of_nat_numeral of_nat_of_char)
  with snoc show ?case by (simp add: dec_val_append digit_val_def)
qed

lemma atoi_nonneg: "atoi s = Some v \<Longrightarrow> 0 \<le> v"
  by (auto simp: atoi_def dec_val_nonneg split: if_splits)

lemma is_digit_plain: "is_digit c \<Longrightarrow> plain_char c"
  by (auto simp: is_digit_def plain_char_def)

lemma is_digit_upper: "is_digit c \<Longrightarrow> upper_char c = c"
  by (auto simp: is_digit_def upper_char_def)

end
