(* ===== verification/Commands.thy ===== *)
theory Commands
  imports GoText
begin

section \<open>AT command parsing (internal/modem/commands.go)\<close>

text \<open>
  \<open>ParseCommand\<close> parses one command, \<open>ParseCommandLine\<close> splits a compound line into commands.
  The regular expressions are written out as matchers on the byte string; with \<open>(?i)\<close> Go's
  \<open>S\<close> also matches U+017F, which \<open>match_ats\<close> keeps. The loop of \<open>ParseCommandLine\<close> indexes two
  strings, the line and its upper case, and a Go index out of range panics: \<open>tokenize\<close> returns
  \<open>None\<close> there.
\<close>

datatype command_type =
    CmdUnknown | CmdAT | CmdReset | CmdFactoryReset | CmdDial | CmdHangup | CmdOffHook
  | CmdEchoOff | CmdEchoOn | CmdVerboseOff | CmdVerboseOn | CmdQuietOff | CmdQuietOn
  | CmdIdentify | CmdViewConfig | CmdSRegisterSet | CmdSRegisterQuery | CmdSetX
  | CmdLockSpeed | CmdSetErrorCorrection | CmdSetCompression | CmdOnline | CmdClear

record command =
  cmd_type :: command_type
  cmd_raw :: string
  cmd_number :: string
  cmd_register :: int
  cmd_value :: int

definition mk_command :: "command_type \<Rightarrow> string \<Rightarrow> command" where
  "mk_command t raw =
     \<lparr>cmd_type = t, cmd_raw = raw, cmd_number = '''', cmd_register = 0, cmd_value = 0\<rparr>"

definition SpeedCodeMap :: "int \<rightharpoonup> int" where
  "SpeedCodeMap = map_of
    [(0, 0), (1, 300), (2, 1200), (3, 2400), (6, 4800), (7, 7200),
     (8, 9600), (10, 14400), (11, 19200), (12, 38400), (14, 56000)]"

subsection \<open>The regular expressions\<close>

definition char_ci :: "char \<Rightarrow> char \<Rightarrow> bool" where
  "char_ci c u \<longleftrightarrow> upper_char c = u"

text \<open>\<open>match_at s\<close> is the rest of \<open>s\<close> after a case-insensitive \<open>AT\<close>.\<close>

fun match_at :: "string \<Rightarrow> string option" where
  "match_at (a # t # s) = (if char_ci a CHR ''A'' \<and> char_ci t CHR ''T'' then Some s else None)"
| "match_at _ = None"

fun match_ats :: "string \<Rightarrow> string option" where
  "match_ats s =
     (case match_at s of
        Some (c # r) \<Rightarrow>
          if char_ci c CHR ''S'' then Some r
          else (case r of
                  d # r' \<Rightarrow> if c = CHR 0xC5 \<and> d = CHR 0xBF then Some r' else None
                | [] \<Rightarrow> None)
      | _ \<Rightarrow> None)"

text \<open>\<open>^ATS(\d+)=(\d+)$\<close>\<close>

definition sRegSetPattern :: "string \<Rightarrow> (string \<times> string) option" where
  "sRegSetPattern s =
     (case match_ats s of
        None \<Rightarrow> None
      | Some r \<Rightarrow>
          let d1 = takeWhile is_digit r; r1 = dropWhile is_digit r in
          (case r1 of
             [] \<Rightarrow> None
           | c # d2 \<Rightarrow>
               if d1 \<noteq> [] \<and> c = CHR ''='' \<and> d2 \<noteq> [] \<and> list_all is_digit d2
               then Some (d1, d2) else None))"

text \<open>\<open>^ATS(\d+)\?$\<close>\<close>

definition sRegQueryPattern :: "string \<Rightarrow> string option" where
  "sRegQueryPattern s =
     (case match_ats s of
        None \<Rightarrow> None
      | Some r \<Rightarrow>
          let d1 = takeWhile is_digit r in
          if d1 \<noteq> [] \<and> dropWhile is_digit r = ''?'' then Some d1 else None)"

definition dial_char :: "char \<Rightarrow> bool" where
  "dial_char c \<longleftrightarrow> is_digit c \<or> c \<in> set ''-().*# ''"

text \<open>\<open>^ATD[TP]([0-9\-\(\)\.\*# ]+)$\<close>\<close>

definition dialPattern :: "string \<Rightarrow> string option" where
  "dialPattern s =
     (case match_at s of
        Some (d # m # n) \<Rightarrow>
          if char_ci d CHR ''D'' \<and> (char_ci m CHR ''T'' \<or> char_ci m CHR ''P'')
             \<and> n \<noteq> [] \<and> list_all dial_char n
          then Some n else None
      | _ \<Rightarrow> None)"

text \<open>\<open>^AT&N(\d+)$\<close>, \<open>^AT&Q(\d)$\<close> and \<open>^AT%C(\d)$\<close>\<close>

definition lockSpeedPattern :: "string \<Rightarrow> string option" where
  "lockSpeedPattern s =
     (case match_at s of
        Some (c # l # d) \<Rightarrow>
          if c = CHR ''&'' \<and> char_ci l CHR ''N'' \<and> d \<noteq> [] \<and> list_all is_digit d
          then Some d else None
      | _ \<Rightarrow> None)"

definition errorCorrPattern :: "string \<Rightarrow> string option" where
  "errorCorrPattern s =
     (case match_at s of
        Some [c, l, d] \<Rightarrow>
          if c = CHR ''&'' \<and> char_ci l CHR ''Q'' \<and> is_digit d then Some [d] else None
      | _ \<Rightarrow> None)"

definition compressionPattern :: "string \<Rightarrow> string option" where
  "compressionPattern s =
     (case match_at s of
        Some [c, l, d] \<Rightarrow>
          if c = CHR ''%'' \<and> char_ci l CHR ''C'' \<and> is_digit d then Some [d] else None
      | _ \<Rightarrow> None)"

subsection \<open>ParseCommand\<close>

text \<open>The switch on the upper-cased line.\<close>

definition exact_table :: "(string \<times> command_type) list" where
  "exact_table =
    [(''ATZ'', CmdReset), (''AT&F'', CmdFactoryReset),
     (''ATH'', CmdHangup), (''ATH0'', CmdHangup), (''ATH1'', CmdOffHook),
     (''ATE0'', CmdEchoOff), (''ATE1'', CmdEchoOn),
     (''ATV0'', CmdVerboseOff), (''ATV1'', CmdVerboseOn),
     (''ATQ0'', CmdQuietOff), (''ATQ1'', CmdQuietOn),
     (''ATI'', CmdIdentify), (''ATO'', CmdOnline), (''ATO0'', CmdOnline),
     (''AT&V'', CmdViewConfig), (''ATCLS'', CmdClear),
     (''ATX0'', CmdSetX), (''ATX1'', CmdSetX), (''ATX2'', CmdSetX), (''ATX3'', CmdSetX),
     (''ATX4'', CmdSetX)]"

definition exact_command :: "string \<Rightarrow> command_type option" where
  "exact_command upper = map_of exact_table upper"

text \<open>
  The blocks that try one regular expression each: \<open>None\<close> when it does not match and the next one is
  tried, \<open>Some\<close> the command \<open>ParseCommand\<close> returns when it does.
\<close>

definition check_dial :: "string \<Rightarrow> command \<Rightarrow> command option" where
  "check_dial input cmd =
     (case dialPattern input of
        None \<Rightarrow> None
      | Some n \<Rightarrow> Some (cmd\<lparr>cmd_type := CmdDial, cmd_number := n\<rparr>))"

definition check_sreg_set :: "string \<Rightarrow> command \<Rightarrow> command option" where
  "check_sreg_set input cmd =
     (case sRegSetPattern input of
        None \<Rightarrow> None
      | Some (r, v) \<Rightarrow>
          Some (case (atoi r, atoi v) of
             (Some reg, Some val) \<Rightarrow>
               if reg < 0 \<or> reg > 255 then cmd
               else cmd\<lparr>cmd_type := CmdSRegisterSet, cmd_register := reg, cmd_value := val\<rparr>
           | _ \<Rightarrow> cmd))"

definition check_sreg_query :: "string \<Rightarrow> command \<Rightarrow> command option" where
  "check_sreg_query input cmd =
     (case sRegQueryPattern input of
        None \<Rightarrow> None
      | Some r \<Rightarrow>
          Some (case atoi r of
             Some reg \<Rightarrow>
               if reg < 0 \<or> reg > 255 then cmd
               else cmd\<lparr>cmd_type := CmdSRegisterQuery, cmd_register := reg\<rparr>
           | None \<Rightarrow> cmd))"

definition check_lock_speed :: "string \<Rightarrow> command \<Rightarrow> command option" where
  "check_lock_speed input cmd =
     (case lockSpeedPattern input of
        None \<Rightarrow> None
      | Some c \<Rightarrow>
          Some (case atoi c of
             Some code \<Rightarrow>
               if SpeedCodeMap code = None then cmd
               else cmd\<lparr>cmd_type := CmdLockSpeed, cmd_value := code\<rparr>
           | None \<Rightarrow> cmd))"

definition check_error_corr :: "string \<Rightarrow> command \<Rightarrow> command option" where
  "check_error_corr input cmd =
     (case errorCorrPattern input of
        None \<Rightarrow> None
      | Some d \<Rightarrow>
          Some (case atoi d of
             Some val \<Rightarrow>
               if val \<noteq> 0 \<and> val \<noteq> 5 then cmd
               else cmd\<lparr>cmd_type := CmdSetErrorCorrection, cmd_value := val\<rparr>
           | None \<Rightarrow> cmd))"

definition check_compression :: "string \<Rightarrow> command \<Rightarrow> command option" where
  "check_compression input cmd =
     (case compressionPattern input of
        None \<Rightarrow> None
      | Some d \<Rightarrow>
          Some (case atoi d of
             Some val \<Rightarrow>
               if val \<noteq> 0 \<and> val \<noteq> 1 then cmd
               else cmd\<lparr>cmd_type := CmdSetCompression, cmd_value := val\<rparr>
           | None \<Rightarrow> cmd))"

text \<open>The checks in the order of the code; the first that matches returns.\<close>

definition first_some :: "'a option list \<Rightarrow> 'a \<Rightarrow> 'a" where
  "first_some xs d = (case filter (\<lambda>x. x \<noteq> None) xs of Some y # _ \<Rightarrow> y | _ \<Rightarrow> d)"

definition parse_command :: "string \<Rightarrow> command" where
  "parse_command line =
     (let input = trim_space line;
          upper = to_upper input;
          cmd = mk_command CmdUnknown input
      in
      if \<not> has_prefix upper ''AT'' then cmd
      else if upper = ''AT'' then cmd\<lparr>cmd_type := CmdAT\<rparr>
      else case exact_command upper of
        Some t \<Rightarrow>
          if t = CmdSetX then cmd\<lparr>cmd_type := t, cmd_value := digit_val (upper ! 3)\<rparr>
          else cmd\<lparr>cmd_type := t\<rparr>
      | None \<Rightarrow>
          first_some
            [check_dial input cmd, check_sreg_set input cmd, check_sreg_query input cmd,
             check_lock_speed input cmd, check_error_corr input cmd, check_compression input cmd]
            cmd)"

subsection \<open>ParseCommandLine\<close>

text \<open>\<open>for j < len(rest) && rest[j] >= '0' && rest[j] <= '9' { j++ }\<close>\<close>

definition scan_digits :: "string \<Rightarrow> nat \<Rightarrow> nat" where
  "scan_digits rest j = j + length (takeWhile is_digit (drop j rest))"

definition slice :: "string \<Rightarrow> nat \<Rightarrow> nat \<Rightarrow> string" where
  "slice s i j = take (j - i) (drop i s)"

text \<open>The end of the token that starts at \<open>i\<close>, for the S, \<open>&\<close>, \<open>%\<close> and single-letter arms.\<close>

definition sreg_end :: "string \<Rightarrow> nat \<Rightarrow> nat" where
  "sreg_end rest i =
     (let j = scan_digits rest (i + 1) in
      if j < length rest \<and> rest ! j = CHR ''='' then scan_digits rest (j + 1)
      else if j < length rest \<and> rest ! j = CHR ''?'' then j + 1
      else j)"

definition ext_end :: "string \<Rightarrow> nat \<Rightarrow> nat" where
  "ext_end rest i =
     (let j = i + 1 in if j < length rest then scan_digits rest (j + 1) else j)"

definition letter_end :: "string \<Rightarrow> nat \<Rightarrow> nat" where
  "letter_end rest i =
     (let j = i + 1 in if j < length rest \<and> is_digit (rest ! j) then j + 1 else j)"

definition token_end :: "char \<Rightarrow> string \<Rightarrow> nat \<Rightarrow> nat" where
  "token_end ch rest i =
     (if ch = CHR ''S'' then sreg_end rest i
      else if ch = CHR ''&'' \<or> ch = CHR ''%'' then ext_end rest i
      else letter_end rest i)"

lemma token_end_gt: "i < token_end ch rest i"
  by (auto simp: token_end_def sreg_end_def ext_end_def letter_end_def scan_digits_def Let_def)

function tokenize :: "string \<Rightarrow> string \<Rightarrow> nat \<Rightarrow> command list \<Rightarrow> command list option" where
  "tokenize rest upper i commands =
     (if \<not> i < length rest then Some commands
      else if rest ! i = CHR '' '' then tokenize rest upper (i + 1) commands
      else if \<not> 2 + i < length upper then None
      else
        let ch = upper ! (2 + i) in
        if ch = CHR ''D'' then
          Some (commands @ [parse_command (''AT'' @ trim_space (drop i rest))])
        else if ch = CHR ''C'' then
          (if i + 3 \<le> length rest \<and> to_upper (slice rest i (i + 3)) = ''CLS'' then
             tokenize rest upper (i + 3) (commands @ [mk_command CmdClear ''ATCLS''])
           else Some (commands @ [mk_command CmdUnknown (''AT'' @ [rest ! i])]))
        else
          let j = token_end ch rest i;
              cmd = parse_command (''AT'' @ slice rest i j)
          in if cmd_type cmd = CmdUnknown then Some (commands @ [cmd])
             else tokenize rest upper j (commands @ [cmd]))"
  by pat_completeness auto
termination
proof (relation "measure (\<lambda>(rest, upper, i, commands). length rest - i)", goal_cases)
  case (4 rest upper i commands ch j cmd)
  then show ?case using token_end_gt [of i ch rest] by simp
qed (simp_all add: diff_less_mono2)

declare tokenize.simps [simp del]

definition parse_command_line :: "string \<Rightarrow> command list option" where
  "parse_command_line line =
     (let input = trim_space line; upper = to_upper input in
      if \<not> has_prefix upper ''AT'' then Some [mk_command CmdUnknown input]
      else if upper = ''AT'' then Some [mk_command CmdAT input]
      else
        let single = parse_command input in
        if cmd_type single \<noteq> CmdUnknown then Some [single]
        else
          case tokenize (drop 2 input) upper 0 [] of
            None \<Rightarrow> None
          | Some commands \<Rightarrow>
              if commands = [] then Some [mk_command CmdUnknown input] else Some commands)"

subsection \<open>Result codes\<close>

datatype result_code =
  ResultOK | ResultConnect | ResultRing | ResultNoCarrier | ResultError | ResultBusy | ResultNoAnswer

fun result_num :: "result_code \<Rightarrow> int" where
  "result_num ResultOK = 0"
| "result_num ResultConnect = 1"
| "result_num ResultRing = 2"
| "result_num ResultNoCarrier = 3"
| "result_num ResultError = 4"
| "result_num ResultBusy = 7"
| "result_num ResultNoAnswer = 8"

fun result_string :: "result_code \<Rightarrow> string" where
  "result_string ResultOK = ''OK''"
| "result_string ResultConnect = ''CONNECT''"
| "result_string ResultRing = ''RING''"
| "result_string ResultNoCarrier = ''NO CARRIER''"
| "result_string ResultError = ''ERROR''"
| "result_string ResultBusy = ''BUSY''"
| "result_string ResultNoAnswer = ''NO ANSWER''"

end
