(* ===== verification/CommandFacts.thy ===== *)
theory CommandFacts
  imports Commands
begin

section \<open>What the parser promises\<close>

text \<open>
  Well-formedness of every parsed command, freedom from panics and the shape of a parsed line.
\<close>

subsection \<open>Well-formed commands\<close>

definition wf_command :: "command \<Rightarrow> bool" where
  "wf_command c \<longleftrightarrow>
     (cmd_type c \<in> {CmdSRegisterSet, CmdSRegisterQuery} \<longrightarrow>
        0 \<le> cmd_register c \<and> cmd_register c \<le> 255) \<and>
     (cmd_type c = CmdSRegisterSet \<longrightarrow> 0 \<le> cmd_value c \<and> cmd_value c \<le> max_int64) \<and>
     (cmd_type c = CmdSetX \<longrightarrow> 0 \<le> cmd_value c \<and> cmd_value c \<le> 4) \<and>
     (cmd_type c = CmdLockSpeed \<longrightarrow> cmd_value c \<in> dom SpeedCodeMap) \<and>
     (cmd_type c = CmdSetErrorCorrection \<longrightarrow> cmd_value c \<in> {0, 5}) \<and>
     (cmd_type c = CmdSetCompression \<longrightarrow> cmd_value c \<in> {0, 1}) \<and>
     (cmd_type c = CmdDial \<longrightarrow> cmd_number c \<noteq> [] \<and> list_all dial_char (cmd_number c)) \<and>
     (cmd_type c = CmdReset \<longrightarrow> to_upper (cmd_raw c) = ''ATZ'') \<and>
     (cmd_type c = CmdFactoryReset \<longrightarrow> to_upper (cmd_raw c) = ''AT&F'')"

lemma exact_command_resets:
  assumes "exact_command u = Some t"
  shows "t = CmdReset \<Longrightarrow> u = ''ATZ''" and "t = CmdFactoryReset \<Longrightarrow> u = ''AT&F''"
proof -
  have "(u, t) \<in> set exact_table" using assms unfolding exact_command_def by (rule map_of_SomeD)
  then show "t = CmdReset \<Longrightarrow> u = ''ATZ''" and "t = CmdFactoryReset \<Longrightarrow> u = ''AT&F''"
    by (auto simp: exact_table_def)
qed

lemma exact_command_SetX:
  "exact_command u = Some CmdSetX \<Longrightarrow> u \<in> {''ATX0'', ''ATX1'', ''ATX2'', ''ATX3'', ''ATX4''}"
  unfolding exact_command_def exact_table_def by (drule map_of_SomeD) auto

lemma exact_command_types:
  "exact_command u = Some t \<Longrightarrow>
     t \<notin> {CmdUnknown, CmdAT, CmdDial, CmdSRegisterSet, CmdSRegisterQuery, CmdLockSpeed,
           CmdSetErrorCorrection, CmdSetCompression}"
  unfolding exact_command_def exact_table_def by (drule map_of_SomeD) auto

lemma dialPattern_wf: "dialPattern s = Some n \<Longrightarrow> n \<noteq> [] \<and> list_all dial_char n"
  by (auto simp: dialPattern_def split: option.splits list.splits if_splits)

lemma atoi_bounds: "atoi s = Some v \<Longrightarrow> 0 \<le> v \<and> v \<le> max_int64"
  using atoi_nonneg [of s v] by (auto simp: atoi_def split: if_splits)

lemma digit_val_X [simp]:
  "digit_val (CHR ''0'') = 0" "digit_val (CHR ''1'') = 1" "digit_val (CHR ''2'') = 2"
  "digit_val (CHR ''3'') = 3" "digit_val (CHR ''4'') = 4"
  by (simp_all add: digit_val_def)

lemma wf_mk_command [wf_intros]: "t \<in> {CmdUnknown, CmdAT, CmdClear} \<Longrightarrow> wf_command (mk_command t r)"
  by (auto simp: wf_command_def mk_command_def)

lemma first_some_cases: "first_some xs d = d \<or> Some (first_some xs d) \<in> set xs"
proof (cases "filter (\<lambda>x. x \<noteq> None) xs")
  case (Cons y ys)
  then have "y \<in> set xs" and "y \<noteq> None" by (auto simp: filter_eq_Cons_iff)
  with Cons show ?thesis by (auto simp: first_some_def)
qed (simp add: first_some_def)

text \<open>Each check returns a well-formed command or an unknown one.\<close>

lemma wf_unknown: "cmd_type c = CmdUnknown \<Longrightarrow> wf_command c"
  by (simp add: wf_command_def)

lemma wf_check_dial [wf_intros]: "check_dial i cmd = Some c \<Longrightarrow> wf_command c"
  by (auto simp: check_dial_def wf_command_def dest: dialPattern_wf split: option.splits)

lemma wf_check_sreg_set [wf_intros]:
  "cmd_type cmd = CmdUnknown \<Longrightarrow> check_sreg_set i cmd = Some c \<Longrightarrow> wf_command c"
  by (auto simp: check_sreg_set_def wf_command_def dest: atoi_bounds
      split: option.splits if_splits)

lemma wf_check_sreg_query [wf_intros]:
  "cmd_type cmd = CmdUnknown \<Longrightarrow> check_sreg_query i cmd = Some c \<Longrightarrow> wf_command c"
  by (auto simp: check_sreg_query_def wf_command_def split: option.splits if_splits)

lemma wf_check_lock_speed [wf_intros]:
  "cmd_type cmd = CmdUnknown \<Longrightarrow> check_lock_speed i cmd = Some c \<Longrightarrow> wf_command c"
  by (auto simp: check_lock_speed_def wf_command_def split: option.splits if_splits)

lemma wf_check_error_corr [wf_intros]:
  "cmd_type cmd = CmdUnknown \<Longrightarrow> check_error_corr i cmd = Some c \<Longrightarrow> wf_command c"
  by (auto simp: check_error_corr_def wf_command_def split: option.splits if_splits)

lemma wf_check_compression [wf_intros]:
  "cmd_type cmd = CmdUnknown \<Longrightarrow> check_compression i cmd = Some c \<Longrightarrow> wf_command c"
  by (auto simp: check_compression_def wf_command_def split: option.splits if_splits)

lemma parse_command_cases:
  obtains
    (unknown) "cmd_type (parse_command line) = CmdUnknown"
  | (at) "to_upper (trim_space line) = ''AT''"
      "parse_command line = (mk_command CmdUnknown (trim_space line))\<lparr>cmd_type := CmdAT\<rparr>"
  | (exact) t where "exact_command (to_upper (trim_space line)) = Some t"
      "cmd_type (parse_command line) = t" "cmd_raw (parse_command line) = trim_space line"
      "t = CmdSetX \<Longrightarrow> cmd_value (parse_command line) = digit_val (to_upper (trim_space line) ! 3)"
  | (pattern) "Some (parse_command line) \<in>
      set (map (\<lambda>f. f (trim_space line) (mk_command CmdUnknown (trim_space line)))
        [check_dial, check_sreg_set, check_sreg_query, check_lock_speed, check_error_corr,
         check_compression])"
proof -
  define input where "input = trim_space line"
  define cmd where "cmd = mk_command CmdUnknown input"
  have c: "cmd_type cmd = CmdUnknown" by (simp add: cmd_def mk_command_def)
  note d = parse_command_def [of line, unfolded Let_def, folded input_def, folded cmd_def]
  show thesis
  proof (cases "has_prefix (to_upper input) ''AT''")
    case False
    then show thesis using unknown by (simp add: d c)
  next
    case pre: True
    show thesis
    proof (cases "to_upper input = ''AT''")
      case True
      with pre show thesis using at by (simp add: d input_def cmd_def)
    next
      case noAT: False
      show thesis
      proof (cases "exact_command (to_upper input)")
        case (Some t)
        with pre noAT show thesis using exact [of t] by (simp add: d input_def cmd_def mk_command_def)
      next
        case None
        let ?xs = "map (\<lambda>f. f input cmd) [check_dial, check_sreg_set, check_sreg_query,
          check_lock_speed, check_error_corr, check_compression]"
        have "parse_command line = first_some ?xs cmd" using pre noAT None by (simp add: d)
        with first_some_cases [of ?xs cmd] show thesis
          using unknown pattern c by (metis input_def cmd_def)
      qed
    qed
  qed
qed

lemma wf_parse_command [wf_intros]: "wf_command (parse_command line)"
proof (cases line rule: parse_command_cases)
  case unknown
  then show ?thesis by (rule wf_unknown)
next
  case at
  then show ?thesis by (simp add: wf_command_def mk_command_def)
next
  case (exact t)
  then show ?thesis
    using exact_command_SetX [of "to_upper (trim_space line)"] exact_command_types [OF exact(1)]
      exact_command_resets [OF exact(1)]
    by (auto simp: wf_command_def)
next
  case pattern
  have "cmd_type (mk_command CmdUnknown r) = CmdUnknown" for r by (simp add: mk_command_def)
  with pattern show ?thesis by (auto dest!: sym [where s = "Some _"] intro: wf_intros)
qed

subsection \<open>A known command is ASCII unless it uses a folded rune\<close>

text \<open>No two neighbouring bytes outside ASCII: then no rune outside ASCII is well encoded.\<close>

abbreviation high :: "char \<Rightarrow> bool" where
  "high c \<equiv> 128 \<le> (of_char c :: nat)"

definition no_pair :: "string \<Rightarrow> bool" where
  "no_pair s \<longleftrightarrow> successively (\<lambda>c d. \<not> (high c \<and> high d)) s"

lemma no_pair_tl: "no_pair (c # s) \<Longrightarrow> no_pair s"
  by (cases s) (auto simp: no_pair_def)

lemma no_pair_append: "no_pair (s @ t) \<Longrightarrow> no_pair s \<and> no_pair t"
  by (auto simp: no_pair_def successively_append_iff)

lemma no_pair_ascii: "is_ascii s \<Longrightarrow> no_pair s"
  by (induction s) (auto simp: no_pair_def successively_Cons)

lemma no_pair_Cons_ascii: "\<not> high c \<Longrightarrow> no_pair s \<Longrightarrow> no_pair (c # s)"
  by (auto simp: no_pair_def successively_Cons)

lemma no_pair_Cons_then_ascii: "is_ascii s \<Longrightarrow> no_pair (c # s)"
  using no_pair_ascii [of s] by (cases s) (auto simp: no_pair_def)

lemma no_pair_rev [simp]: "no_pair (rev s) = no_pair s"
  unfolding no_pair_def successively_rev
  by (rule arg_cong [where f = "\<lambda>P. successively P s"]) auto

lemma to_upper_no_pair: "no_pair s \<Longrightarrow> to_upper s = map upper_char s"
proof (induction s rule: to_upper.induct)
  case (3 c d s)
  then show ?case by (auto simp: no_pair_def)
qed auto

lemma is_ascii_map_upper: "is_ascii (map upper_char s) = is_ascii s"
proof (induction s)
  case (Cons c s)
  have "(of_char (upper_char c) :: nat) < 128 \<longleftrightarrow> (of_char c :: nat) < 128"
    by (auto simp: of_upper_char)
  with Cons show ?case by simp
qed simp

lemma ws_no_pair_ascii:
  "e \<in> set ws_encodings \<Longrightarrow> no_pair e \<Longrightarrow> is_ascii e"
  by (auto simp: ws_encodings_def no_pair_def)

lemma strip_front_ascii_part:
  assumes "\<And>e. e \<in> set encs \<Longrightarrow> no_pair e \<Longrightarrow> is_ascii e"
  shows "no_pair s \<Longrightarrow> \<exists>p. is_ascii p \<and> s = p @ strip_front encs s"
  using assms
proof (induction encs s rule: strip_front.induct)
  case (1 encs s)
  show ?case
  proof (cases "find (\<lambda>e. e \<noteq> [] \<and> has_prefix s e) encs")
    case None
    then have "strip_front encs s = s" by (subst strip_front.simps) simp
    then show ?thesis by (metis append_Nil is_ascii_simps(1))
  next
    case (Some e)
    then have e: "e \<in> set encs" "has_prefix s e" by (auto simp: find_Some_iff)
    then obtain t where s: "s = e @ t" by (auto simp: has_prefix_iff)
    with "1.prems" e(1) have "is_ascii e" and "no_pair t"
      using no_pair_append by blast+
    moreover have eq: "strip_front encs s = strip_front encs t"
      using Some s by (subst strip_front.simps) simp
    moreover obtain p where "is_ascii p" "t = p @ strip_front encs t"
      using "1.IH" [OF Some] \<open>no_pair t\<close> "1.prems"(2) s by auto
    ultimately show ?thesis
      by (intro exI [of _ "e @ p"]) (metis append.assoc is_ascii_simps(3) s)
  qed
qed

lemma trim_space_parts:
  assumes "no_pair s"
  shows "\<exists>p q. is_ascii p \<and> is_ascii q \<and> s = p @ trim_space s @ q"
proof -
  define t where "t = strip_front ws_encodings s"
  have "\<exists>p. is_ascii p \<and> s = p @ t"
    unfolding t_def by (rule strip_front_ascii_part [OF ws_no_pair_ascii assms])
  then obtain p where p: "is_ascii p" "s = p @ t" by blast
  then have "no_pair t" using assms no_pair_append [of p t] by metis
  then have "no_pair (rev t)" by simp
  moreover have "is_ascii e" if "e \<in> set (map rev ws_encodings)" "no_pair e" for e
    using that ws_no_pair_ascii by (auto simp: is_ascii_def)
  ultimately have "\<exists>q. is_ascii q \<and> rev t = q @ strip_front (map rev ws_encodings) (rev t)"
    by (intro strip_front_ascii_part)
  then obtain q where q: "is_ascii q" "rev t = q @ strip_front (map rev ws_encodings) (rev t)"
    by blast
  then have "t = trim_space s @ rev q"
    unfolding trim_space_def t_def by (metis rev_append rev_rev_ident)
  moreover have "is_ascii (rev q)" using q(1) by (simp add: is_ascii_def)
  ultimately show ?thesis using p by metis
qed

lemma list_all_dial_ascii: "list_all dial_char s \<Longrightarrow> is_ascii s"
  unfolding is_ascii_def
  by (induction s) (auto simp: dial_char_def is_digit_def)

lemma list_all_digit_ascii: "list_all is_digit s \<Longrightarrow> is_ascii s"
  unfolding is_ascii_def
  by (induction s) (auto simp: is_digit_def)

lemma char_ci_ascii: "char_ci c u \<Longrightarrow> (of_char u :: nat) < 128 \<Longrightarrow> (of_char c :: nat) < 128"
  by (auto simp: char_ci_def upper_char_keeps_high intro: ccontr leI)

lemma match_at_SomeD:
  "match_at s = Some r \<Longrightarrow> \<exists>a t. s = a # t # r \<and> char_ci a CHR ''A'' \<and> char_ci t CHR ''T''"
  by (cases s rule: match_at.cases) (auto split: if_splits)

lemma match_ats_SomeD:
  "match_ats s = Some r \<Longrightarrow>
     (\<exists>c. match_at s = Some (c # r) \<and> char_ci c CHR ''S'')
     \<or> match_at s = Some (CHR 0xC5 # CHR 0xBF # r)"
  by (auto split: option.splits list.splits if_splits)

declare match_ats.simps [simp del]

lemma match_at_ascii: "match_at s = Some r \<Longrightarrow> \<exists>p. is_ascii p \<and> s = p @ r"
proof -
  assume "match_at s = Some r"
  then obtain a t where s: "s = a # t # r" "char_ci a CHR ''A''" "char_ci t CHR ''T''"
    using match_at_SomeD by blast
  then have "is_ascii [a, t]" using char_ci_ascii by fastforce
  with s(1) show ?thesis by (intro exI [of _ "[a, t]"]) simp
qed

lemma match_ats_ascii:
  assumes np: "no_pair s" and m: "match_ats s = Some r"
  shows "\<exists>p. is_ascii p \<and> s = p @ r"
  using match_ats_SomeD [OF m]
proof (elim disjE exE conjE)
  fix c assume at: "match_at s = Some (c # r)" and c: "char_ci c CHR ''S''"
  then obtain p where p: "is_ascii p" "s = p @ c # r" using match_at_ascii by blast
  have "(of_char c :: nat) < 128" using char_ci_ascii [OF c] by simp
  with p show ?thesis by (intro exI [of _ "p @ [c]"]) simp
next
  assume "match_at s = Some (CHR 0xC5 # CHR 0xBF # r)"
  then obtain p where "s = p @ CHR 0xC5 # CHR 0xBF # r" using match_at_ascii by blast
  with np have False using no_pair_append by (auto simp: no_pair_def successively_append_iff)
  then show ?thesis ..
qed

lemma not_high_eq [simp]: "\<not> high (CHR ''='')" "\<not> high (CHR ''?'')" "\<not> high (CHR ''&'')" "\<not> high (CHR ''%'')"
  by simp_all

lemma digits_then_ascii:
  assumes "dropWhile is_digit r = t" and "is_ascii t"
  shows "is_ascii r"
  by (metis assms is_ascii_simps(3) list_all_digit_ascii list_all_takeWhile takeWhile_dropWhile_id)

lemma sRegSetPattern_ascii:
  assumes np: "no_pair s" and m: "sRegSetPattern s = Some dv"
  shows "is_ascii s"
proof -
  from m obtain r where r: "match_ats s = Some r"
    by (auto simp: sRegSetPattern_def split: option.splits)
  with np obtain p where p: "is_ascii p" "s = p @ r" using match_ats_ascii by blast
  from m r obtain d2 where d2: "dropWhile is_digit r = CHR ''='' # d2" "list_all is_digit d2"
    by (auto simp: sRegSetPattern_def Let_def
        split: list.splits if_splits)
  have "is_ascii (CHR ''='' # d2)" using d2(2) by (simp add: list_all_digit_ascii)
  with d2(1) p show ?thesis using digits_then_ascii by simp
qed

lemma sRegQueryPattern_ascii:
  assumes np: "no_pair s" and m: "sRegQueryPattern s = Some dv"
  shows "is_ascii s"
proof -
  from m obtain r where r: "match_ats s = Some r"
    by (auto simp: sRegQueryPattern_def split: option.splits)
  with np obtain p where p: "is_ascii p" "s = p @ r" using match_ats_ascii by blast
  from m r have "dropWhile is_digit r = ''?''"
    by (auto simp: sRegQueryPattern_def Let_def split: if_splits)
  with p show ?thesis using digits_then_ascii [of r "''?''"] by simp
qed


lemma dialPattern_ascii: "dialPattern s = Some n \<Longrightarrow> is_ascii s"
proof -
  assume "dialPattern s = Some n"
  then obtain d m where at: "match_at s = Some (d # m # n)"
    and d: "char_ci d CHR ''D''" and m: "char_ci m CHR ''T'' \<or> char_ci m CHR ''P''"
    and n: "list_all dial_char n"
    by (auto simp: dialPattern_def split: option.splits list.splits if_splits)
  from at obtain p where "is_ascii p" "s = p @ d # m # n" using match_at_ascii by blast
  moreover have "\<not> high d" using char_ci_ascii [OF d] by simp
  moreover have "\<not> high m" using m char_ci_ascii by fastforce
  ultimately show ?thesis using list_all_dial_ascii [OF n] by simp
qed

lemma ext_pattern_ascii:
  assumes "match_at s = Some (c # l # d)" and "\<not> high c" and "char_ci l u" and "\<not> high u"
    and "list_all is_digit d"
  shows "is_ascii s"
proof -
  obtain p where "is_ascii p" "s = p @ c # l # d" using match_at_ascii [OF assms(1)] by blast
  moreover have "\<not> high l" using assms(3,4) char_ci_ascii [of l u] by simp
  ultimately show ?thesis using assms(2) list_all_digit_ascii [OF assms(5)] by simp
qed

lemma lockSpeedPattern_ascii: "lockSpeedPattern s = Some n \<Longrightarrow> is_ascii s"
  by (auto simp: lockSpeedPattern_def intro: ext_pattern_ascii
      split: option.splits list.splits if_splits)

lemma errorCorrPattern_ascii: "errorCorrPattern s = Some n \<Longrightarrow> is_ascii s"
  by (auto simp: errorCorrPattern_def intro: ext_pattern_ascii
      split: option.splits list.splits if_splits)

lemma compressionPattern_ascii: "compressionPattern s = Some n \<Longrightarrow> is_ascii s"
  by (auto simp: compressionPattern_def intro: ext_pattern_ascii
      split: option.splits list.splits if_splits)

lemma exact_command_ascii: "exact_command u = Some t \<Longrightarrow> is_ascii u"
  unfolding exact_command_def exact_table_def by (drule map_of_SomeD) auto

lemma checks_ascii:
  assumes np: "no_pair i"
    and "Some c \<in> set (map (\<lambda>f. f i cmd) [check_dial, check_sreg_set, check_sreg_query,
      check_lock_speed, check_error_corr, check_compression])"
  shows "is_ascii i"
proof -
  have "check_dial i cmd \<noteq> None \<Longrightarrow> is_ascii i"
    by (auto simp: check_dial_def dest: dialPattern_ascii split: option.splits)
  moreover have "check_sreg_set i cmd \<noteq> None \<Longrightarrow> is_ascii i"
    by (auto simp: check_sreg_set_def dest: sRegSetPattern_ascii [OF np] split: option.splits)
  moreover have "check_sreg_query i cmd \<noteq> None \<Longrightarrow> is_ascii i"
    by (auto simp: check_sreg_query_def dest: sRegQueryPattern_ascii [OF np] split: option.splits)
  moreover have "check_lock_speed i cmd \<noteq> None \<Longrightarrow> is_ascii i"
    by (auto simp: check_lock_speed_def dest: lockSpeedPattern_ascii split: option.splits)
  moreover have "check_error_corr i cmd \<noteq> None \<Longrightarrow> is_ascii i"
    by (auto simp: check_error_corr_def dest: errorCorrPattern_ascii split: option.splits)
  moreover have "check_compression i cmd \<noteq> None \<Longrightarrow> is_ascii i"
    by (auto simp: check_compression_def dest: compressionPattern_ascii split: option.splits)
  ultimately show ?thesis using assms(2) by force
qed

lemma known_is_ascii:
  assumes np: "no_pair s" and known: "cmd_type (parse_command s) \<noteq> CmdUnknown"
  shows "is_ascii s"
proof -
  obtain p q where pq: "is_ascii p" "is_ascii q" "s = p @ trim_space s @ q"
    using trim_space_parts [OF np] by blast
  with np have npt: "no_pair (trim_space s)" using no_pair_append by metis
  have "is_ascii (trim_space s)"
  proof (cases s rule: parse_command_cases)
    case unknown
    with known show ?thesis by simp
  next
    case at
    then have "map upper_char (trim_space s) = ''AT''" by (simp add: to_upper_no_pair [OF npt])
    then have "is_ascii (map upper_char (trim_space s))" by simp
    then show ?thesis by (simp only: is_ascii_map_upper)
  next
    case (exact t)
    from exact_command_ascii [OF exact(1)] show ?thesis
      by (simp add: to_upper_no_pair [OF npt] is_ascii_map_upper)
  next
    case pattern
    then show ?thesis by (rule checks_ascii [OF npt])
  qed
  then show ?thesis by (subst pq(3)) (simp only: is_ascii_simps pq(1,2))
qed

subsection \<open>Tokens\<close>

lemma scan_digits_ge: "j \<le> scan_digits rest j"
  by (simp add: scan_digits_def)

lemma slice_scan_digits: "list_all is_digit (slice rest j (scan_digits rest j))"
proof -
  have "slice rest j (scan_digits rest j) = takeWhile is_digit (drop j rest)"
    by (simp add: slice_def scan_digits_def) (rule takeWhile_eq_take [symmetric])
  then show ?thesis by (simp add: list_all_takeWhile)
qed

lemma slice_split: "i \<le> j \<Longrightarrow> j \<le> k \<Longrightarrow> slice s i k = slice s i j @ slice s j k"
proof -
  assume "i \<le> j" "j \<le> k"
  then have "k - i = (j - i) + (k - j)" and "j = (j - i) + i" by simp_all
  then show ?thesis unfolding slice_def by (metis drop_drop take_add)
qed

lemma slice_one: "i < length s \<Longrightarrow> slice s i (Suc i) = [s ! i]"
  by (simp add: slice_def Cons_nth_drop_Suc [symmetric])

lemma slice_Cons: "i < length s \<Longrightarrow> Suc i \<le> j \<Longrightarrow> slice s i j = s ! i # slice s (Suc i) j"
  using slice_split [of i "Suc i" j s] slice_one [of i s] by simp

lemma slice_scan_ascii: "is_ascii (slice rest j (scan_digits rest j))"
  by (rule list_all_digit_ascii) (rule slice_scan_digits)

lemma slice_beyond [simp]: "slice s i i = []"
  by (simp add: slice_def)

lemma sreg_tail_ascii: "is_ascii (slice rest (Suc i) (sreg_end rest i))"
proof -
  define j where "j = scan_digits rest (Suc i)"
  have ij: "Suc i \<le> j" unfolding j_def by (rule scan_digits_ge)
  have dig: "is_ascii (slice rest (Suc i) j)" unfolding j_def by (rule slice_scan_ascii)
  consider (eq) "j < length rest" "rest ! j = CHR ''=''" | (q) "j < length rest" "rest ! j = CHR ''?''"
    | (other) "\<not> (j < length rest \<and> rest ! j \<in> {CHR ''='', CHR ''?''})" by blast
  then show ?thesis
  proof cases
    case eq
    then have e: "sreg_end rest i = scan_digits rest (Suc j)"
      by (simp add: sreg_end_def Let_def j_def [symmetric])
    have "slice rest (Suc i) (scan_digits rest (Suc j)) =
        slice rest (Suc i) j @ slice rest j (scan_digits rest (Suc j))"
      using ij scan_digits_ge [of "Suc j" rest] by (intro slice_split) simp_all
    moreover have "slice rest j (scan_digits rest (Suc j)) =
        CHR ''='' # slice rest (Suc j) (scan_digits rest (Suc j))"
      using eq scan_digits_ge [of "Suc j" rest] by (simp add: slice_Cons)
    ultimately show ?thesis using dig slice_scan_ascii [of rest "Suc j"] by (simp add: e)
  next
    case q
    then have e: "sreg_end rest i = Suc j"
      by (simp add: sreg_end_def Let_def j_def [symmetric])
    have "slice rest (Suc i) (Suc j) = slice rest (Suc i) j @ slice rest j (Suc j)"
      using ij by (intro slice_split) simp_all
    then show ?thesis using dig q by (simp add: e slice_one)
  next
    case other
    then have e: "sreg_end rest i = j"
      by (auto simp: sreg_end_def Let_def j_def [symmetric])
    then show ?thesis using dig by simp
  qed
qed

lemma ext_slice:
  assumes "i < length rest"
  shows "slice rest i (ext_end rest i) = [rest ! i] \<or>
    (\<exists>d ds. slice rest i (ext_end rest i) = rest ! i # d # ds \<and> list_all is_digit ds)"
proof (cases "Suc i < length rest")
  case True
  then have e: "ext_end rest i = scan_digits rest (Suc (Suc i))" by (simp add: ext_end_def)
  have "slice rest i (ext_end rest i) =
      rest ! i # rest ! Suc i # slice rest (Suc (Suc i)) (scan_digits rest (Suc (Suc i)))"
    using True scan_digits_ge [of "Suc (Suc i)" rest] by (simp add: e slice_Cons)
  then show ?thesis using slice_scan_digits by blast
next
  case False
  then have "ext_end rest i = Suc i" by (simp add: ext_end_def)
  then show ?thesis using assms by (simp add: slice_one)
qed

lemma letter_slice:
  assumes "i < length rest"
  shows "slice rest i (letter_end rest i) = [rest ! i] \<or>
    (\<exists>d. slice rest i (letter_end rest i) = [rest ! i, d] \<and> is_digit d)"
proof (cases "Suc i < length rest \<and> is_digit (rest ! Suc i)")
  case True
  then have "letter_end rest i = Suc (Suc i)" by (simp add: letter_end_def)
  then show ?thesis using True by (simp add: slice_Cons)
next
  case False
  then have "letter_end rest i = Suc i" by (auto simp: letter_end_def)
  then show ?thesis using assms by (simp add: slice_one)
qed

text \<open>The upper-cased character the loop switches on.\<close>

lemma upper_at:
  assumes "is_ascii (take i rest)" and "i < length rest"
  shows "to_upper rest = map upper_char (take i rest) @ to_upper (drop i rest)"
    and "2 + i < length (''AT'' @ to_upper rest)"
    and "(''AT'' @ to_upper rest) ! (2 + i) = hd (to_upper (drop i rest))"
proof -
  show eq: "to_upper rest = map upper_char (take i rest) @ to_upper (drop i rest)"
    using to_upper_append_ascii [OF assms(1), of "drop i rest"] by simp
  have ne: "to_upper (drop i rest) \<noteq> []" using assms(2) by simp
  have "length (to_upper rest) = i + length (to_upper (drop i rest))"
    using assms(2) by (subst eq) simp
  moreover have "0 < length (to_upper (drop i rest))" using ne by blast
  ultimately show "2 + i < length (''AT'' @ to_upper rest)" by simp
  have "(''AT'' @ to_upper rest) ! (2 + i) = to_upper rest ! i" by simp
  also have "\<dots> = to_upper (drop i rest) ! 0"
    using assms(2) by (subst eq) (simp add: nth_append)
  finally show "(''AT'' @ to_upper rest) ! (2 + i) = hd (to_upper (drop i rest))"
    using ne by (simp add: hd_conv_nth)
qed

lemma hd_to_upper:
  assumes "s \<noteq> []"
  shows "hd (to_upper s) = upper_char (hd s) \<or> high (hd s) \<and> hd (to_upper s) \<in> {CHR ''I'', CHR ''S''}"
  using assms by (cases s rule: to_upper.cases) auto

lemma hd_to_upper_ascii:
  assumes "hd (to_upper (c # s)) = u" and "u \<noteq> CHR ''I''" "u \<noteq> CHR ''S''" and "\<not> high u"
  shows "\<not> high c \<and> upper_char c = u"
proof -
  have "char_ci c u" using hd_to_upper [of "c # s"] assms(1-3) by (auto simp: char_ci_def)
  then show ?thesis using char_ci_ascii [of c u] assms(4) by (simp add: char_ci_def)
qed

lemma token_no_pair:
  assumes "i < length rest" and ch: "ch = hd (to_upper (drop i rest))"
  shows "no_pair (slice rest i (token_end ch rest i))"
proof -
  have hd: "hd (drop i rest) = rest ! i" using assms(1) by (simp add: hd_drop_conv_nth)
  consider (S) "ch = CHR ''S''" | (ext) "ch \<noteq> CHR ''S''" "ch = CHR ''&'' \<or> ch = CHR ''%''"
    | (letter) "ch \<noteq> CHR ''S''" "ch \<noteq> CHR ''&'' \<and> ch \<noteq> CHR ''%''" by blast
  then show ?thesis
  proof cases
    case S
    have "i < sreg_end rest i" using token_end_gt [of i "CHR ''S''" rest] by (simp add: token_end_def)
    then have "slice rest i (sreg_end rest i) = rest ! i # slice rest (Suc i) (sreg_end rest i)"
      using assms(1) by (simp add: slice_Cons)
    then show ?thesis using S sreg_tail_ascii by (simp add: token_end_def no_pair_Cons_then_ascii)
  next
    case ext
    then have "\<not> high (rest ! i)"
      using hd_to_upper [of "drop i rest"] assms hd by (auto simp: upper_char_keeps_high)
    moreover have "token_end ch rest i = ext_end rest i" using ext by (auto simp: token_end_def)
    ultimately show ?thesis
      using ext_slice [OF assms(1)] no_pair_Cons_then_ascii [OF list_all_digit_ascii]
      by (auto intro!: no_pair_Cons_ascii simp: no_pair_def)
  next
    case letter
    then have "token_end ch rest i = letter_end rest i" by (auto simp: token_end_def)
    then show ?thesis
      using letter_slice [OF assms(1)]
      by (auto intro!: no_pair_Cons_then_ascii list_all_digit_ascii)
  qed
qed

lemma no_pair_AT: "no_pair s \<Longrightarrow> no_pair (''AT'' @ s)"
  by (simp add: no_pair_Cons_ascii)

lemma take_slice: "i \<le> j \<Longrightarrow> take j s = take i s @ slice s i j"
  using slice_split [of 0 i j s] by (simp add: slice_def)

lemma CLS_ascii:
  assumes "to_upper s = ''CLS''" and "length s = 3"
  shows "is_ascii s"
proof -
  obtain a b c where s: "s = [a, b, c]" using assms(2)
    by (auto simp: numeral_3_eq_3 length_Suc_conv)
  with assms(1) have "char_ci a CHR ''C''" "char_ci b CHR ''L''" "char_ci c CHR ''S''"
    by (auto simp: char_ci_def split: if_splits)
  then have "\<not> high a" "\<not> high b" "\<not> high c"
    using char_ci_ascii [of a "CHR ''C''"] char_ci_ascii [of b "CHR ''L''"]
      char_ci_ascii [of c "CHR ''S''"] by simp_all
  then show ?thesis by (simp add: s)
qed

lemma trim_space_prefix: "plain_char c \<Longrightarrow> \<exists>q. c # s = trim_space (c # s) @ q"
proof -
  assume "plain_char c"
  then have "trim_space (c # s) = rev (strip_front (map rev ws_encodings) (rev (c # s)))"
    by (simp add: trim_space_def strip_front_plain_left)
  moreover obtain p where "rev (c # s) = p @ strip_front (map rev ws_encodings) (rev (c # s))"
    using strip_front_suffix by blast
  ultimately show ?thesis by (metis rev_append rev_rev_ident)
qed

lemma check_types:
  assumes "cmd_type cmd = CmdUnknown"
  shows "check_sreg_set i cmd = Some c \<Longrightarrow> cmd_type c \<in> {CmdUnknown, CmdSRegisterSet}"
    and "check_sreg_query i cmd = Some c \<Longrightarrow> cmd_type c \<in> {CmdUnknown, CmdSRegisterQuery}"
    and "check_lock_speed i cmd = Some c \<Longrightarrow> cmd_type c \<in> {CmdUnknown, CmdLockSpeed}"
    and "check_error_corr i cmd = Some c \<Longrightarrow> cmd_type c \<in> {CmdUnknown, CmdSetErrorCorrection}"
    and "check_compression i cmd = Some c \<Longrightarrow> cmd_type c \<in> {CmdUnknown, CmdSetCompression}"
  using assms
  by (auto simp: check_sreg_set_def check_sreg_query_def check_lock_speed_def
      check_error_corr_def check_compression_def split: option.splits if_splits)

lemma dial_first_char:
  assumes "cmd_type (parse_command (''AT'' @ s)) = CmdDial"
  shows "\<exists>d m n. s = d # m # n \<and> char_ci d CHR ''D''"
proof -
  have "check_dial (trim_space (''AT'' @ s)) (mk_command CmdUnknown (trim_space (''AT'' @ s))) \<noteq> None"
  proof (cases "''AT'' @ s" rule: parse_command_cases)
    case (exact t)
    with assms exact_command_types [OF exact(1)] show ?thesis by simp
  next
    case pattern
    let ?i = "trim_space (''AT'' @ s)" and ?c = "mk_command CmdUnknown (trim_space (''AT'' @ s))"
    have "cmd_type ?c = CmdUnknown" by (simp add: mk_command_def)
    note types = check_types [OF this, of ?i "parse_command (''AT'' @ s)"]
    from pattern assms types show ?thesis
      by (simp only: list.map list.set insert_iff empty_iff) (metis command_type.distinct
          insertE empty_iff option.distinct(1))
  qed (use assms in \<open>simp_all add: mk_command_def\<close>)
  then obtain d m n where at: "match_at (trim_space (''AT'' @ s)) = Some (d # m # n)"
    and d: "char_ci d CHR ''D''"
    by (auto simp: check_dial_def dialPattern_def split: option.splits list.splits if_splits)
  from at obtain a t where "trim_space (''AT'' @ s) = a # t # d # m # n"
    using match_at_SomeD by blast
  moreover obtain q where "''AT'' @ s = trim_space (''AT'' @ s) @ q"
    using trim_space_prefix [of "CHR ''A''" "CHR ''T'' # s"] by (auto simp: plain_char_def)
  ultimately show ?thesis using d by auto
qed

text \<open>A command that lets the loop go on: known, and not a dial.\<close>

definition continues :: "command \<Rightarrow> bool" where
  "continues c \<longleftrightarrow> cmd_type c \<noteq> CmdUnknown \<and> cmd_type c \<noteq> CmdDial"

definition good_commands :: "command list \<Rightarrow> bool" where
  "good_commands cs \<longleftrightarrow> list_all wf_command cs \<and> list_all continues (butlast cs)"

lemma good_Nil [simp]: "good_commands []"
  by (simp add: good_commands_def)

lemma good_single [simp]: "good_commands [c] \<longleftrightarrow> wf_command c"
  by (simp add: good_commands_def)

lemma good_Cons: "wf_command c \<Longrightarrow> continues c \<Longrightarrow> good_commands cs \<Longrightarrow> good_commands (c # cs)"
  by (simp add: good_commands_def)

lemma tokenize_total:
  "is_ascii (take i rest) \<Longrightarrow>
     \<exists>new. tokenize rest (''AT'' @ to_upper rest) i commands = Some (commands @ new)
       \<and> good_commands new"
proof (induction "length rest - i" arbitrary: i commands rule: less_induct)
  case less
  let ?u = "''AT'' @ to_upper rest"
  note simps = tokenize.simps [of rest ?u i commands]
  show ?case
  proof (cases "i < length rest")
    case False
    then show ?thesis by (subst simps) simp
  next
    case i: True
    note up = upper_at [OF less.prems i]
    define ch where "ch = ?u ! (2 + i)"
    have ch: "ch = hd (to_upper (drop i rest))" using up(3) by (simp add: ch_def)
    have ch_i: "upper_char (rest ! i) = ch \<or> ch \<in> {CHR ''I'', CHR ''S''}"
      using hd_to_upper [of "drop i rest"] i ch by (auto simp: hd_drop_conv_nth)
    have IH: "\<exists>new. tokenize rest ?u j cs = Some (cs @ new) \<and> good_commands new"
      if "i < j" "is_ascii (slice rest i j)" for j cs
      using that less.prems less.hyps [of j cs] take_slice [of i j rest] i by simp
    have step: "\<exists>new. tokenize rest ?u j (commands @ [c]) = Some (commands @ new) \<and> good_commands new"
      if j: "i < j" "is_ascii (slice rest i j)" and c: "wf_command c" "continues c" for j c
      using IH [OF j, of "commands @ [c]"] good_Cons [OF c] by auto
    show ?thesis
    proof (cases "rest ! i = CHR '' ''")
      case True
      then have "is_ascii (slice rest i (Suc i))" using i by (simp add: slice_one)
      then show ?thesis using IH [of "Suc i" commands] i True by (subst simps) simp
    next
      case nsp: False
      note simps' = simps [unfolded Let_def, folded ch_def]
      consider (D) "ch = CHR ''D''" | (C) "ch = CHR ''C''" | (other) "ch \<noteq> CHR ''D''" "ch \<noteq> CHR ''C''"
        by blast
      then show ?thesis
      proof cases
        case D
        then show ?thesis using i nsp up(2)
          by (subst simps') (simp add: wf_parse_command)
      next
        case C
        have wfc: "wf_command (mk_command CmdClear ''ATCLS'')" "continues (mk_command CmdClear ''ATCLS'')"
          "wf_command (mk_command CmdUnknown r)" for r
          by (simp_all add: wf_mk_command continues_def) (simp add: mk_command_def)
        show ?thesis
        proof (cases "i + 3 \<le> length rest \<and> to_upper (slice rest i (i + 3)) = ''CLS''")
          case True
          then have "is_ascii (slice rest i (i + 3))"
            by (intro CLS_ascii) (auto simp: slice_def)
          then show ?thesis using step [OF _ _ wfc(1,2), of "i + 3"] C i nsp up(2) True
            by (subst simps') simp
        next
          case False
          then show ?thesis using C i nsp up(2) wfc(3) by (subst simps') auto
        qed
      next
        case other
        define j where "j = token_end ch rest i"
        let ?cmd = "parse_command (''AT'' @ slice rest i j)"
        show ?thesis
        proof (cases "cmd_type ?cmd = CmdUnknown")
          case True
          then show ?thesis using other i nsp up(2) wf_parse_command
            by (subst simps') (simp add: j_def [symmetric])
        next
          case False
          have "no_pair (slice rest i j)" unfolding j_def by (rule token_no_pair [OF i ch])
          then have asc: "is_ascii (slice rest i j)"
            using known_is_ascii [OF no_pair_AT] False by simp
          have ij: "i < j" unfolding j_def by (rule token_end_gt)
          have "cmd_type ?cmd \<noteq> CmdDial"
          proof
            assume "cmd_type ?cmd = CmdDial"
            then obtain d m n where "slice rest i j = d # m # n" "char_ci d CHR ''D''"
              using dial_first_char by blast
            moreover have "slice rest i j = rest ! i # slice rest (Suc i) j"
              using i ij by (simp add: slice_Cons)
            ultimately have "upper_char (rest ! i) = CHR ''D''" by (simp add: char_ci_def)
            moreover have "\<not> high (rest ! i)" using asc i ij by (simp add: slice_Cons)
            ultimately show False
              using hd_to_upper [of "drop i rest"] i ch other by (auto simp: hd_drop_conv_nth)
          qed
          then have "continues ?cmd" using False by (simp add: continues_def)
          then show ?thesis
            using step [OF ij asc wf_parse_command] other i nsp up(2) False
            by (subst simps') (simp add: j_def [symmetric])
        qed
      qed
    qed
  qed
qed

subsection \<open>The parsed line\<close>

lemma has_prefix_AT:
  assumes "has_prefix (to_upper s) ''AT''"
  shows "\<exists>a t r. s = a # t # r \<and> to_upper s = ''AT'' @ to_upper r"
proof -
  from assms obtain u where u: "to_upper s = CHR ''A'' # CHR ''T'' # u"
    by (auto simp: has_prefix_iff)
  then obtain a s' where s: "s = a # s'" by (cases s) auto
  have na: "\<not> high a" using u s hd_to_upper_ascii [of a s' "CHR ''A''"] by simp
  with u s have s': "to_upper s' = CHR ''T'' # u" by (simp add: to_upper_Cons_ascii)
  then obtain t r where t: "s' = t # r" by (cases s') auto
  have "\<not> high t" using s' t hd_to_upper_ascii [of t r "CHR ''T''"] by simp
  with s' t have "to_upper r = u" by (simp add: to_upper_Cons_ascii)
  with s t u show ?thesis by auto
qed

lemma parse_command_line_shape:
  "\<exists>cs. parse_command_line line = Some cs \<and> cs \<noteq> [] \<and> good_commands cs"
proof -
  define input where "input = trim_space line"
  note d = parse_command_line_def [of line, unfolded Let_def, folded input_def]
  show ?thesis
  proof (cases "has_prefix (to_upper input) ''AT'' \<and> to_upper input \<noteq> ''AT''
      \<and> cmd_type (parse_command input) = CmdUnknown")
    case False
    then show ?thesis by (auto simp: d wf_mk_command wf_parse_command)
  next
    case True
    then obtain a t r where "input = a # t # r" and u: "to_upper input = ''AT'' @ to_upper r"
      using has_prefix_AT by blast
    then have r: "drop 2 input = r" by simp
    obtain new where "tokenize r (''AT'' @ to_upper r) 0 [] = Some new" "good_commands new"
      using tokenize_total [of 0 r "[]"] by auto
    then show ?thesis using True
      by (cases "new = []") (auto simp: d r u wf_mk_command)
  qed
qed

subsection \<open>Properties\<close>

text \<open>C24: Parsing a command line never indexes out of range and always yields a command: whatever was
  typed, multi-byte UTF-8 included, the result is a non-empty list of well-formed commands, in which
  only the last can be unknown or a dial.\<close>

theorem parse_line_total:
  "\<exists>cs. parse_command_line line = Some cs \<and> cs \<noteq> [] \<and> list_all wf_command cs
     \<and> list_all continues (butlast cs)"
  using parse_command_line_shape [of line] by (auto simp: good_commands_def)

end
