(* ===== verification/Modem.thy ===== *)
theory Modem
  imports SRegisters CommandFacts
begin

section \<open>The virtual modem (internal/modem/modem.go)\<close>

text \<open>
  The modem's state, \<open>Execute\<close> on every command type, and the formatting of results. The mutex is
  held for the whole of every method, so each method is one function from state to state.
\<close>

datatype modem_state = StateCommand | StateData

record modem =
  state :: modem_state
  echo :: bool
  verbose :: bool
  quiet :: bool
  xlevel :: int
  baud :: int
  errorCorrection :: int
  compression :: bool
  version :: string
  sregs :: sregisters
  initSent :: "string set"

definition new_modem :: "string \<Rightarrow> modem" where
  "new_modem ver =
     \<lparr>state = StateCommand, echo = True, verbose = True, quiet = False, xlevel = 4, baud = 0,
      errorCorrection = 5, compression = True, version = ver, sregs = new_sregisters,
      initSent = {}\<rparr>"

definition set_state :: "modem_state \<Rightarrow> modem \<Rightarrow> modem" where
  "set_state st m = m\<lparr>state := st\<rparr>"

definition has_sent_init :: "modem \<Rightarrow> string \<Rightarrow> bool" where
  "has_sent_init m cmd \<longleftrightarrow> to_upper cmd \<in> initSent m"

definition crlf :: "byte \<Rightarrow> byte \<Rightarrow> string" where
  "crlf cr lf = fmt_c cr @ fmt_c lf"

definition format_result :: "modem \<Rightarrow> result_code \<Rightarrow> byte \<Rightarrow> byte \<Rightarrow> string" where
  "format_result m code cr lf =
     (if quiet m then ''''
      else if verbose m then crlf cr lf @ result_string code @ crlf cr lf
      else fmt_d (result_num code) @ fmt_c cr)"

definition format_result_external :: "modem \<Rightarrow> result_code \<Rightarrow> string" where
  "format_result_external m code = format_result m code (get_cr (sregs m)) (get_lf (sregs m))"

definition format_connect_result :: "modem \<Rightarrow> int \<Rightarrow> string" where
  "format_connect_result m speed =
     (let cr = get_cr (sregs m); lf = get_lf (sregs m) in
      if quiet m then ''''
      else if verbose m then
        (if xlevel m \<ge> 1 then
           crlf cr lf @ ''CONNECT '' @ fmt_d speed
           @ (if speed \<ge> 2400 \<and> errorCorrection m = 5
              then ''/ARQ/V42/LAPM'' @ (if compression m then ''/V42BIS'' else '''') else '''')
           @ crlf cr lf
         else crlf cr lf @ ''CONNECT'' @ crlf cr lf)
      else fmt_d (result_num ResultConnect) @ fmt_c cr)"

definition bool_to_int :: "bool \<Rightarrow> int" where
  "bool_to_int b = (if b then 1 else 0)"

definition view_config :: "modem \<Rightarrow> byte \<Rightarrow> byte \<Rightarrow> string" where
  "view_config m cr lf =
     (let nl = crlf cr lf;
          baudStr = (if baud m > 0 then fmt_d (baud m) else ''auto'');
          regs = all_registers (sregs m);
          keys = sort (map fst regs)
      in nl @ ''ACTIVE PROFILE:'' @ nl
         @ ''E'' @ fmt_d (bool_to_int (echo m)) @ '' V'' @ fmt_d (bool_to_int (verbose m))
         @ '' Q'' @ fmt_d (bool_to_int (quiet m)) @ '' X'' @ fmt_d (xlevel m)
         @ '' &N='' @ baudStr @ '' &Q'' @ fmt_d (errorCorrection m)
         @ '' %C'' @ fmt_d (bool_to_int (compression m)) @ nl
         @ nl @ ''S-REGISTERS:'' @ nl
         @ concat (map (\<lambda>k. ''S'' @ fmt_0d 2 k @ ''='' @ fmt_0d 3 (the (map_of regs k)) @ '' '') keys)
         @ nl @ format_result m ResultOK cr lf)"

definition reset_defaults :: "modem \<Rightarrow> modem" where
  "reset_defaults m =
     m\<lparr>sregs := reset_registers (sregs m), echo := True, verbose := True, quiet := False,
       xlevel := 4, baud := 0, errorCorrection := 5, compression := True\<rparr>"

text \<open>\<open>m.baud = SpeedCodeMap[cmd.Value]\<close>: a missing key reads as 0.\<close>

definition speed_of_code :: "int \<Rightarrow> int" where
  "speed_of_code code = (case SpeedCodeMap code of Some b \<Rightarrow> b | None \<Rightarrow> 0)"

text \<open>
  \<open>Execute\<close> returns the response text, the result code and whether the caller should dial. The
  carriage return and line feed are read before the command takes effect.
\<close>

definition execute :: "modem \<Rightarrow> command \<Rightarrow> modem \<times> string \<times> result_code \<times> bool" where
  "execute m0 cmd =
     (let cr = get_cr (sregs m0);
          lf = get_lf (sregs m0);
          m = (if cmd_type cmd = CmdReset \<or> cmd_type cmd = CmdFactoryReset
               then m0\<lparr>initSent := insert (to_upper (cmd_raw cmd)) (initSent m0)\<rparr> else m0);
          ok = (\<lambda>m. (m, format_result m ResultOK cr lf, ResultOK, False))
      in case cmd_type cmd of
        CmdAT \<Rightarrow> ok m
      | CmdReset \<Rightarrow> ok (reset_defaults m)
      | CmdFactoryReset \<Rightarrow> ok ((reset_defaults m)\<lparr>initSent := {''AT&F''}\<rparr>)
      | CmdHangup \<Rightarrow> ok (m\<lparr>state := StateCommand\<rparr>)
      | CmdOffHook \<Rightarrow> ok m
      | CmdEchoOff \<Rightarrow> ok (m\<lparr>echo := False\<rparr>)
      | CmdEchoOn \<Rightarrow> ok (m\<lparr>echo := True\<rparr>)
      | CmdVerboseOff \<Rightarrow> ok (m\<lparr>verbose := False\<rparr>)
      | CmdVerboseOn \<Rightarrow> ok (m\<lparr>verbose := True\<rparr>)
      | CmdQuietOff \<Rightarrow> ok (m\<lparr>quiet := False\<rparr>)
      | CmdQuietOn \<Rightarrow> ok (m\<lparr>quiet := True\<rparr>)
      | CmdIdentify \<Rightarrow>
          (m, crlf cr lf @ ''Telix Modem Gateway v'' @ version m @ crlf cr lf
              @ ''Hayes Compatible 56K'' @ crlf cr lf @ format_result m ResultOK cr lf,
           ResultOK, False)
      | CmdViewConfig \<Rightarrow> (m, view_config m cr lf, ResultOK, False)
      | CmdSRegisterQuery \<Rightarrow>
          (m, crlf cr lf @ fmt_0d 3 (get_register (sregs m) (cmd_register cmd)) @ crlf cr lf
              @ format_result m ResultOK cr lf,
           ResultOK, False)
      | CmdSRegisterSet \<Rightarrow>
          ok (m\<lparr>sregs := set_register (sregs m) (cmd_register cmd) (cmd_value cmd)\<rparr>)
      | CmdSetX \<Rightarrow>
          ok (if 0 \<le> cmd_value cmd \<and> cmd_value cmd \<le> 4 then m\<lparr>xlevel := cmd_value cmd\<rparr> else m)
      | CmdLockSpeed \<Rightarrow> ok (m\<lparr>baud := speed_of_code (cmd_value cmd)\<rparr>)
      | CmdSetErrorCorrection \<Rightarrow> ok (m\<lparr>errorCorrection := cmd_value cmd\<rparr>)
      | CmdSetCompression \<Rightarrow> ok (m\<lparr>compression := (cmd_value cmd = 1)\<rparr>)
      | CmdDial \<Rightarrow> (m, '''', ResultOK, True)
      | _ \<Rightarrow> (m, format_result m ResultError cr lf, ResultError, False))"

text \<open>A sequence of commands, the final state only.\<close>

fun execute_all :: "modem \<Rightarrow> command list \<Rightarrow> modem" where
  "execute_all m [] = m"
| "execute_all m (c # cs) = execute_all (fst (execute m c)) cs"

subsection \<open>The modem invariant\<close>

definition modem_inv :: "modem \<Rightarrow> bool" where
  "modem_inv m \<longleftrightarrow> sregs_inv (sregs m)
     \<and> 0 \<le> xlevel m \<and> xlevel m \<le> 4
     \<and> errorCorrection m \<in> {0, 5}
     \<and> baud m \<in> ran SpeedCodeMap
     \<and> initSent m \<subseteq> {''ATZ'', ''AT&F''}"

lemma speed_of_code_ran: "speed_of_code code \<in> ran SpeedCodeMap"
proof (cases "SpeedCodeMap code")
  case None
  have "SpeedCodeMap 0 = Some 0" by (simp add: SpeedCodeMap_def)
  then show ?thesis using None by (auto simp: speed_of_code_def intro: ranI)
qed (auto simp: speed_of_code_def intro: ranI)

lemma zero_speed [simp]: "0 \<in> ran SpeedCodeMap"
  using ranI [of SpeedCodeMap 0 0] by (simp add: SpeedCodeMap_def)

lemma modem_inv_new [inv_intros]: "modem_inv (new_modem v)"
  by (simp add: modem_inv_def new_modem_def sregs_inv_new)

lemma modem_inv_reset [inv_intros]: "modem_inv m \<Longrightarrow> modem_inv (reset_defaults m)"
  by (simp add: modem_inv_def reset_defaults_def sregs_inv_reset)

lemma modem_inv_set_state [inv_intros, simp]: "modem_inv (set_state st m) \<longleftrightarrow> modem_inv m"
  by (simp add: modem_inv_def set_state_def)

text \<open>
  The raw text of a parsed reset is \<open>ATZ\<close> or \<open>AT&F\<close> up to case (part of \<open>wf_command\<close>), which is why
  \<open>initSent\<close> only ever holds those two words.
\<close>

lemma modem_inv_execute [inv_intros]:
  assumes "modem_inv m" and "wf_command c"
  shows "modem_inv (fst (execute m c))"
proof (cases "cmd_type c")
  case CmdReset
  have "modem_inv (reset_defaults (m\<lparr>initSent := insert ''ATZ'' (initSent m)\<rparr>))"
    using assms(1) by (intro modem_inv_reset) (auto simp: modem_inv_def)
  with assms(2) CmdReset show ?thesis by (simp add: execute_def wf_command_def Let_def)
next
  case CmdFactoryReset
  have "modem_inv (reset_defaults m)" using assms(1) by (rule modem_inv_reset)
  with CmdFactoryReset show ?thesis
    by (auto simp: execute_def Let_def modem_inv_def reset_defaults_def)
qed (use assms in \<open>auto simp: execute_def Let_def modem_inv_def wf_command_def speed_of_code_ran
      sregs_inv_set\<close>)

lemma execute_frame [frame_simps]:
  "version (fst (execute m c)) = version m"
  "cmd_type c \<noteq> CmdHangup \<Longrightarrow> state (fst (execute m c)) = state m"
  by (cases "cmd_type c"; simp add: execute_def Let_def reset_defaults_def)+

lemma execute_never_data: "state m = StateCommand \<Longrightarrow> state (fst (execute m c)) = StateCommand"
  by (cases "cmd_type c") (simp_all add: execute_def Let_def reset_defaults_def)

text \<open>A reset forgets every earlier setting.\<close>

lemma execute_reset_settings:
  assumes "cmd_type c \<in> {CmdReset, CmdFactoryReset}"
  shows "let m' = fst (execute m c) in
    echo m' \<and> verbose m' \<and> \<not> quiet m' \<and> xlevel m' = 4 \<and> baud m' = 0 \<and> errorCorrection m' = 5
    \<and> compression m' \<and> (\<forall>r \<in> fst ` set defaultSRegisters.
         get_register (sregs m') r = the (map_of defaultSRegisters r))"
  using assms
  by (auto simp: execute_def Let_def reset_defaults_def get_register_reset defaultSRegisters_def)

text \<open>A whole line of parsed commands keeps the invariant.\<close>

lemma modem_inv_execute_all [inv_intros]:
  "modem_inv m \<Longrightarrow> list_all wf_command cs \<Longrightarrow> modem_inv (execute_all m cs)"
  by (induction cs arbitrary: m) (auto intro: modem_inv_execute)

lemma has_sent_init_iff:
  assumes "modem_inv m"
  shows "has_sent_init m i \<longleftrightarrow>
    (to_upper i = ''ATZ'' \<and> ''ATZ'' \<in> initSent m) \<or> (to_upper i = ''AT&F'' \<and> ''AT&F'' \<in> initSent m)"
  using assms by (auto simp: modem_inv_def has_sent_init_def)

subsection \<open>Properties\<close>

text \<open>A typed line, whatever it says, leaves the modem with every setting in its range: registers
  inside their limits, result level 0 to 4, error correction 0 or 5, a speed of the table, and no
  initialisation string remembered but ATZ and AT\&F.\<close>

theorem typed_line_keeps_modem:
  assumes "modem_inv m"
  shows "case parse_command_line line of None \<Rightarrow> False | Some cs \<Rightarrow> modem_inv (execute_all m cs)"
  using parse_command_line_shape [of line] assms
  by (auto simp: good_commands_def intro: modem_inv_execute_all)

theorem typed_line_keeps_modem_witness:
  "case parse_command_line ''AT S12=255 X4 &N14 Z'' of
     None \<Rightarrow> False | Some cs \<Rightarrow> modem_inv (execute_all (new_modem ''1.0.0'') cs)"
  by (rule typed_line_keeps_modem) (rule modem_inv_new)

text \<open>ATZ and AT\&F forget every setting made before them: the flags, the result level, the speed,
  error correction and compression are the defaults again, and so is every register that has one.\<close>

theorem reset_restores_defaults:
  assumes "cmd_type c = CmdReset \<or> cmd_type c = CmdFactoryReset"
  shows "let m' = fst (execute m c) in
    echo m' \<and> verbose m' \<and> \<not> quiet m' \<and> xlevel m' = 4 \<and> baud m' = 0 \<and> errorCorrection m' = 5
    \<and> compression m' \<and> (\<forall>(r, v) \<in> set defaultSRegisters. get_register (sregs m') r = v)"
  using execute_reset_settings [of c m] assms
  by (auto simp: Let_def defaultSRegisters_def)

theorem reset_restores_defaults_witness:
  "let m' = fst (execute (execute_all (new_modem ''1'') (the (parse_command_line ''ATE0S2=7'')))
              (mk_command CmdReset ''ATZ'')) in
    echo m' \<and> verbose m' \<and> \<not> quiet m' \<and> xlevel m' = 4 \<and> baud m' = 0 \<and> errorCorrection m' = 5
    \<and> compression m' \<and> (\<forall>(r, v) \<in> set defaultSRegisters. get_register (sregs m') r = v)"
  by (rule reset_restores_defaults) (simp add: mk_command_def)

end
