(* ===== verification/CommandRoundtrip.thy ===== *)
theory CommandRoundtrip
  imports CommandFacts
begin

section \<open>Typing commands and parsing them back\<close>

text \<open>
  A canonical text for every command of the repertoire and for a line of them, and the theorem that
  \<open>ParseCommandLine\<close> reads such a line back as exactly those commands, in their order. The commands
  without a free number are a finite list, whose facts are evaluated; the S registers and the dial are
  treated by their shape.
\<close>

definition render :: "command \<Rightarrow> string" where
  "render c =
     (case cmd_type c of
        CmdUnknown \<Rightarrow> ''''
      | CmdAT \<Rightarrow> ''''
      | CmdReset \<Rightarrow> ''Z''
      | CmdFactoryReset \<Rightarrow> ''&F''
      | CmdDial \<Rightarrow> ''DT'' @ cmd_number c
      | CmdHangup \<Rightarrow> ''H0''
      | CmdOffHook \<Rightarrow> ''H1''
      | CmdEchoOff \<Rightarrow> ''E0''
      | CmdEchoOn \<Rightarrow> ''E1''
      | CmdVerboseOff \<Rightarrow> ''V0''
      | CmdVerboseOn \<Rightarrow> ''V1''
      | CmdQuietOff \<Rightarrow> ''Q0''
      | CmdQuietOn \<Rightarrow> ''Q1''
      | CmdIdentify \<Rightarrow> ''I''
      | CmdViewConfig \<Rightarrow> ''&V''
      | CmdSRegisterSet \<Rightarrow> ''S'' @ fmt_d (cmd_register c) @ ''='' @ fmt_d (cmd_value c)
      | CmdSRegisterQuery \<Rightarrow> ''S'' @ fmt_d (cmd_register c) @ ''?''
      | CmdSetX \<Rightarrow> ''X'' @ fmt_d (cmd_value c)
      | CmdLockSpeed \<Rightarrow> ''&N'' @ fmt_d (cmd_value c)
      | CmdSetErrorCorrection \<Rightarrow> ''&Q'' @ fmt_d (cmd_value c)
      | CmdSetCompression \<Rightarrow> ''%C'' @ fmt_d (cmd_value c)
      | CmdOnline \<Rightarrow> ''O0''
      | CmdClear \<Rightarrow> ''CLS'')"

text \<open>A canonical command is well formed, carries its own text as raw text and has no field set that
  its type does not use; the number of a dial does not end in a space.\<close>

definition canonical :: "command \<Rightarrow> bool" where
  "canonical c \<longleftrightarrow> wf_command c \<and> cmd_type c \<noteq> CmdUnknown \<and> cmd_type c \<noteq> CmdAT
     \<and> cmd_raw c = ''AT'' @ render c
     \<and> (if cmd_type c = CmdDial then last (cmd_number c) \<noteq> CHR '' '' else cmd_number c = '''')
     \<and> (cmd_type c \<notin> {CmdSRegisterSet, CmdSRegisterQuery} \<longrightarrow> cmd_register c = 0)
     \<and> (cmd_type c \<notin> {CmdSRegisterSet, CmdSetX, CmdLockSpeed, CmdSetErrorCorrection,
          CmdSetCompression} \<longrightarrow> cmd_value c = 0)"

text \<open>The body of a line: every command after any number of spaces.\<close>

fun typed_body :: "(nat \<times> command) list \<Rightarrow> string" where
  "typed_body [] = ''''"
| "typed_body ((n, c) # ps) = replicate n (CHR '' '') @ render c @ typed_body ps"

definition typed_line :: "(nat \<times> command) list \<Rightarrow> string" where
  "typed_line ps = ''AT'' @ typed_body ps"

subsection \<open>The commands without a free number\<close>

definition setting :: "command_type \<Rightarrow> int \<Rightarrow> string \<Rightarrow> command" where
  "setting t v w = (mk_command t (''AT'' @ w))\<lparr>cmd_value := v\<rparr>"

definition fixed_commands :: "command list" where
  "fixed_commands =
     map (\<lambda>(t, w). setting t 0 w)
       [(CmdReset, ''Z''), (CmdFactoryReset, ''&F''), (CmdHangup, ''H0''), (CmdOffHook, ''H1''),
        (CmdEchoOff, ''E0''), (CmdEchoOn, ''E1''), (CmdVerboseOff, ''V0''), (CmdVerboseOn, ''V1''),
        (CmdQuietOff, ''Q0''), (CmdQuietOn, ''Q1''), (CmdIdentify, ''I''), (CmdViewConfig, ''&V''),
        (CmdOnline, ''O0''), (CmdClear, ''CLS'')]
     @ map (\<lambda>v. setting CmdSetX v (''X'' @ fmt_d v)) [0, 1, 2, 3, 4]
     @ map (\<lambda>v. setting CmdLockSpeed v (''&N'' @ fmt_d v)) [0, 1, 2, 3, 6, 7, 8, 10, 11, 12, 14]
     @ map (\<lambda>v. setting CmdSetErrorCorrection v (''&Q'' @ fmt_d v)) [0, 5]
     @ map (\<lambda>v. setting CmdSetCompression v (''%C'' @ fmt_d v)) [0, 1]"

definition register_set :: "int \<Rightarrow> int \<Rightarrow> command" where
  "register_set r v =
     (mk_command CmdSRegisterSet (''ATS'' @ fmt_d r @ ''='' @ fmt_d v))\<lparr>cmd_register := r, cmd_value := v\<rparr>"

definition register_query :: "int \<Rightarrow> command" where
  "register_query r = (mk_command CmdSRegisterQuery (''ATS'' @ fmt_d r @ ''?''))\<lparr>cmd_register := r\<rparr>"

definition dial_of :: "string \<Rightarrow> command" where
  "dial_of n = (mk_command CmdDial (''ATDT'' @ n))\<lparr>cmd_number := n\<rparr>"

lemma render_shapes:
  "render (register_set r v) = ''S'' @ fmt_d r @ ''='' @ fmt_d v"
  "render (register_query r) = ''S'' @ fmt_d r @ ''?''"
  "render (dial_of n) = ''DT'' @ n"
  by (simp_all add: render_def register_set_def register_query_def dial_of_def mk_command_def)

lemma type_shapes:
  "cmd_type (register_set r v) = CmdSRegisterSet"
  "cmd_type (register_query r) = CmdSRegisterQuery"
  "cmd_type (dial_of n) = CmdDial"
  by (simp_all add: register_set_def register_query_def dial_of_def mk_command_def)

lemma dom_SpeedCodeMap: "dom SpeedCodeMap = {0, 1, 2, 3, 6, 7, 8, 10, 11, 12, 14}"
  by (auto simp: SpeedCodeMap_def split: if_splits)

lemma command_eqI:
  "cmd_type c = cmd_type d \<Longrightarrow> cmd_raw c = cmd_raw d \<Longrightarrow> cmd_number c = cmd_number d \<Longrightarrow>
   cmd_register c = cmd_register d \<Longrightarrow> cmd_value c = cmd_value d \<Longrightarrow> c = (d :: command)"
  by simp

lemma in_fixed:
  assumes "canonical c" and "setting (cmd_type c) (cmd_value c) (render c) \<in> set fixed_commands"
    and "cmd_type c \<notin> {CmdSRegisterSet, CmdSRegisterQuery, CmdDial}"
  shows "c \<in> set fixed_commands"
proof -
  have "c = setting (cmd_type c) (cmd_value c) (render c)"
    using assms(1,3) by (intro command_eqI) (auto simp: canonical_def setting_def mk_command_def)
  then show ?thesis using assms(2) by metis
qed

lemma canonical_cases:
  assumes "canonical c"
  obtains (fixed) "c \<in> set fixed_commands"
  | (rset) r v where "c = register_set r v" "0 \<le> r" "r \<le> 255" "0 \<le> v" "v \<le> max_int64"
  | (query) r where "c = register_query r" "0 \<le> r" "r \<le> 255"
  | (dial) n where "c = dial_of n" "n \<noteq> []" "list_all dial_char n" "last n \<noteq> CHR '' ''"
proof -
  have parts: "wf_command c" "cmd_raw c = ''AT'' @ render c" "cmd_type c \<noteq> CmdUnknown" "cmd_type c \<noteq> CmdAT"
    using assms by (simp_all add: canonical_def)
  consider (S) "cmd_type c = CmdSRegisterSet" | (Q) "cmd_type c = CmdSRegisterQuery"
    | (D) "cmd_type c = CmdDial" | (F) "cmd_type c \<notin> {CmdSRegisterSet, CmdSRegisterQuery, CmdDial}" by blast
  then show thesis
  proof cases
    case S
    have "c = register_set (cmd_register c) (cmd_value c)"
      by (rule command_eqI) (use assms S in \<open>simp_all add: canonical_def register_set_def mk_command_def render_def\<close>)
    then show ?thesis using parts(1) S by (intro rset) (auto simp: wf_command_def)
  next
    case Q
    have "c = register_query (cmd_register c)"
      by (rule command_eqI) (use assms Q in \<open>simp_all add: canonical_def register_query_def mk_command_def render_def\<close>)
    then show ?thesis using parts(1) Q by (intro query) (auto simp: wf_command_def)
  next
    case D
    have "c = dial_of (cmd_number c)"
      by (rule command_eqI) (use assms D in \<open>simp_all add: canonical_def dial_of_def mk_command_def render_def\<close>)
    then show ?thesis using assms D by (intro dial) (auto simp: wf_command_def canonical_def)
  next
    case F
    have v: "cmd_type c = CmdSetX \<Longrightarrow> cmd_value c \<in> {0, 1, 2, 3, 4}"
      "cmd_type c = CmdLockSpeed \<Longrightarrow> cmd_value c \<in> {0, 1, 2, 3, 6, 7, 8, 10, 11, 12, 14}"
      "cmd_type c = CmdSetErrorCorrection \<Longrightarrow> cmd_value c \<in> {0, 5}"
      "cmd_type c = CmdSetCompression \<Longrightarrow> cmd_value c \<in> {0, 1}"
      using parts(1) by (auto simp: wf_command_def dom_SpeedCodeMap)
    have z: "cmd_type c \<notin> {CmdSRegisterSet, CmdSetX, CmdLockSpeed, CmdSetErrorCorrection,
          CmdSetCompression} \<Longrightarrow> cmd_value c = 0" using assms by (simp add: canonical_def)
    have "setting (cmd_type c) (cmd_value c) (render c) \<in> set fixed_commands"
      using parts(3,4) F v z by (cases "cmd_type c") (force simp: fixed_commands_def render_def)+
    then show ?thesis using in_fixed [OF assms] F fixed by blast
  qed
qed

subsection \<open>One command parses back\<close>

lemma trim_space_line:
  assumes "s \<noteq> []" and "plain_char (last s)"
  shows "trim_space (''AT'' @ s) = ''AT'' @ s"
  using assms by (intro trim_space_plain) (auto simp: plain_char_def)

lemma to_upper_fixpoint:
  assumes "is_ascii s" and "map upper_char s = s"
  shows "to_upper (''AT'' @ s) = ''AT'' @ s"
  using assms by (simp add: to_upper_Cons_ascii to_upper_ascii upper_char_def)

text \<open>\<open>ParseCommand\<close> on a text that is trimmed and upper case already.\<close>

lemma parse_plain:
  fixes w
  defines "cmd \<equiv> mk_command CmdUnknown (''AT'' @ w)"
  assumes "w \<noteq> []" and "plain_char (last w)" and "is_ascii w" and "map upper_char w = w"
  shows "parse_command (''AT'' @ w) =
    (case exact_command (''AT'' @ w) of
       Some t \<Rightarrow> if t = CmdSetX then cmd\<lparr>cmd_type := t, cmd_value := digit_val (w ! 1)\<rparr> else cmd\<lparr>cmd_type := t\<rparr>
     | None \<Rightarrow> first_some (map (\<lambda>f. f (''AT'' @ w) cmd) [check_dial, check_sreg_set, check_sreg_query,
         check_lock_speed, check_error_corr, check_compression]) cmd)"
  unfolding parse_command_def cmd_def Let_def trim_space_line [OF assms(2,3)] to_upper_fixpoint [OF assms(4,5)]
  using assms(2) by (simp add: has_prefix_def numeral_3_eq_3 split: option.split)

lemma fmt_d_small:
  "fmt_d 0 = ''0''" "fmt_d 1 = ''1''" "fmt_d 2 = ''2''" "fmt_d 3 = ''3''" "fmt_d 4 = ''4''" "fmt_d 5 = ''5''"
  "fmt_d 6 = ''6''" "fmt_d 7 = ''7''" "fmt_d 8 = ''8''" "fmt_d 10 = ''10''" "fmt_d 11 = ''11''"
  "fmt_d 12 = ''12''" "fmt_d 14 = ''14''"
  by code_simp+

lemma fixed_parse: "list_all (\<lambda>c. parse_command (''AT'' @ render c) = c) fixed_commands"
  using parse_plain
  by (simp add: fixed_commands_def setting_def mk_command_def render_def fmt_d_small plain_char_def upper_char_def
      exact_command_def exact_table_def first_some_def check_dial_def dialPattern_def check_sreg_set_def
      sRegSetPattern_def check_sreg_query_def sRegQueryPattern_def match_ats.simps check_lock_speed_def
      lockSpeedPattern_def check_error_corr_def errorCorrPattern_def check_compression_def
      compressionPattern_def char_ci_def is_digit_def atoi_def dec_val_def digit_val_def max_int64_def SpeedCodeMap_def)

lemma fixed_texts:
  "list_all (\<lambda>c. let w = render c in w \<noteq> [] \<and> list_all plain_char w \<and> map upper_char w = w
     \<and> hd w \<noteq> CHR ''D'' \<and> \<not> is_digit (hd w) \<and> hd w \<noteq> CHR ''='' \<and> hd w \<noteq> CHR ''?''
     \<and> (hd w = CHR ''C'' \<longrightarrow> c = setting CmdClear 0 ''CLS'')) fixed_commands"
  by code_simp

lemma exact_command_not:
  "exact_command (CHR ''A'' # CHR ''T'' # CHR ''S'' # s) = None"
  "exact_command (CHR ''A'' # CHR ''T'' # CHR ''D'' # s) = None"
  "exact_command (CHR ''A'' # CHR ''T'' # CHR '' '' # s) = None"
  by (simp_all add: exact_command_def exact_table_def)

lemma fmt_d_nonempty [simp]: "fmt_d n \<noteq> []"
  by (simp add: fmt_d_def)

lemma fmt_d_ascii [simp]: "0 \<le> n \<Longrightarrow> is_ascii (fmt_d n)"
  by (simp add: fmt_d_digits list_all_digit_ascii)

lemma fmt_d_upper [simp]: "0 \<le> n \<Longrightarrow> map upper_char (fmt_d n) = fmt_d n"
  using fmt_d_digits [of n] by (auto simp: list_all_iff is_digit_upper intro: map_idI)

lemma fmt_d_last [simp]: "0 \<le> n \<Longrightarrow> plain_char (last (fmt_d n))"
  using fmt_d_digits [of n] by (auto simp: list_all_iff is_digit_plain)

lemma not_digit_signs [simp]:
  "\<not> is_digit (CHR ''='')" "\<not> is_digit (CHR ''?'')" "\<not> is_digit (CHR ''S'')" "\<not> is_digit (CHR ''D'')"
  "\<not> is_digit (CHR '' '')"
  by (simp_all add: is_digit_def)

lemma takeWhile_fmt_d [simp]:
  "0 \<le> n \<Longrightarrow> \<not> is_digit c \<Longrightarrow> takeWhile is_digit (fmt_d n @ c # s) = fmt_d n"
  "0 \<le> n \<Longrightarrow> \<not> is_digit c \<Longrightarrow> dropWhile is_digit (fmt_d n @ c # s) = c # s"
  using fmt_d_digits [of n] by (simp_all add: list_all_iff takeWhile_append2 dropWhile_append2)

lemma char_ci_same [simp]:
  "char_ci (CHR ''A'') (CHR ''A'')" "char_ci (CHR ''T'') (CHR ''T'')" "char_ci (CHR ''S'') (CHR ''S'')"
  "char_ci (CHR ''D'') (CHR ''D'')" "\<not> char_ci (CHR ''S'') (CHR ''D'')"
  by (simp_all add: char_ci_def upper_char_def)

lemma match_ats_S [simp]: "match_ats (CHR ''A'' # CHR ''T'' # CHR ''S'' # r) = Some r"
  by (simp add: match_ats.simps)

lemma dialPattern_S: "dialPattern (CHR ''A'' # CHR ''T'' # CHR ''S'' # r) = None"
  by (simp add: dialPattern_def split: list.split)

lemma register_set_parse:
  assumes "0 \<le> r" "r \<le> 255" "0 \<le> v" "v \<le> max_int64"
  shows "parse_command (''AT'' @ render (register_set r v)) = register_set r v"
proof -
  let ?s = "''S'' @ fmt_d r @ ''='' @ fmt_d v"
  have u: "map upper_char ?s = ?s" using assms by (simp add: upper_char_def)
  have x: "exact_command (''AT'' @ ?s) = None" by (simp add: exact_command_not)
  have "r \<le> max_int64" using assms by (simp add: max_int64_def)
  then have p: "sRegSetPattern (''AT'' @ ?s) = Some (fmt_d r, fmt_d v)" "atoi (fmt_d r) = Some r" "atoi (fmt_d v) = Some v"
    using assms fmt_d_digits [of v] by (simp_all add: sRegSetPattern_def atoi_fmt_d)
  show ?thesis
    using parse_plain [OF _ _ _ u] p x assms dialPattern_S [of "fmt_d r @ ''='' @ fmt_d v"]
    unfolding render_shapes
    by (simp add: check_dial_def check_sreg_set_def first_some_def register_set_def mk_command_def)
qed

lemma register_query_parse:
  assumes "0 \<le> r" "r \<le> 255"
  shows "parse_command (''AT'' @ render (register_query r)) = register_query r"
proof -
  let ?s = "''S'' @ fmt_d r @ ''?''"
  have u: "map upper_char ?s = ?s" using assms by (simp add: upper_char_def)
  have x: "exact_command (''AT'' @ ?s) = None" by (simp add: exact_command_not)
  have "r \<le> max_int64" using assms by (simp add: max_int64_def)
  then have p: "sRegSetPattern (''AT'' @ ?s) = None" "sRegQueryPattern (''AT'' @ ?s) = Some (fmt_d r)" "atoi (fmt_d r) = Some r"
    using assms by (simp_all add: sRegSetPattern_def sRegQueryPattern_def atoi_fmt_d)
  show ?thesis
    using parse_plain [OF _ _ _ u] p x assms dialPattern_S [of "fmt_d r @ ''?''"]
    unfolding render_shapes
    by (simp add: check_dial_def check_sreg_set_def check_sreg_query_def first_some_def plain_char_def
        register_query_def mk_command_def)
qed

lemma dial_char_text:
  assumes "list_all dial_char n"
  shows "is_ascii n" and "map upper_char n = n"
proof -
  show "is_ascii n" using assms by (rule list_all_dial_ascii)
  have "upper_char c = c" if "dial_char c" for c
    using that is_digit_upper [of c] by (auto simp: dial_char_def) (auto simp: upper_char_def)
  then show "map upper_char n = n" using assms by (auto simp: list_all_iff intro: map_idI)
qed

lemma dial_char_plain: "dial_char c \<Longrightarrow> c \<noteq> CHR '' '' \<Longrightarrow> plain_char c"
  by (auto simp: dial_char_def is_digit_plain) (auto simp: plain_char_def)

lemma dial_parse:
  assumes "n \<noteq> []" "list_all dial_char n" "last n \<noteq> CHR '' ''"
  shows "parse_command (''AT'' @ render (dial_of n)) = dial_of n"
proof -
  let ?s = "''DT'' @ n"
  have "dial_char (last n)" using assms by (simp add: list_all_iff)
  then have last: "plain_char (last n)" using assms(3) by (rule dial_char_plain)
  have u: "map upper_char ?s = ?s" using dial_char_text [OF assms(2)] by (simp add: upper_char_def)
  have x: "exact_command (''AT'' @ ?s) = None" by (simp add: exact_command_not)
  have p: "dialPattern (''AT'' @ ?s) = Some n" using assms by (simp add: dialPattern_def)
  show ?thesis
    using parse_plain [OF _ _ _ u] p x last assms(1) dial_char_text(1) [OF assms(2)]
    unfolding render_shapes by (simp add: check_dial_def first_some_def dial_of_def mk_command_def)
qed

lemma parse_canonical:
  assumes "canonical c"
  shows "parse_command (''AT'' @ render c) = c"
  using assms
proof (cases rule: canonical_cases)
  case fixed
  then show ?thesis using fixed_parse by (simp only: list_all_iff)
qed (simp_all add: register_set_parse register_query_parse dial_parse del: append_Cons)

subsection \<open>Where a token ends\<close>

text \<open>What may follow a token: nothing, or anything but a digit.\<close>

definition delimited :: "string \<Rightarrow> bool" where
  "delimited t \<longleftrightarrow> t = [] \<or> \<not> is_digit (hd t)"

lemma delimited_simps [simp]: "delimited []" "delimited (c # t) \<longleftrightarrow> \<not> is_digit c"
  by (simp_all add: delimited_def)

lemma takeWhile_delimited [simp]: "delimited t \<Longrightarrow> takeWhile is_digit t = []"
  by (cases t) simp_all

lemma takeWhile_digits [simp]: "list_all is_digit d \<Longrightarrow> takeWhile is_digit d = d"
  by (simp add: list_all_iff takeWhile_eq_all_conv)

lemma scan_digits_shift: "scan_digits rest (i + k) = i + scan_digits (drop i rest) k"
  by (simp add: scan_digits_def add.commute)

lemma token_end_shift:
  assumes "i \<le> length rest"
  shows "token_end ch rest i = i + token_end ch (drop i rest) 0"
proof -
  have shift: "scan_digits rest (Suc (i + j)) = i + scan_digits (drop i rest) (Suc j)" for j
    using scan_digits_shift [of rest i "Suc j"] by simp
  have "sreg_end rest i = i + sreg_end (drop i rest) 0"
    using shift [of 0] assms by (auto simp: sreg_end_def Let_def shift)
  moreover have "ext_end rest i = i + ext_end (drop i rest) 0"
    using shift [of 1] assms by (auto simp: ext_end_def Let_def)
  moreover have "letter_end rest i = i + letter_end (drop i rest) 0"
    using assms by (auto simp: letter_end_def Let_def)
  ultimately show ?thesis by (simp add: token_end_def)
qed

lemma sreg_end_Cons:
  "sreg_end (c # r) 0 = Suc (length (takeWhile is_digit r) +
     (case dropWhile is_digit r of
        [] \<Rightarrow> 0
      | d # r' \<Rightarrow> if d = CHR ''='' then Suc (length (takeWhile is_digit r')) else if d = CHR ''?'' then 1 else 0))"
proof -
  define xs ys where "xs = takeWhile is_digit r" and "ys = dropWhile is_digit r"
  have r: "r = xs @ ys" by (simp add: xs_def ys_def)
  have "scan_digits (c # r) 1 = Suc (length xs)" by (simp add: scan_digits_def xs_def)
  moreover have "length (c # r) = Suc (length xs + length ys)" by (simp add: r)
  moreover have "(c # r) ! Suc (length xs) = ys ! 0" by (simp add: r nth_append)
  moreover have "scan_digits (c # r) (Suc (Suc (length xs))) = Suc (Suc (length xs)) + length (takeWhile is_digit (tl ys))"
    by (simp add: scan_digits_def r drop_Suc tl_drop)
  ultimately show ?thesis
    unfolding xs_def [symmetric] ys_def [symmetric]
    by (cases ys) (simp_all add: sreg_end_def Let_def)
qed

lemma ext_end_Cons:
  "ext_end (c # r) 0 = (case r of [] \<Rightarrow> 1 | l # r' \<Rightarrow> 2 + length (takeWhile is_digit r'))"
  by (cases r) (simp_all add: ext_end_def scan_digits_def)

lemma letter_end_Cons:
  "letter_end (c # r) 0 = (case r of [] \<Rightarrow> 1 | d # r' \<Rightarrow> if is_digit d then 2 else 1)"
  by (cases r) (simp_all add: letter_end_def)

lemmas token_end_Cons = token_end_def sreg_end_Cons ext_end_Cons letter_end_Cons

lemma fixed_token:
  assumes "delimited t"
  shows "list_all (\<lambda>c. cmd_type c = CmdClear \<or>
    token_end (hd (render c)) (render c @ t) 0 = length (render c)) fixed_commands"
  using assms
  by (cases t) (simp_all add: fixed_commands_def setting_def mk_command_def render_def fmt_d_small
      token_end_Cons is_digit_def)

text \<open>A dial and a clear apart, a known command is one token of its text: the text goes on nowhere.\<close>

lemma exact_tokens:
  "list_all (\<lambda>(u, t). hd (drop 2 u) = CHR ''C'' \<or> token_end (hd (drop 2 u)) (drop 2 u) 0 = length (drop 2 u)) exact_table"
  by code_simp

lemma match_at_AT [simp]: "match_at (CHR ''A'' # CHR ''T'' # s) = Some s"
  by simp

lemma char_ci_fixed: "upper_char c = c \<Longrightarrow> char_ci c u \<longleftrightarrow> c = u"
  by (simp add: char_ci_def)

lemma check_tokens:
  assumes "is_ascii s" and "map upper_char s = s" and "hd s \<noteq> CHR ''D''"
    and "f (''AT'' @ s) cmd \<noteq> None"
    and "f \<in> {check_dial, check_sreg_set, check_sreg_query, check_lock_speed, check_error_corr, check_compression}"
  shows "token_end (hd s) s 0 = length s"
proof (cases s)
  case Nil
  then show ?thesis using assms(4,5)
    by (auto simp: check_dial_def dialPattern_def check_sreg_set_def sRegSetPattern_def check_sreg_query_def
        sRegQueryPattern_def match_ats.simps check_lock_speed_def lockSpeedPattern_def check_error_corr_def
        errorCorrPattern_def check_compression_def compressionPattern_def)
next
  case (Cons c r)
  have ats: "c = CHR ''S'' \<and> r' = r" if "match_ats (''AT'' @ s) = Some r'" for r'
    using that assms(1,2) by (auto simp: Cons match_ats.simps char_ci_fixed split: if_splits list.splits)
  consider "check_sreg_set (''AT'' @ s) cmd \<noteq> None" | "check_sreg_query (''AT'' @ s) cmd \<noteq> None"
    | "check_lock_speed (''AT'' @ s) cmd \<noteq> None" | "check_error_corr (''AT'' @ s) cmd \<noteq> None"
    | "check_compression (''AT'' @ s) cmd \<noteq> None"
    using assms by (auto simp: Cons check_dial_def dialPattern_def char_ci_fixed split: list.splits if_splits)
  then show ?thesis
  proof cases
    case 1
    then obtain d2 where "c = CHR ''S''" "dropWhile is_digit r = CHR ''='' # d2" "list_all is_digit d2"
      using ats by (auto simp: check_sreg_set_def sRegSetPattern_def Let_def split: option.splits list.splits if_splits)
    moreover have "length r = length (takeWhile is_digit r) + length (dropWhile is_digit r)"
      by (metis length_append takeWhile_dropWhile_id)
    ultimately show ?thesis by (simp add: Cons token_end_Cons)
  next
    case 2
    then have "c = CHR ''S''" "dropWhile is_digit r = ''?''"
      using ats by (auto simp: check_sreg_query_def sRegQueryPattern_def Let_def split: option.splits if_splits)
    moreover have "length r = length (takeWhile is_digit r) + length (dropWhile is_digit r)"
      by (metis length_append takeWhile_dropWhile_id)
    ultimately show ?thesis by (simp add: Cons token_end_Cons)
  next
    case 3
    then show ?thesis
      by (auto simp: Cons check_lock_speed_def lockSpeedPattern_def token_end_Cons
          split: option.splits list.splits if_splits)
  next
    case 4
    then show ?thesis
      by (auto simp: Cons check_error_corr_def errorCorrPattern_def token_end_Cons
          split: option.splits list.splits if_splits)
  next
    case 5
    then show ?thesis
      by (auto simp: Cons check_compression_def compressionPattern_def token_end_Cons
          split: option.splits list.splits if_splits)
  qed
qed

lemma first_some_hit: "P (first_some xs d) \<Longrightarrow> \<not> P d \<Longrightarrow> Some (first_some xs d) \<in> set xs"
  using first_some_cases [of xs d] by (elim disjE) simp_all

lemma pattern_single_token:
  assumes "s \<noteq> []" "plain_char (last s)" "is_ascii s" "map upper_char s = s"
    and "cmd_type (parse_command (''AT'' @ s)) \<noteq> CmdUnknown" and "exact_command (''AT'' @ s) = None"
    and "hd s \<noteq> CHR ''D''"
  shows "token_end (hd s) s 0 = length s"
proof -
  let ?cmd = "mk_command CmdUnknown (''AT'' @ s)"
  let ?fs = "[check_dial, check_sreg_set, check_sreg_query, check_lock_speed, check_error_corr, check_compression]"
  let ?checks = "map (\<lambda>f. f (''AT'' @ s) ?cmd) ?fs"
  have p: "parse_command (''AT'' @ s) = first_some ?checks ?cmd"
    using parse_plain [OF assms(1-4)] assms(6) by (simp only: option.case)
  have "\<not> cmd_type ?cmd \<noteq> CmdUnknown" by (simp add: mk_command_def)
  with assms(5) have "Some (parse_command (''AT'' @ s)) \<in> set ?checks"
    unfolding p by (rule first_some_hit [where P = "\<lambda>c. cmd_type c \<noteq> CmdUnknown"])
  then have "\<exists>f \<in> set ?fs. Some (parse_command (''AT'' @ s)) = f (''AT'' @ s) ?cmd" by (simp only: set_map image_iff)
  then obtain f where f: "f \<in> set ?fs" "f (''AT'' @ s) ?cmd = Some (parse_command (''AT'' @ s))" by metis
  have "f (''AT'' @ s) ?cmd \<noteq> None" using f(2) by (simp only: option.distinct not_False_eq_True)
  then show ?thesis using check_tokens [OF assms(3,4,7), of f ?cmd] f(1) by simp
qed

lemma known_single_token:
  assumes "s \<noteq> []" "plain_char (last s)" "is_ascii s" "map upper_char s = s"
    and known: "cmd_type (parse_command (''AT'' @ s)) \<noteq> CmdUnknown"
    and first: "hd s \<noteq> CHR ''D''" "hd s \<noteq> CHR ''C''"
  shows "token_end (hd s) s 0 = length s"
proof (cases "exact_command (''AT'' @ s)")
  case (Some t)
  then have "(''AT'' @ s, t) \<in> set exact_table" unfolding exact_command_def by (rule map_of_SomeD)
  then show ?thesis using exact_tokens first by (auto simp: list_all_iff)
next
  case None
  with assms show ?thesis by (intro pattern_single_token)
qed

lemma exact_command_clear: "exact_command (''ATCLS'' @ x # t) = None"
  by (simp add: exact_command_def exact_table_def)

lemma clear_not_single:
  assumes "t \<noteq> []" "plain_char (last t)" "is_ascii t" "map upper_char t = t"
  shows "cmd_type (parse_command (''AT'' @ ''CLS'' @ t)) = CmdUnknown"
proof (rule ccontr)
  assume known: "cmd_type (parse_command (''AT'' @ ''CLS'' @ t)) \<noteq> CmdUnknown"
  have "exact_command (''AT'' @ ''CLS'' @ t) = None"
    using assms(1) exact_command_clear by (cases t) simp_all
  moreover have "map upper_char (''CLS'' @ t) = ''CLS'' @ t" using assms(4) by (simp add: upper_char_def)
  ultimately have "token_end (CHR ''C'') (''CLS'' @ t) 0 = length (''CLS'' @ t)"
    using pattern_single_token [of "''CLS'' @ t"] assms known by (simp only: append_is_Nil_conv last_appendR
        is_ascii_simps) simp
  then show False by (simp add: token_end_Cons is_digit_def)
qed

subsection \<open>The text of a canonical command\<close>

lemma plain_literals: "plain_char (CHR ''S'')" "plain_char (CHR ''?'')"
  by (simp_all add: plain_char_def)

lemma plain_ascii: "list_all plain_char w \<Longrightarrow> is_ascii w"
  by (simp add: is_ascii_def list_all_iff plain_char_def)

lemma fixed_type: "c \<in> set fixed_commands \<Longrightarrow> cmd_type c \<noteq> CmdDial"
  by (auto simp: fixed_commands_def setting_def mk_command_def)

lemma fixed_text:
  assumes "c \<in> set fixed_commands"
  shows "render c \<noteq> []" "list_all plain_char (render c)" "map upper_char (render c) = render c"
    "hd (render c) \<noteq> CHR ''D''" "\<not> is_digit (hd (render c))"
    "hd (render c) = CHR ''C'' \<Longrightarrow> c = setting CmdClear 0 ''CLS''"
  using fixed_texts assms by (auto simp: list_all_iff Let_def simp del: map_eq_conv)

lemma render_text:
  assumes "canonical c"
  shows "render c \<noteq> []" "is_ascii (render c)" "map upper_char (render c) = render c"
    "plain_char (hd (render c))" "plain_char (last (render c))" "\<not> is_digit (hd (render c))"
    "hd (render c) = CHR ''D'' \<longleftrightarrow> cmd_type c = CmdDial"
    "hd (render c) = CHR ''C'' \<longleftrightarrow> cmd_type c = CmdClear"
    "cmd_type c = CmdClear \<Longrightarrow> c = mk_command CmdClear ''ATCLS''"
proof -
  have all: "render c \<noteq> [] \<and> is_ascii (render c) \<and> map upper_char (render c) = render c
    \<and> plain_char (hd (render c)) \<and> plain_char (last (render c)) \<and> \<not> is_digit (hd (render c))
    \<and> (hd (render c) = CHR ''D'' \<longleftrightarrow> cmd_type c = CmdDial)"
    using assms
  proof (cases rule: canonical_cases)
    case fixed
    note f = fixed_text [OF fixed]
    have "hd (render c) \<in> set (render c)" "last (render c) \<in> set (render c)" using f(1) by simp_all
    then show ?thesis using f(2) by (auto simp: f fixed_type [OF fixed] plain_ascii list_all_iff)
  next
    case (dial n)
    have "dial_char (last n)" using dial by (simp add: list_all_iff)
    then show ?thesis
      using dial dial_char_text [OF dial(3)]
      by (simp add: render_shapes type_shapes dial_char_plain) (simp add: plain_char_def upper_char_def)
  qed (auto simp: render_shapes type_shapes upper_char_def plain_literals)
  then show "render c \<noteq> []" "is_ascii (render c)" "map upper_char (render c) = render c"
    "plain_char (hd (render c))" "plain_char (last (render c))" "\<not> is_digit (hd (render c))"
    "hd (render c) = CHR ''D'' \<longleftrightarrow> cmd_type c = CmdDial" by blast+
  have clear: "hd (render c) = CHR ''C'' \<Longrightarrow> c = mk_command CmdClear ''ATCLS''"
    using assms
    by (cases rule: canonical_cases)
      (auto dest: fixed_text(6) simp: setting_def mk_command_def render_shapes)
  then show "hd (render c) = CHR ''C'' \<longleftrightarrow> cmd_type c = CmdClear"
    by (auto simp: render_def mk_command_def)
  then show "cmd_type c = CmdClear \<Longrightarrow> c = mk_command CmdClear ''ATCLS''" using clear by blast
qed

lemma render_token:
  assumes "canonical c" and "cmd_type c \<noteq> CmdDial" "cmd_type c \<noteq> CmdClear" and "delimited t"
  shows "token_end (hd (render c)) (render c @ t) 0 = length (render c)"
  using assms(1)
proof (cases rule: canonical_cases)
  case fixed
  then show ?thesis using fixed_token [OF assms(4)] assms(3) by (auto simp: list_all_iff)
next
  case (rset r v)
  have "takeWhile is_digit (fmt_d v @ t) = fmt_d v"
    using fmt_d_digits [OF rset(4)] assms(4) by (simp add: list_all_iff takeWhile_append2)
  then show ?thesis using rset by (simp add: render_shapes token_end_Cons)
next
  case (query r)
  then show ?thesis by (simp add: render_shapes token_end_Cons)
next
  case (dial n)
  then show ?thesis using assms(2) by (simp add: type_shapes)
qed

subsection \<open>The line\<close>

lemma typed_body_text:
  assumes "list_all canonical (map snd ps)"
  shows "is_ascii (typed_body ps)" "map upper_char (typed_body ps) = typed_body ps" "delimited (typed_body ps)"
    "ps \<noteq> [] \<Longrightarrow> typed_body ps \<noteq> [] \<and> plain_char (last (typed_body ps))"
proof -
  have "is_ascii (typed_body ps) \<and> map upper_char (typed_body ps) = typed_body ps \<and> delimited (typed_body ps)
    \<and> (ps \<noteq> [] \<longrightarrow> typed_body ps \<noteq> [] \<and> plain_char (last (typed_body ps)))"
    using assms
  proof (induction ps rule: typed_body.induct)
    case (2 n c ps)
    then have c: "canonical c" by simp
    note r = render_text [OF c]
    have sp: "is_ascii (replicate n (CHR '' ''))" "map upper_char (replicate n (CHR '' '')) = replicate n (CHR '' '')"
      by (simp_all add: is_ascii_def list_all_length upper_char_def)
    have "delimited (replicate n (CHR '' '') @ render c @ typed_body ps)"
      using r(1,6) by (cases n) (simp_all add: delimited_def)
    moreover have "plain_char (last (render c @ typed_body ps))"
      using 2 r(5) by (cases ps) auto
    ultimately show ?case using 2 r(1-3) sp by simp
  qed simp
  then show "is_ascii (typed_body ps)" "map upper_char (typed_body ps) = typed_body ps" "delimited (typed_body ps)"
    "ps \<noteq> [] \<Longrightarrow> typed_body ps \<noteq> [] \<and> plain_char (last (typed_body ps))" by blast+
qed

lemma tokenize_spaces:
  "tokenize (pre @ replicate n (CHR '' '') @ s) u (length pre) cs =
     tokenize (pre @ replicate n (CHR '' '') @ s) u (length pre + n) cs"
proof (induction n arbitrary: pre)
  case (Suc n)
  have "tokenize (pre @ replicate (Suc n) (CHR '' '') @ s) u (length pre) cs
      = tokenize (pre @ replicate (Suc n) (CHR '' '') @ s) u (length pre + 1) cs"
    by (subst tokenize.simps) (simp add: nth_append)
  then show ?case using Suc [of "pre @ '' ''"] by simp
qed simp

lemma at_token:
  assumes "canonical c" and "rest = pre @ render c @ t"
  shows "length pre < length rest" "rest ! length pre = hd (render c)" "rest ! length pre \<noteq> CHR '' ''"
    "drop (length pre) rest = render c @ t"
    "slice rest (length pre) (length pre + length (render c)) = render c"
  using render_text(1,4) [OF assms(1)]
  by (auto simp: assms(2) nth_append hd_conv_nth slice_def plain_char_def)

text \<open>The loop reads the token at its position, and goes on behind it.\<close>

lemma tokenize_token:
  assumes "canonical c" and "continues c" and "delimited t" and rest: "rest = pre @ render c @ t"
  shows "tokenize rest (''AT'' @ rest) (length pre) cs
     = tokenize rest (''AT'' @ rest) (length pre + length (render c)) (cs @ [c])"
proof -
  note r = render_text [OF assms(1)] and i = at_token [OF assms(1) rest]
  have pc: "parse_command (CHR ''A'' # CHR ''T'' # render c) = c" using parse_canonical [OF assms(1)] by simp
  have known: "cmd_type c \<noteq> CmdUnknown" "cmd_type c \<noteq> CmdDial" using assms(2) by (simp_all add: continues_def)
  note step = tokenize.simps [of rest "''AT'' @ rest" "length pre" cs, unfolded Let_def]
  show ?thesis
  proof (cases "cmd_type c = CmdClear")
    case False
    have "token_end (hd (render c)) rest (length pre) = length pre + length (render c)"
      using token_end_shift [of "length pre" rest] i render_token [OF assms(1) known(2) False assms(3)] by simp
    then show ?thesis using False known i r(7,8) by (subst step) (simp add: pc)
  next
    case True
    have w: "render c = ''CLS''" using True by (simp add: render_def)
    have n: "length pre + 3 = length pre + length (render c)" by (simp add: w)
    have "length pre + 3 \<le> length rest" "slice rest (length pre) (length pre + 3) = ''CLS''"
      using i(5) w by (simp_all add: rest slice_def)
    moreover have "to_upper (''CLS'') = ''CLS''" by code_simp
    moreover have "hd (render c) = CHR ''C''" "c = mk_command CmdClear ''ATCLS''" using True r(8,9) by simp_all
    ultimately show ?thesis using i(1-3) unfolding n [symmetric] by (subst step) (simp del: to_upper.simps)
  qed
qed

lemma tokenize_dial:
  assumes "canonical c" and "cmd_type c = CmdDial" and rest: "rest = pre @ render c"
  shows "tokenize rest (''AT'' @ rest) (length pre) cs = Some (cs @ [c])"
proof -
  note r = render_text [OF assms(1)] and i = at_token [OF assms(1), of rest pre "[]"]
  have pc: "parse_command (CHR ''A'' # CHR ''T'' # render c) = c" using parse_canonical [OF assms(1)] by simp
  have "trim_space (render c) = render c" using r(1,4,5) by (intro trim_space_plain)
  then show ?thesis using i rest r(7) assms(2) by (subst tokenize.simps) (simp add: pc)
qed

lemma tokenize_body:
  assumes "list_all canonical (map snd ps)" and "list_all continues (butlast (map snd ps))"
  shows "tokenize (pre @ typed_body ps) (''AT'' @ pre @ typed_body ps) (length pre) cs = Some (cs @ map snd ps)"
  using assms
proof (induction ps arbitrary: pre cs rule: typed_body.induct)
  case 1
  then show ?case by (subst tokenize.simps) simp
next
  case (2 n c ps)
  define pre' where "pre' = pre @ replicate n (CHR '' '')"
  define rest where "rest = pre' @ render c @ typed_body ps"
  have c: "canonical c" and cs: "list_all canonical (map snd ps)" using "2.prems"(1) by simp_all
  have skip: "tokenize rest (''AT'' @ rest) (length pre) cs = tokenize rest (''AT'' @ rest) (length pre') cs"
    using tokenize_spaces [of pre n "render c @ typed_body ps"] by (simp add: rest_def pre'_def)
  have "tokenize rest (''AT'' @ rest) (length pre') cs = Some (cs @ c # map snd ps)"
  proof (cases "cmd_type c = CmdDial")
    case True
    then have "ps = []" using "2.prems"(2) by (auto simp: continues_def split: if_splits)
    then show ?thesis using tokenize_dial [OF c True, of rest pre' cs] by (simp add: rest_def)
  next
    case False
    then have "continues c" using c by (simp add: canonical_def continues_def)
    from tokenize_token [OF c this typed_body_text(3) [OF cs] rest_def, of cs]
    show ?thesis using "2.IH" [of "pre' @ render c" "cs @ [c]"] cs "2.prems"(2)
      by (cases "ps = []") (simp_all add: rest_def)
  qed
  then show ?case using skip by (simp add: rest_def pre'_def)
qed

text \<open>The whole line is one command only when it holds one, right after the \<open>AT\<close>.\<close>

lemma line_not_single:
  assumes "list_all canonical (c # map snd ps)" and "list_all continues (butlast (c # map snd ps))"
    and "n \<noteq> 0 \<or> ps \<noteq> []"
  shows "cmd_type (parse_command (''AT'' @ typed_body ((n, c) # ps))) = CmdUnknown"
proof (rule ccontr)
  let ?s = "typed_body ((n, c) # ps)"
  assume known: "cmd_type (parse_command (''AT'' @ ?s)) \<noteq> CmdUnknown"
  have can: "canonical c" "list_all canonical (map snd ((n, c) # ps))" "list_all canonical (map snd ps)"
    using assms(1) by simp_all
  note r = render_text [OF can(1)] and s = typed_body_text [OF can(2)] and t = typed_body_text [OF can(3)]
  have s4: "?s \<noteq> []" "plain_char (last ?s)" using s(4) by simp_all
  show False
  proof (cases "n = 0")
    case True
    then have ps: "ps \<noteq> []" using assms(3) by simp
    then have "continues c" using assms(2) by simp
    show False
    proof (cases "cmd_type c = CmdClear")
      case clear: True
      then have "render c = ''CLS''" by (simp add: render_def)
      then show False using clear_not_single [OF _ _ t(1,2)] t(4) ps known True by simp
    next
      case False
      have "token_end (hd ?s) ?s 0 = length ?s"
        using True r False \<open>continues c\<close>
        by (intro known_single_token s4 s(1,2) known) (simp_all add: continues_def)
      moreover have "token_end (hd (render c)) (render c @ typed_body ps) 0 = length (render c)"
        using False \<open>continues c\<close> t(3) by (intro render_token can) (simp_all add: continues_def)
      ultimately show False using True r(1) t(4) ps by simp
    qed
  next
    case False
    then obtain m where m: "n = Suc m" by (cases n) auto
    have "token_end (hd ?s) ?s 0 = length ?s"
      using m by (intro known_single_token s4 s(1,2) known) simp_all
    moreover have "delimited (replicate m (CHR '' '') @ render c @ typed_body ps)"
      using r(1,6) by (cases m) (simp_all add: delimited_def)
    ultimately show False using m r(1)
      by (cases "replicate m (CHR '' '') @ render c @ typed_body ps") (simp_all add: token_end_Cons)
  qed
qed

subsection \<open>Properties\<close>

text \<open>C25: A line of commands, however many, in whatever order and with whatever spaces between them, parses
  back to exactly those commands. Only a dial ends a line, since it takes the rest of it as its number.\<close>

theorem typed_line_roundtrip:
  assumes "ps \<noteq> []" and "list_all canonical (map snd ps)" and "list_all continues (butlast (map snd ps))"
  shows "parse_command_line (typed_line ps) = Some (map snd ps)"
proof -
  obtain n c qs where ps: "ps = (n, c) # qs" using assms(1) by (cases ps) auto
  note body = typed_body_text [OF assms(2)]
  have b: "typed_body ps \<noteq> []" "plain_char (last (typed_body ps))" using body(4) [OF assms(1)] by simp_all
  note trim = trim_space_line [OF b] and upper = to_upper_fixpoint [OF body(1,2)]
  have drop: "drop 2 (''AT'' @ typed_body ps) = typed_body ps" by simp
  have line: "parse_command_line (typed_line ps) =
     (if cmd_type (parse_command (''AT'' @ typed_body ps)) \<noteq> CmdUnknown then Some [parse_command (''AT'' @ typed_body ps)]
      else case tokenize (typed_body ps) (''AT'' @ typed_body ps) 0 [] of
        None \<Rightarrow> None
      | Some cs \<Rightarrow> if cs = [] then Some [mk_command CmdUnknown (''AT'' @ typed_body ps)] else Some cs)"
    unfolding parse_command_line_def typed_line_def trim upper Let_def drop using b(1) by (simp add: has_prefix_def)
  show ?thesis
  proof (cases "n = 0 \<and> qs = []")
    case True
    have "canonical c" using assms(2) ps by simp
    then have "parse_command (''AT'' @ typed_body ps) = c" "cmd_type c \<noteq> CmdUnknown"
      using True ps parse_canonical by (simp_all add: canonical_def)
    then show ?thesis unfolding line by (simp only: if_True ps True list.map prod.sel not_False_eq_True)
  next
    case False
    have "tokenize (typed_body ps) (''AT'' @ typed_body ps) 0 [] = Some (map snd ps)"
      using tokenize_body [OF assms(2,3), of "[]" "[]"] by simp
    moreover have "cmd_type (parse_command (''AT'' @ typed_body ps)) = CmdUnknown"
      using line_not_single [of c qs n] assms False ps by simp
    ultimately show ?thesis unfolding line using assms(1) by simp
  qed
qed

theorem typed_line_roundtrip_witness:
  "map_option (map cmd_type) (parse_command_line ''ATE0  S7=45 &N14DT555-1212'')
     = Some [CmdEchoOff, CmdSRegisterSet, CmdLockSpeed, CmdDial]"
proof -
  let ?ps = "[(0, setting CmdEchoOff 0 ''E0''), (2, register_set 7 45), (1, setting CmdLockSpeed 14 ''&N14''),
    (0, dial_of ''555-1212'')] :: (nat \<times> command) list"
  have "list_all canonical (map snd ?ps)" by code_simp
  moreover have "list_all continues (butlast (map snd ?ps))" by code_simp
  ultimately have "parse_command_line (typed_line ?ps) = Some (map snd ?ps)"
    by (intro typed_line_roundtrip) simp_all
  moreover have "typed_line ?ps = ''ATE0  S7=45 &N14DT555-1212''" by code_simp
  ultimately show ?thesis
    by (simp add: setting_def register_set_def dial_of_def mk_command_def)
qed

end
