(* ===== verification/Telnet.thy ===== *)
theory Telnet
  imports Prelude
begin

section \<open>The telnet filter (internal/dialer/dialer.go, TelnetFilter)\<close>

text \<open>
  A byte-wise state machine that separates data from telnet commands, answers option requests, and
  on the side that faces a remote board decides whether the peer speaks telnet at all. One step is
  \<open>filter_byte\<close>, a call of \<open>Filter\<close> is \<open>filter_bytes\<close>. The interface \<open>stream_filter\<close> is what the
  session relies on: feeding a stream in one call or in many gives the same result.
\<close>

subsection \<open>Constants\<close>

abbreviation IAC :: byte where "IAC \<equiv> 255"
abbreviation DONT :: byte where "DONT \<equiv> 254"
abbreviation DO :: byte where "DO \<equiv> 253"
abbreviation WONT :: byte where "WONT \<equiv> 252"
abbreviation WILL :: byte where "WILL \<equiv> 251"
abbreviation SB :: byte where "SB \<equiv> 250"
abbreviation SE :: byte where "SE \<equiv> 240"
abbreviation ECHO :: byte where "ECHO \<equiv> 1"
abbreviation SUPPRESS_GO_AHEAD :: byte where "SUPPRESS_GO_AHEAD \<equiv> 3"
abbreviation TERMINAL_TYPE :: byte where "TERMINAL_TYPE \<equiv> 24"
abbreviation NAWS :: byte where "NAWS \<equiv> 31"
abbreviation TTYPE_IS :: byte where "TTYPE_IS \<equiv> 0"
abbreviation TTYPE_SEND :: byte where "TTYPE_SEND \<equiv> 1"
abbreviation ZPAD :: byte where "ZPAD \<equiv> 42"
abbreviation ZDLE :: byte where "ZDLE \<equiv> 0x18"
abbreviation ZBIN :: byte where "ZBIN \<equiv> 65"
abbreviation ZHEX :: byte where "ZHEX \<equiv> 66"
abbreviation ZBIN32 :: byte where "ZBIN32 \<equiv> 67"

subsection \<open>State\<close>

datatype filter_state = StData | StIAC | StCommand | StSB | StSBData | StSBIAC

record telnet_filter =
  fstate :: filter_state
  fcommand :: byte
  optData :: bytes
  learnPeer :: bool
  peerNegotiated :: bool
  peerLocked :: bool
  frame :: "byte \<times> byte"

definition new_telnet_filter :: telnet_filter where
  "new_telnet_filter =
     \<lparr>fstate = StData, fcommand = 0, optData = [], learnPeer = False, peerNegotiated = False,
      peerLocked = False, frame = (0, 0)\<rparr>"

definition new_remote_telnet_filter :: telnet_filter where
  "new_remote_telnet_filter = new_telnet_filter\<lparr>learnPeer := True\<rparr>"

definition peer_speaks_telnet :: "telnet_filter \<Rightarrow> bool" where
  "peer_speaks_telnet f = peerNegotiated f"

definition iac_is_data :: "telnet_filter \<Rightarrow> bool" where
  "iac_is_data f \<longleftrightarrow> learnPeer f \<and> peerLocked f \<and> \<not> peerNegotiated f"

definition note_data_byte :: "telnet_filter \<Rightarrow> byte \<Rightarrow> telnet_filter" where
  "note_data_byte f b =
     (if \<not> learnPeer f then f
      else
        let f' = (if \<not> peerLocked f \<and> fst (frame f) = ZPAD \<and> snd (frame f) = ZDLE
                     \<and> (b = ZBIN \<or> b = ZHEX \<or> b = ZBIN32)
                  then f\<lparr>peerLocked := True\<rparr> else f)
        in f'\<lparr>frame := (snd (frame f'), b)\<rparr>)"

definition respond_to_option :: "byte \<Rightarrow> byte \<Rightarrow> bytes" where
  "respond_to_option cmd opt =
     (if cmd = DO then
        (if opt = SUPPRESS_GO_AHEAD \<or> opt = TERMINAL_TYPE \<or> opt = NAWS then [IAC, WILL, opt]
         else [IAC, WONT, opt])
      else if cmd = WILL then
        (if opt = SUPPRESS_GO_AHEAD \<or> opt = ECHO then [IAC, DO, opt] else [IAC, DONT, opt])
      else [])"

definition ttype_reply :: bytes where
  "ttype_reply = [IAC, SB, TERMINAL_TYPE, TTYPE_IS] @ bytes_of ''ANSI'' @ [IAC, SE]"

definition handle_subnegotiation :: "bytes \<Rightarrow> bytes" where
  "handle_subnegotiation opts =
     (case opts of
        opt # qualifier # _ \<Rightarrow>
          if opt = TERMINAL_TYPE \<and> qualifier = TTYPE_SEND then ttype_reply else []
      | _ \<Rightarrow> [])"

text \<open>\<open>if !f.peerLocked { f.peerNegotiated = true }\<close>\<close>

definition note_negotiation :: "telnet_filter \<Rightarrow> telnet_filter" where
  "note_negotiation f = (if peerLocked f then f else f\<lparr>peerNegotiated := True\<rparr>)"

subsection \<open>The step and the filter\<close>

text \<open>One round of the loop in \<open>Filter\<close>: the new state, the data bytes kept, the reply bytes.\<close>

definition filter_byte :: "telnet_filter \<Rightarrow> byte \<Rightarrow> telnet_filter \<times> bytes \<times> bytes" where
  "filter_byte f b =
     (case fstate f of
        StData \<Rightarrow>
          if b = IAC \<and> \<not> iac_is_data f then (f\<lparr>fstate := StIAC\<rparr>, [], [])
          else (note_data_byte f b, [b], [])
      | StIAC \<Rightarrow>
          if b = IAC then ((note_data_byte f IAC)\<lparr>fstate := StData\<rparr>, [IAC], [])
          else if b = WILL \<or> b = WONT \<or> b = DO \<or> b = DONT then
            (f\<lparr>fcommand := b, fstate := StCommand\<rparr>, [], [])
          else if b = SB then (f\<lparr>fstate := StSB, optData := []\<rparr>, [], [])
          else (f\<lparr>fstate := StData\<rparr>, if b < SE then [IAC, b] else [], [])
      | StCommand \<Rightarrow>
          ((note_negotiation f)\<lparr>fstate := StData\<rparr>, [], respond_to_option (fcommand f) b)
      | StSB \<Rightarrow> (f\<lparr>optData := optData f @ [b], fstate := StSBData\<rparr>, [], [])
      | StSBData \<Rightarrow>
          if b = IAC then (f\<lparr>fstate := StSBIAC\<rparr>, [], [])
          else if length (optData f) < 512 then (f\<lparr>optData := optData f @ [b]\<rparr>, [], [])
          else (f\<lparr>optData := [], fstate := StData\<rparr>, [], [])
      | StSBIAC \<Rightarrow>
          if b = SE then
            ((note_negotiation f)\<lparr>fstate := StData\<rparr>, [], handle_subnegotiation (optData f))
          else if b = IAC then (f\<lparr>optData := optData f @ [IAC], fstate := StSBData\<rparr>, [], [])
          else (f\<lparr>fstate := StData\<rparr>, [], []))"

fun filter_bytes :: "telnet_filter \<Rightarrow> bytes \<Rightarrow> telnet_filter \<times> bytes \<times> bytes" where
  "filter_bytes f [] = (f, [], [])"
| "filter_bytes f (b # bs) =
     (let (f1, out1, resp1) = filter_byte f b;
          (f2, out2, resp2) = filter_bytes f1 bs
      in (f2, out1 @ out2, resp1 @ resp2))"

text \<open>The RFC 854 encoding of data: every 0xFF doubled.\<close>

definition double_iac :: "bytes \<Rightarrow> bytes" where
  "double_iac bs = concat (map (\<lambda>b. if b = IAC then [IAC, IAC] else [b]) bs)"

lemma double_iac_simps [simp]:
  "double_iac [] = []"
  "double_iac (b # bs) = (if b = IAC then [IAC, IAC] else [b]) @ double_iac bs"
  "double_iac (xs @ ys) = double_iac xs @ double_iac ys"
  by (simp_all add: double_iac_def)

subsection \<open>The interface: a stream filter\<close>

locale stream_filter =
  fixes step :: "'s \<Rightarrow> 'b \<Rightarrow> 's \<times> 'b list \<times> 'b list"
    and feed :: "'s \<Rightarrow> 'b list \<Rightarrow> 's \<times> 'b list \<times> 'b list"
  assumes feed_Nil: "feed s [] = (s, [], [])"
    and feed_Cons: "feed s (b # bs) =
      (let (s1, o1, r1) = step s b; (s2, o2, r2) = feed s1 bs in (s2, o1 @ o2, r1 @ r2))"
begin

lemma feed_append:
  "feed s (xs @ ys) =
     (let (s1, o1, r1) = feed s xs; (s2, o2, r2) = feed s1 ys in (s2, o1 @ o2, r1 @ r2))"
  by (induction xs arbitrary: s) (auto simp: feed_Nil feed_Cons Let_def split_beta)

lemma feed_single: "feed s [b] = step s b"
  by (simp add: feed_Cons feed_Nil split_beta)

text \<open>A list of reads, one call of the filter per read, as the session makes them.\<close>

definition feed_chunks :: "'s \<Rightarrow> 'b list list \<Rightarrow> 's \<times> 'b list \<times> 'b list" where
  "feed_chunks s cs =
     foldl (\<lambda>(s, out, resp) c. let (s', o', r') = feed s c in (s', out @ o', resp @ r'))
       (s, [], []) cs"

lemma feed_chunks_aux:
  "foldl (\<lambda>(s, out, resp) c. let (s', o', r') = feed s c in (s', out @ o', resp @ r'))
     (s, o0, r0) cs =
   (let (s', o', r') = feed s (concat cs) in (s', o0 @ o', r0 @ r'))"
proof (induction cs arbitrary: s o0 r0)
  case Nil
  then show ?case by (simp add: feed_Nil)
next
  case (Cons c cs)
  then show ?case by (simp add: feed_append Let_def split_beta)
qed

lemma feed_chunks_concat: "feed_chunks s cs = feed s (concat cs)"
  unfolding feed_chunks_def using feed_chunks_aux [of s "[]" "[]" cs]
  by (simp add: Let_def split_beta)

lemma chunks_irrelevant: "concat cs = concat ds \<Longrightarrow> feed_chunks s cs = feed_chunks s ds"
  by (simp add: feed_chunks_concat)

end

interpretation tf: stream_filter filter_byte filter_bytes
  by unfold_locales (simp_all add: Let_def split_beta)

subsection \<open>What a step leaves alone\<close>

lemma note_data_byte_frame [simp]:
  "fstate (note_data_byte f b) = fstate f"
  "learnPeer (note_data_byte f b) = learnPeer f"
  "peerNegotiated (note_data_byte f b) = peerNegotiated f"
  "optData (note_data_byte f b) = optData f"
  "peerLocked f \<Longrightarrow> peerLocked (note_data_byte f b)"
  "\<not> learnPeer f \<Longrightarrow> note_data_byte f b = f"
  by (auto simp: note_data_byte_def Let_def)

lemma note_negotiation_frame [simp]:
  "fstate (note_negotiation f) = fstate f"
  "learnPeer (note_negotiation f) = learnPeer f"
  "peerLocked (note_negotiation f) = peerLocked f"
  "optData (note_negotiation f) = optData f"
  by (simp_all add: note_negotiation_def)

lemmas filter_step_splits = filter_state.splits if_splits

lemma filter_byte_learnPeer [frame_simps]: "learnPeer (fst (filter_byte f b)) = learnPeer f"
  by (simp add: filter_byte_def split: filter_state.split)

lemma filter_byte_locked: "peerLocked f \<Longrightarrow> peerLocked (fst (filter_byte f b))"
  by (simp add: filter_byte_def split: filter_state.split)

lemma filter_byte_verdict:
  "peerLocked f \<Longrightarrow> peerNegotiated (fst (filter_byte f b)) = peerNegotiated f"
  by (simp add: filter_byte_def note_negotiation_def split: filter_state.split)

lemma filter_byte_client_unlocked:
  "\<not> learnPeer f \<Longrightarrow> peerLocked (fst (filter_byte f b)) = peerLocked f"
  by (simp add: filter_byte_def split: filter_state.split)

lemma fst_filter_bytes: "fst (filter_bytes f bs) = foldl (\<lambda>f b. fst (filter_byte f b)) f bs"
  by (induction bs arbitrary: f) (simp_all add: Let_def split_beta)

lemma filter_bytes_learnPeer [frame_simps]: "learnPeer (fst (filter_bytes f bs)) = learnPeer f"
  unfolding fst_filter_bytes by (induction bs arbitrary: f) (simp_all add: frame_simps)

text \<open>Once a transfer has locked the verdict, no input changes it.\<close>

lemma verdict_frozen:
  "peerLocked f \<Longrightarrow>
     peerLocked (fst (filter_bytes f bs)) \<and>
     peerNegotiated (fst (filter_bytes f bs)) = peerNegotiated f"
  unfolding fst_filter_bytes
  by (induction bs arbitrary: f) (simp_all add: filter_byte_locked filter_byte_verdict)

subsection \<open>Round trips\<close>

definition clear_data :: "telnet_filter \<Rightarrow> bool" where
  "clear_data f \<longleftrightarrow> fstate f = StData \<and> (\<not> learnPeer f \<or> peerNegotiated f)"

lemma filter_double_one:
  assumes "clear_data f"
  shows "\<exists>f'. filter_bytes f (if b = IAC then [IAC, IAC] else [b]) = (f', [b], []) \<and> clear_data f'"
  using assms by (auto simp: clear_data_def filter_byte_def iac_is_data_def)

lemma filter_double_iac:
  "clear_data f \<Longrightarrow> \<exists>f'. filter_bytes f (double_iac bs) = (f', bs, []) \<and> clear_data f'"
proof (induction bs arbitrary: f)
  case Nil
  then show ?case by simp
next
  case (Cons b bs)
  obtain f1 where f1: "filter_bytes f (if b = IAC then [IAC, IAC] else [b]) = (f1, [b], [])"
    "clear_data f1"
    using filter_double_one [OF Cons.prems] by blast
  obtain f2 where "filter_bytes f1 (double_iac bs) = (f2, bs, [])" "clear_data f2"
    using Cons.IH [OF f1(2)] by blast
  then show ?case
    using f1 tf.feed_append [of f "if b = IAC then [IAC, IAC] else [b]" "double_iac bs"]
    by simp
qed

text \<open>A peer found to be raw TCP passes untouched, whatever bytes it sends.\<close>

lemma raw_passthrough:
  "fstate f = StData \<Longrightarrow> iac_is_data f \<Longrightarrow>
     \<exists>f'. filter_bytes f bs = (f', bs, []) \<and> fstate f' = StData \<and> iac_is_data f'"
proof (induction bs arbitrary: f)
  case Nil
  then show ?case by simp
next
  case (Cons b bs)
  then have "filter_byte f b = (note_data_byte f b, [b], [])" by (simp add: filter_byte_def)
  moreover have "iac_is_data (note_data_byte f b)" using Cons.prems by (auto simp: iac_is_data_def)
  ultimately show ?case using Cons.IH [of "note_data_byte f b"] Cons.prems(1) by auto
qed

subsection \<open>Lengths\<close>

lemma filter_byte_out_length:
  "length (fst (snd (filter_byte f b))) + (if fstate (fst (filter_byte f b)) = StIAC then 1 else 0)
     \<le> 1 + (if fstate f = StIAC then 1 else 0)"
  by (simp add: filter_byte_def split: filter_state.split)

lemma filter_bytes_out_length:
  "length (fst (snd (filter_bytes f bs))) \<le> length bs + (if fstate f = StIAC then 1 else 0)"
proof (induction bs arbitrary: f)
  case Nil
  then show ?case by simp
next
  case (Cons b bs)
  show ?case
    using Cons.IH [of "fst (filter_byte f b)"] filter_byte_out_length [of f b]
    by (auto simp: Let_def split_beta split: if_splits)
qed

subsection \<open>Replies\<close>

text \<open>A well-formed reply: an option answer for a single option, or the terminal type.\<close>

definition is_reply :: "bytes \<Rightarrow> bool" where
  "is_reply r \<longleftrightarrow> r = ttype_reply
     \<or> (\<exists>opt. r \<in> {[IAC, WILL, opt], [IAC, WONT, opt], [IAC, DO, opt], [IAC, DONT, opt]})"

lemma respond_to_option_reply:
  "respond_to_option cmd opt = [] \<or> is_reply (respond_to_option cmd opt)"
  by (auto simp: respond_to_option_def is_reply_def)

lemma handle_subnegotiation_reply:
  "handle_subnegotiation opts = [] \<or> handle_subnegotiation opts = ttype_reply"
  by (auto simp: handle_subnegotiation_def split: list.splits)

lemma filter_byte_reply:
  "snd (snd (filter_byte f b)) = [] \<or> is_reply (snd (snd (filter_byte f b)))"
proof (cases "fstate f")
  case StCommand
  then show ?thesis using respond_to_option_reply by (auto simp: filter_byte_def)
next
  case StSBIAC
  then show ?thesis using handle_subnegotiation_reply [of "optData f"]
    by (auto simp: filter_byte_def is_reply_def)
qed (simp_all add: filter_byte_def)

lemma filter_bytes_replies:
  "\<exists>rs. snd (snd (filter_bytes f bs)) = concat rs \<and> list_all is_reply rs \<and> length rs \<le> length bs"
proof (induction bs arbitrary: f)
  case Nil
  show ?case by (intro exI [of _ "[]"]) simp
next
  case (Cons b bs)
  obtain rs where rs: "snd (snd (filter_bytes (fst (filter_byte f b)) bs)) = concat rs"
    "list_all is_reply rs" "length rs \<le> length bs"
    using Cons.IH by blast
  let ?r = "snd (snd (filter_byte f b))"
  show ?case
  proof (cases "?r = []")
    case True
    with rs show ?thesis by (intro exI [of _ rs]) (simp add: Let_def split_beta)
  next
    case False
    then have "is_reply ?r" using filter_byte_reply by blast
    with rs show ?thesis by (intro exI [of _ "?r # rs"]) (simp add: Let_def split_beta)
  qed
qed

subsection \<open>Subnegotiation\<close>

lemma doubled_in_subnegotiation:
  "fstate f = StSBData \<Longrightarrow>
     fst (filter_bytes f (concat (replicate n [IAC, IAC]))) = f\<lparr>optData := optData f @ replicate n IAC\<rparr>"
  unfolding fst_filter_bytes
  by (induction n arbitrary: f) (simp_all add: filter_byte_def)

subsection \<open>Properties\<close>

text \<open>C23: Data survives the client's telnet encoding byte for byte: with every 0xFF doubled, as RFC 854
  demands, the filter gives back exactly the data and replies nothing.\<close>

theorem telnet_data_roundtrip:
  "snd (filter_bytes new_telnet_filter (double_iac bs)) = (bs, [])"
  using filter_double_iac [of new_telnet_filter bs]
  by (auto simp: clear_data_def new_telnet_filter_def)

text \<open>How the network cuts the stream does not matter: calling \<open>Filter\<close> on each read in turn and
  collecting what it returns is one call on the whole stream, in final state, data and replies.\<close>

theorem reads_are_a_stream:
  "foldl (\<lambda>(f, out, resp) chunk. case filter_bytes f chunk of (f', out', resp') \<Rightarrow> (f', out @ out', resp @ resp'))
     (f, [], []) chunks = filter_bytes f (concat chunks)"
  using tf.feed_chunks_concat [of f chunks] by (simp add: tf.feed_chunks_def)

text \<open>A board that starts a ZMODEM transfer without ever having negotiated is raw TCP from then on:
  every byte it sends passes unchanged, 0xFF included, nothing is replied, and it is never taken for a
  telnet peer again.\<close>

theorem raw_board_untouched:
  assumes "fstate f = StData" and "iac_is_data f"
  shows "snd (filter_bytes f bs) = (bs, []) \<and> \<not> peer_speaks_telnet (fst (filter_bytes f bs))"
  using raw_passthrough [OF assms, of bs] by (auto simp: iac_is_data_def peer_speaks_telnet_def)

theorem raw_board_untouched_witness:
  "let f = fst (filter_bytes new_remote_telnet_filter [ZPAD, ZDLE, ZHEX])
   in snd (filter_bytes f [IAC, DO, ECHO]) = ([IAC, DO, ECHO], [])
     \<and> \<not> peer_speaks_telnet (fst (filter_bytes f [IAC, DO, ECHO]))"
  unfolding Let_def
  by (rule raw_board_untouched)
    (simp_all add: new_remote_telnet_filter_def new_telnet_filter_def filter_byte_def
      note_data_byte_def iac_is_data_def Let_def)

text \<open>What the filter writes back is telnet throughout: a sequence of complete option answers and
  terminal-type reports, at most one for each byte read, so a peer cannot make it speak anything else.\<close>

theorem replies_well_formed:
  "\<exists>rs. snd (snd (filter_bytes f bs)) = concat rs \<and> list_all is_reply rs \<and> length rs \<le> length bs"
  by (rule filter_bytes_replies)

text \<open>The 512-byte cap on a subnegotiation can be passed: doubled IACs are collected without looking
  at it, so a peer that keeps sending them makes the buffer as long as it likes.\<close>

theorem subnegotiation_uncapped:
  "length (optData (fst (filter_bytes new_telnet_filter ([IAC, SB, TERMINAL_TYPE] @ concat (replicate n [IAC, IAC])))))
     = Suc n"
proof -
  define f where "f = fst (filter_bytes new_telnet_filter [IAC, SB, TERMINAL_TYPE])"
  have f: "fstate f = StSBData" "length (optData f) = 1"
    by (simp_all add: f_def new_telnet_filter_def filter_byte_def iac_is_data_def Let_def)
  have "fst (filter_bytes new_telnet_filter ([IAC, SB, TERMINAL_TYPE] @ concat (replicate n [IAC, IAC])))
      = fst (filter_bytes f (concat (replicate n [IAC, IAC])))"
    unfolding f_def by (simp only: fst_filter_bytes foldl_append)
  then show ?thesis using doubled_in_subnegotiation [OF f(1), of n] f(2) by simp
qed

end
