(* ===== verification/NetAddr.thy ===== *)
theory NetAddr
  imports GoText
begin

section \<open>Addresses and networks (the part of Go's net package the gateway uses)\<close>

text \<open>
  \<open>net.ParseIP\<close>, \<open>net.ParseCIDR\<close>, \<open>IPNet.Contains\<close>, \<open>net.JoinHostPort\<close> and \<open>net.SplitHostPort\<close>
  of the standard library, on byte strings, and the gateway's own \<open>trustedNets.has\<close> and
  \<open>Dialer.ipAllowed\<close> over them. An \<open>IP\<close> is a byte list of length 4 or 16, a parse error is \<open>None\<close>.
\<close>

unbundle bit_operations_syntax

type_synonym ip = bytes

record ip_net =
  net_ip :: ip
  net_mask :: bytes

definition v4_in_v6_prefix :: bytes where
  "v4_in_v6_prefix = replicate 10 0 @ [255, 255]"

definition to4 :: "ip \<Rightarrow> ip option" where
  "to4 ip =
     (if length ip = 4 then Some ip
      else if length ip = 16 \<and> take 12 ip = v4_in_v6_prefix then Some (drop 12 ip)
      else None)"

subsection \<open>Textual addresses\<close>

fun split_on :: "char \<Rightarrow> string \<Rightarrow> string list" where
  "split_on d [] = [[]]"
| "split_on d (c # s) =
     (if c = d then [] # split_on d s
      else case split_on d s of f # fs \<Rightarrow> (c # f) # fs | [] \<Rightarrow> [[c]])"

text \<open>One decimal field: digits only, no leading zero, at most 255.\<close>

definition parse_octet :: "string \<Rightarrow> byte option" where
  "parse_octet f =
     (if f \<noteq> [] \<and> list_all is_digit f \<and> (hd f = CHR ''0'' \<longrightarrow> length f = 1) \<and> dec_val f \<le> 255
      then Some (word_of_int (dec_val f)) else None)"

definition parse_ipv4 :: "string \<Rightarrow> bytes option" where
  "parse_ipv4 s =
     (case map parse_octet (split_on CHR ''.'' s) of
        [Some a, Some b, Some c, Some d] \<Rightarrow> Some [a, b, c, d]
      | _ \<Rightarrow> None)"

definition hex_val :: "char \<Rightarrow> nat option" where
  "hex_val c =
     (let n = (of_char c :: nat) in
      if 48 \<le> n \<and> n \<le> 57 then Some (n - 48)
      else if 97 \<le> n \<and> n \<le> 102 then Some (n - 87)
      else if 65 \<le> n \<and> n \<le> 70 then Some (n - 55)
      else None)"

definition hex_group :: "string \<Rightarrow> nat" where
  "hex_group ds = foldl (\<lambda>acc c. 16 * acc + the (hex_val c)) 0 ds"

text \<open>
  The loop over groups: \<open>out\<close> the bytes so far, \<open>ell\<close> the position of the ellipsis, \<open>s\<close> the rest.
  The result is the bytes and the ellipsis once the whole string is used.
\<close>

fun ipv6_groups :: "nat \<Rightarrow> bytes \<Rightarrow> nat option \<Rightarrow> string \<Rightarrow> (bytes \<times> nat option) option" where
  "ipv6_groups 0 out ell s = (if s = [] then Some (out, ell) else None)"
| "ipv6_groups (Suc n) out ell s =
     (let ds = takeWhile (\<lambda>c. hex_val c \<noteq> None) s;
          rest = dropWhile (\<lambda>c. hex_val c \<noteq> None) s
      in if ds = [] \<or> length ds > 4 then None
         else if rest \<noteq> [] \<and> hd rest = CHR ''.'' then
           (if ell = None \<and> length out \<noteq> 12 then None
            else if length out + 4 > 16 then None
            else case parse_ipv4 s of None \<Rightarrow> None | Some v4 \<Rightarrow> Some (out @ v4, ell))
         else
           let acc = hex_group ds;
               out' = out @ [of_nat (acc div 256), of_nat (acc mod 256)]
           in case rest of
                [] \<Rightarrow> Some (out', ell)
              | c # rest' \<Rightarrow>
                  if c \<noteq> CHR '':'' \<or> rest' = [] then None
                  else if hd rest' = CHR '':'' then
                    (if ell \<noteq> None then None
                     else if tl rest' = [] then Some (out', Some (length out'))
                     else ipv6_groups n out' (Some (length out')) (tl rest'))
                  else ipv6_groups n out' ell rest')"

definition expand_ellipsis :: "bytes \<Rightarrow> nat option \<Rightarrow> bytes option" where
  "expand_ellipsis out ell =
     (if length out < 16 then
        (case ell of
           None \<Rightarrow> None
         | Some e \<Rightarrow> Some (take e out @ replicate (16 - length out) 0 @ drop e out))
      else if ell \<noteq> None then None
      else Some out)"

definition parse_ipv6 :: "string \<Rightarrow> bytes option" where
  "parse_ipv6 s =
     (if take 2 s = ''::'' then
        (if length s = 2 then Some (replicate 16 0)
         else case ipv6_groups 8 [] (Some 0) (drop 2 s) of
           None \<Rightarrow> None | Some (out, ell) \<Rightarrow> expand_ellipsis out ell)
      else case ipv6_groups 8 [] None s of
        None \<Rightarrow> None | Some (out, ell) \<Rightarrow> expand_ellipsis out ell)"

text \<open>
  \<open>netip.ParseAddr\<close>: the first of \<open>.\<close>, \<open>:\<close> and \<open>%\<close> decides the syntax. A zone makes both
  \<open>net.ParseIP\<close> and \<open>net.ParseCIDR\<close> fail, so an address with \<open>%\<close> is an error here.
\<close>

definition parse_addr :: "string \<Rightarrow> bytes option" where
  "parse_addr s =
     (if CHR ''%'' \<in> set s then None
      else case find (\<lambda>c. c = CHR ''.'' \<or> c = CHR '':'') s of
        Some c \<Rightarrow> if c = CHR ''.'' then parse_ipv4 s else parse_ipv6 s
      | None \<Rightarrow> None)"

text \<open>\<open>As16\<close>: an IPv4 address in its 16-byte form.\<close>

definition as16 :: "bytes \<Rightarrow> ip" where
  "as16 a = (if length a = 4 then v4_in_v6_prefix @ a else a)"

definition parse_ip :: "string \<Rightarrow> ip option" where
  "parse_ip s = map_option as16 (parse_addr s)"

subsection \<open>Networks\<close>

text \<open>\<open>CIDRMask(n, bits)\<close>: the first \<open>n\<close> bits set.\<close>

definition mask_byte :: "nat \<Rightarrow> byte" where
  "mask_byte k = (if k \<ge> 8 then 255 else of_nat (256 - 2 ^ (8 - k)))"

definition cidr_mask :: "nat \<Rightarrow> nat \<Rightarrow> bytes" where
  "cidr_mask n len = map (\<lambda>i. mask_byte (n - 8 * i)) [0 ..< len]"

definition and_bytes :: "bytes \<Rightarrow> bytes \<Rightarrow> bytes" where
  "and_bytes xs ys = map2 (\<lambda>x y. x AND y) xs ys"

fun cut_slash :: "string \<Rightarrow> (string \<times> string) option" where
  "cut_slash [] = None"
| "cut_slash (c # s) =
     (if c = CHR ''/'' then Some ([], s)
      else map_option (\<lambda>(a, m). (c # a, m)) (cut_slash s))"

text \<open>\<open>dtoi\<close> accepts a non-empty run of digits below 0xFFFFFF; the mask must be all of it.\<close>

definition parse_prefix_len :: "string \<Rightarrow> nat option" where
  "parse_prefix_len m =
     (if m \<noteq> [] \<and> list_all is_digit m \<and> dec_val m < 0xFFFFFF then Some (nat (dec_val m)) else None)"

definition parse_cidr :: "string \<Rightarrow> ip_net option" where
  "parse_cidr s =
     (case cut_slash s of
        None \<Rightarrow> None
      | Some (addr, m) \<Rightarrow>
          (case (parse_addr addr, parse_prefix_len m) of
             (Some a, Some n) \<Rightarrow>
               if n > 8 * length a then None
               else let mask = cidr_mask n (length a)
                    in Some \<lparr>net_ip = and_bytes a mask, net_mask = mask\<rparr>
           | _ \<Rightarrow> None))"

definition net_contains :: "ip_net \<Rightarrow> ip \<Rightarrow> bool" where
  "net_contains n ip =
     (let nn = (case to4 (net_ip n) of Some v4 \<Rightarrow> v4 | None \<Rightarrow> net_ip n);
          m = (if length (net_mask n) = 16 \<and> length nn = 4 then drop 12 (net_mask n) else net_mask n);
          x = (case to4 ip of Some v4 \<Rightarrow> v4 | None \<Rightarrow> ip)
      in length nn \<in> {4, 16} \<and> length m = length nn \<and> length x = length nn
         \<and> and_bytes nn m = and_bytes x m)"

subsection \<open>The gateway's checks\<close>

text \<open>\<open>Dialer.ipAllowed\<close>\<close>

definition ip_allowed :: "ip_net list \<Rightarrow> ip \<Rightarrow> bool" where
  "ip_allowed nets ip \<longleftrightarrow> list_ex (\<lambda>n. net_contains n ip) nets"

text \<open>\<open>trustedNets.has\<close>: an unparseable address is never trusted.\<close>

definition trusted_has :: "ip_net list \<Rightarrow> string \<Rightarrow> bool" where
  "trusted_has nets ip =
     (if nets = [] then False
      else case parse_ip ip of None \<Rightarrow> False | Some p \<Rightarrow> list_ex (\<lambda>n. net_contains n p) nets)"

lemma trusted_has_Nil [simp]: "\<not> trusted_has [] ip"
  by (simp add: trusted_has_def)

subsection \<open>Host and port\<close>

definition join_host_port :: "string \<Rightarrow> string \<Rightarrow> string" where
  "join_host_port host port =
     (if CHR '':'' \<in> set host \<or> CHR ''%'' \<in> set host then ''['' @ host @ '']:'' @ port
      else host @ '':'' @ port)"

text \<open>\<open>SplitHostPort\<close>; on an error Go returns empty strings, which the callers test for.\<close>

definition last_colon :: "string \<Rightarrow> nat option" where
  "last_colon s =
     (if CHR '':'' \<in> set s
      then Some (length s - 1 - length (takeWhile (\<lambda>c. c \<noteq> CHR '':'') (rev s))) else None)"

definition index_of :: "char \<Rightarrow> string \<Rightarrow> nat option" where
  "index_of c s = (if c \<in> set s then Some (length (takeWhile (\<lambda>d. d \<noteq> c) s)) else None)"

definition split_host_port :: "string \<Rightarrow> string \<times> string" where
  "split_host_port hp =
     (case last_colon hp of
        None \<Rightarrow> ([], [])
      | Some i \<Rightarrow>
          if hd hp = CHR ''['' then
            (case index_of CHR '']'' hp of
               None \<Rightarrow> ([], [])
             | Some e \<Rightarrow>
                 if e + 1 \<noteq> i then ([], [])
                 else if CHR ''['' \<in> set (drop 1 hp) \<or> CHR '']'' \<in> set (drop (e + 1) hp) then ([], [])
                 else (take (e - 1) (drop 1 hp), drop (i + 1) hp))
          else if CHR '':'' \<in> set (take i hp) then ([], [])
          else if CHR ''['' \<in> set hp \<or> CHR '']'' \<in> set hp then ([], [])
          else (take i hp, drop (i + 1) hp))"

text \<open>The peer's address as \<open>handleConnection\<close> and \<open>NewSession\<close> use it.\<close>

definition peer_host :: "string \<Rightarrow> string" where
  "peer_host remoteAddr =
     (let host = fst (split_host_port remoteAddr) in if host = [] then remoteAddr else host)"

subsection \<open>Facts\<close>

lemma last_colon_append:
  assumes "CHR '':'' \<notin> set port"
  shows "last_colon (host @ '':'' @ port) = Some (length host)"
proof -
  have "takeWhile (\<lambda>c. c \<noteq> CHR '':'') (rev port @ CHR '':'' # rev host) = rev port"
    using assms by (intro takeWhile_append_stop) (auto simp: list_all_iff)
  then show ?thesis by (simp add: last_colon_def)
qed

text \<open>Joining a host and a port and splitting them again gives the host back.\<close>

lemma peer_host_join:
  assumes "host \<noteq> []" and "set host \<inter> set ''[]'' = {}"
    and "set port \<inter> set '':[]'' = {}"
  shows "peer_host (join_host_port host port) = host"
proof (cases "CHR '':'' \<in> set host \<or> CHR ''%'' \<in> set host")
  case True
  let ?h = "CHR ''['' # host @ '']''"
  have j: "join_host_port host port = ?h @ '':'' @ port" using True by (simp add: join_host_port_def)
  have lc: "last_colon (?h @ '':'' @ port) = Some (length ?h)"
    using assms(3) by (intro last_colon_append) auto
  have tw: "takeWhile (\<lambda>d. d \<noteq> CHR '']'') (CHR ''['' # host @ CHR '']'' # CHR '':'' # port)
      = CHR ''['' # host"
    using assms(2) by (simp add: takeWhile_neq_append)
  have ix: "index_of CHR '']'' (?h @ '':'' @ port) = Some (Suc (length host))"
    using tw by (simp add: index_of_def)
  have "split_host_port (?h @ '':'' @ port) = (host, port)"
    using assms lc ix by (auto simp: split_host_port_def)
  then show ?thesis using assms(1) by (simp add: peer_host_def j)
next
  case False
  have "hd host \<in> set host" using assms(1) by (rule hd_in_set)
  then have "hd host \<noteq> CHR ''[''" using assms(2) by auto
  then have "split_host_port (host @ '':'' @ port) = (host, port)"
    using False assms last_colon_append [of port host]
    by (auto simp: split_host_port_def hd_append)
  then show ?thesis using False assms(1) by (simp add: peer_host_def join_host_port_def)
qed

lemma length_and_bytes [simp]: "length (and_bytes xs ys) = min (length xs) (length ys)"
  by (simp add: and_bytes_def)

lemma length_cidr_mask [simp]: "length (cidr_mask n len) = len"
  by (simp add: cidr_mask_def)

lemma and_bytes_idem: "and_bytes (and_bytes a m) m = and_bytes a m"
  unfolding and_bytes_def
proof (induction a arbitrary: m)
  case (Cons x a)
  then show ?case by (cases m) (simp_all add: and.assoc)
qed simp

lemma parse_ipv4_length: "parse_ipv4 s = Some a \<Longrightarrow> length a = 4"
  by (auto simp: parse_ipv4_def split: list.splits option.splits)

text \<open>For an IPv4 network, containment is agreement of the masked addresses.\<close>

lemma net_contains_v4:
  assumes "parse_addr addr = Some a" and "length a = 4" and "n \<le> 32" and "length x = 4"
  shows "net_contains \<lparr>net_ip = and_bytes a (cidr_mask n 4), net_mask = cidr_mask n 4\<rparr> (as16 x)
    \<longleftrightarrow> and_bytes a (cidr_mask n 4) = and_bytes x (cidr_mask n 4)"
proof -
  have "to4 (and_bytes a (cidr_mask n 4)) = Some (and_bytes a (cidr_mask n 4))"
    using assms(2) by (simp add: to4_def)
  moreover have "to4 (as16 x) = Some x"
    using assms(4) by (simp add: to4_def as16_def v4_in_v6_prefix_def)
  ultimately show ?thesis
    using assms(2,4) by (simp add: net_contains_def Let_def and_bytes_idem)
qed

subsection \<open>Properties\<close>

text \<open>The host the server keys its limits on is the host of the peer's address: of what
  \<open>JoinHostPort\<close> builds from an address without brackets, IPv6 included, \<open>peer_host\<close> gives back the
  address.\<close>

theorem peer_host_roundtrip:
  assumes "host \<noteq> []" and "set host \<inter> set ''[]'' = {}" and "set port \<inter> set '':[]'' = {}"
  shows "peer_host (join_host_port host port) = host"
  using assms by (rule peer_host_join)

theorem peer_host_roundtrip_witness:
  "peer_host (join_host_port ''fe80::1'' ''2323'') = ''fe80::1''"
  by (rule peer_host_roundtrip) simp_all

end
