(* ===== verification/RateLimiter.thy ===== *)
theory RateLimiter
  imports NetAddr "HOL-Library.Multiset"
begin

section \<open>The per-IP rate limiter (internal/server/ratelimit.go, RateLimiter)\<close>

text \<open>
  The limiter's two maps are association lists. The clock is an argument of every operation that
  reads it. Go iterates a map in an unspecified order, so the eviction takes the order as an
  argument \<open>iter\<close>, a function that lists the entries it is given in some order; theorems that
  depend on it ask only that it permutes them. The mutex makes each operation one step, and a
  history of a limiter is a list of \<open>rl_event\<close>s.
\<close>

record rate_limiter =
  rl_enabled :: bool
  maxAttempts :: int
  rl_window :: duration
  blockDuration :: duration
  attempts :: "(string \<times> time list) list"
  blocked :: "(string \<times> time) list"
  globalCount :: int
  globalWindow :: time
  rl_trusted :: "ip_net list"

type_synonym attempt_order = "(string \<times> time list) list \<Rightarrow> (string \<times> time list) list"

definition maxTrackedIPs :: nat where "maxTrackedIPs = 10000"
definition globalMaxRate :: int where "globalMaxRate = 1000"

definition new_rate_limiter :: "bool \<Rightarrow> int \<Rightarrow> duration \<Rightarrow> duration \<Rightarrow> time \<Rightarrow> rate_limiter" where
  "new_rate_limiter enabled maxAtt window block now =
     \<lparr>rl_enabled = enabled, maxAttempts = maxAtt, rl_window = window, blockDuration = block,
      attempts = [], blocked = [], globalCount = 0, globalWindow = now, rl_trusted = []\<rparr>"

definition rl_set_limits ::
  "bool \<Rightarrow> int \<Rightarrow> duration \<Rightarrow> duration \<Rightarrow> rate_limiter \<Rightarrow> rate_limiter" where
  "rl_set_limits enabled maxAtt window block r =
     r\<lparr>rl_enabled := enabled, maxAttempts := maxAtt, rl_window := window, blockDuration := block\<rparr>"

definition rl_set_trusted :: "ip_net list \<Rightarrow> rate_limiter \<Rightarrow> rate_limiter" where
  "rl_set_trusted nets r = r\<lparr>rl_trusted := nets\<rparr>"

text \<open>A read of \<open>r.attempts[ip]\<close>: the nil slice when the key is absent.\<close>

definition attempts_of :: "rate_limiter \<Rightarrow> string \<Rightarrow> time list" where
  "attempts_of r ip = (case map_of (attempts r) ip of Some ts \<Rightarrow> ts | None \<Rightarrow> [])"

text \<open>
  The index of the first attempt after the cutoff: \<open>i\<close> is the loop variable, \<open>n\<close> the length of the
  whole slice and \<open>valid\<close> the variable the loop leaves behind.
\<close>

fun first_valid :: "time \<Rightarrow> nat \<Rightarrow> nat \<Rightarrow> nat \<Rightarrow> time list \<Rightarrow> nat" where
  "first_valid cutoff n i valid [] = valid"
| "first_valid cutoff n i valid (t # ts) =
     (if cutoff < t then i
      else first_valid cutoff n (Suc i) (if Suc i = n then n else valid) ts)"

definition clean_attempts :: "string \<Rightarrow> time \<Rightarrow> rate_limiter \<Rightarrow> rate_limiter" where
  "clean_attempts ip now r =
     (let ts = attempts_of r ip;
          cutoff = now + wrap64 (- rl_window r);
          valid = first_valid cutoff (length ts) 0 0 ts
      in if 0 < valid then r\<lparr>attempts := AList.update ip (drop valid ts) (attempts r)\<rparr> else r)"

text \<open>
  The eviction loop over the entries in iteration order; \<open>acc\<close> is \<open>oldestIP\<close> and \<open>oldestTime\<close>,
  \<open>None\<close> while \<open>first\<close> is true. The result is the key to delete.
\<close>

fun oldest_ip :: "(string \<times> time) option \<Rightarrow> (string \<times> time list) list \<Rightarrow> string option" where
  "oldest_ip acc [] =
     (case acc of None \<Rightarrow> None | Some (ip, _) \<Rightarrow> if ip \<noteq> [] then Some ip else None)"
| "oldest_ip acc ((ip, ts) # rest) =
     (if ts = [] then Some ip
      else
        (case acc of
           None \<Rightarrow> oldest_ip (Some (ip, last ts)) rest
         | Some (_, t) \<Rightarrow>
             if last ts < t then oldest_ip (Some (ip, last ts)) rest else oldest_ip acc rest))"

definition evict_oldest :: "attempt_order \<Rightarrow> rate_limiter \<Rightarrow> rate_limiter" where
  "evict_oldest iter r =
     (case oldest_ip None (iter (attempts r)) of
        None \<Rightarrow> r
      | Some ip \<Rightarrow> r\<lparr>attempts := AList.delete ip (attempts r)\<rparr>)"

text \<open>\<open>Allow\<close>: the steps before the per-IP machinery, then the per-IP machinery.\<close>

definition roll_window :: "time \<Rightarrow> rate_limiter \<Rightarrow> rate_limiter" where
  "roll_window now r =
     (if rl_window r < time_sub now (globalWindow r)
      then r\<lparr>globalCount := 0, globalWindow := now\<rparr> else r)"

definition expire_block :: "string \<Rightarrow> rate_limiter \<Rightarrow> rate_limiter" where
  "expire_block ip r = r\<lparr>blocked := AList.delete ip (blocked r)\<rparr>"

definition make_room :: "attempt_order \<Rightarrow> string \<Rightarrow> rate_limiter \<Rightarrow> rate_limiter" where
  "make_room iter ip r =
     (if maxTrackedIPs \<le> length (attempts r) \<and> map_of (attempts r) ip = None
      then evict_oldest iter r else r)"

definition count_attempt :: "attempt_order \<Rightarrow> time \<Rightarrow> string \<Rightarrow> rate_limiter \<Rightarrow> bool \<times> rate_limiter" where
  "count_attempt iter now ip r =
     (let r1 = make_room iter ip (clean_attempts ip now r)
      in if maxAttempts r1 \<le> int (length (attempts_of r1 ip)) then
           (False, r1\<lparr>blocked := AList.update ip (now + blockDuration r1) (blocked r1),
                     attempts := AList.delete ip (attempts r1)\<rparr>)
         else
           (True, r1\<lparr>attempts := AList.update ip (attempts_of r1 ip @ [now]) (attempts r1),
                    globalCount := globalCount r1 + 1\<rparr>))"

definition allow :: "attempt_order \<Rightarrow> time \<Rightarrow> string \<Rightarrow> rate_limiter \<Rightarrow> bool \<times> rate_limiter" where
  "allow iter now ip r =
     (if \<not> rl_enabled r then (True, r)
      else
        let r = roll_window now r in
        if globalMaxRate \<le> globalCount r then (False, r)
        else if trusted_has (rl_trusted r) ip then (True, r\<lparr>globalCount := globalCount r + 1\<rparr>)
        else
          (case map_of (blocked r) ip of
             Some blockedUntil \<Rightarrow>
               if now < blockedUntil then (False, r)
               else count_attempt iter now ip (expire_block ip r)
           | None \<Rightarrow> count_attempt iter now ip r))"

text \<open>One tick of the cleanup goroutine. Deleting while ranging visits every entry once.\<close>

definition cleanup_tick :: "time \<Rightarrow> rate_limiter \<Rightarrow> rate_limiter" where
  "cleanup_tick now r =
     (let cutoff = now + wrap64 (- rl_window r) in
      r\<lparr>blocked := filter (\<lambda>(ip, blockedUntil). \<not> blockedUntil < now) (blocked r),
        attempts := filter (\<lambda>(ip, ts). ts \<noteq> [])
          (map (\<lambda>(ip, ts). (ip, filter (\<lambda>t. cutoff < t) ts)) (attempts r))\<rparr>)"

subsection \<open>Histories\<close>

datatype rl_event =
    Attempt string time
  | Tick time
  | Limits bool int duration duration
  | Trust "ip_net list"

fun rl_step :: "attempt_order \<Rightarrow> rate_limiter \<Rightarrow> rl_event \<Rightarrow> rate_limiter" where
  "rl_step iter r (Attempt ip now) = snd (allow iter now ip r)"
| "rl_step iter r (Tick now) = cleanup_tick now r"
| "rl_step iter r (Limits enabled maxAtt window block) = rl_set_limits enabled maxAtt window block r"
| "rl_step iter r (Trust nets) = rl_set_trusted nets r"

text \<open>The accepted attempts of a history, oldest first.\<close>

fun accepted :: "attempt_order \<Rightarrow> rate_limiter \<Rightarrow> rl_event list \<Rightarrow> (string \<times> time) list" where
  "accepted iter r [] = []"
| "accepted iter r (e # es) =
     (case e of
        Attempt ip now \<Rightarrow> if fst (allow iter now ip r) then [(ip, now)] else []
      | _ \<Rightarrow> []) @ accepted iter (rl_step iter r e) es"

definition rl_run :: "attempt_order \<Rightarrow> rate_limiter \<Rightarrow> rl_event list \<Rightarrow> rate_limiter" where
  "rl_run iter r es = foldl (rl_step iter) r es"

subsection \<open>The building blocks\<close>

definition rl_cutoff :: "rate_limiter \<Rightarrow> time \<Rightarrow> time" where
  "rl_cutoff r now = now + wrap64 (- rl_window r)"

definition recent :: "rate_limiter \<Rightarrow> time \<Rightarrow> string \<Rightarrow> time list" where
  "recent r now ip = dropWhile (\<lambda>t. t \<le> rl_cutoff r now) (attempts_of r ip)"

lemma first_valid_gen:
  "n = i + length ts \<Longrightarrow> (ts = [] \<Longrightarrow> valid = n) \<Longrightarrow>
     first_valid cutoff n i valid ts = i + length (takeWhile (\<lambda>t. t \<le> cutoff) ts)"
  by (induction cutoff n i valid ts rule: first_valid.induct) auto

lemma first_valid_eq:
  "first_valid cutoff (length ts) 0 0 ts = length (takeWhile (\<lambda>t. t \<le> cutoff) ts)"
  by (cases ts) (auto intro!: first_valid_gen [of _ 0, simplified] simp: first_valid_gen)

lemma clean_attempts_eq:
  "clean_attempts ip now r =
     (if recent r now ip = attempts_of r ip then r
      else r\<lparr>attempts := AList.update ip (recent r now ip) (attempts r)\<rparr>)"
proof -
  let ?ts = "attempts_of r ip" and ?P = "\<lambda>t. t \<le> now + wrap64 (- rl_window r)"
  have "drop (length (takeWhile ?P ?ts)) ?ts = dropWhile ?P ?ts"
    by (simp add: dropWhile_eq_drop)
  moreover have "dropWhile ?P ?ts = ?ts \<longleftrightarrow> takeWhile ?P ?ts = []"
    by (metis append_self_conv2 dropWhile_eq_self_iff takeWhile_dropWhile_id takeWhile_eq_Nil_iff)
  ultimately show ?thesis
    by (simp add: clean_attempts_def Let_def first_valid_eq recent_def rl_cutoff_def)
qed

lemma clean_attempts_frame [frame_simps, simp]:
  "rl_enabled (clean_attempts ip now r) = rl_enabled r"
  "maxAttempts (clean_attempts ip now r) = maxAttempts r"
  "rl_window (clean_attempts ip now r) = rl_window r"
  "blockDuration (clean_attempts ip now r) = blockDuration r"
  "blocked (clean_attempts ip now r) = blocked r"
  "globalCount (clean_attempts ip now r) = globalCount r"
  "globalWindow (clean_attempts ip now r) = globalWindow r"
  "rl_trusted (clean_attempts ip now r) = rl_trusted r"
  by (simp_all add: clean_attempts_eq)

lemma attempts_of_clean [simp]:
  "attempts_of (clean_attempts ip now r) ip' =
     (if ip' = ip then recent r now ip else attempts_of r ip')"
  by (auto simp: clean_attempts_eq attempts_of_def)

lemma attempts_of_upd [simp]:
  "attempts_of (r\<lparr>attempts := AList.update ip ts al\<rparr>) ip = ts"
  "attempts_of (r\<lparr>attempts := AList.delete ip al\<rparr>) ip = []"
  "attempts_of (r\<lparr>globalCount := n\<rparr>) = attempts_of r"
  "attempts_of (r\<lparr>blocked := bl\<rparr>) = attempts_of r"
  by (auto simp: attempts_of_def fun_eq_iff)

lemma attempts_of_absent: "ip \<notin> fst ` set (attempts r) \<Longrightarrow> attempts_of r ip = []"
  by (simp add: attempts_of_def map_of_eq_None_iff [THEN iffD2])

lemma recent_absent: "map_of (attempts r) ip = None \<Longrightarrow> recent r now ip = attempts_of r ip"
  by (simp add: recent_def attempts_of_def)

lemma keys_clean [simp]:
  "fst ` set (attempts (clean_attempts ip now r)) = fst ` set (attempts r)"
proof (cases "map_of (attempts r) ip")
  case None
  then show ?thesis by (simp add: clean_attempts_eq recent_absent)
next
  case (Some ts)
  then have "ip \<in> fst ` set (attempts r)" by (metis map_of_eq_None_iff option.distinct(1))
  then show ?thesis by (auto simp: clean_attempts_eq)
qed

lemma length_clean [simp]: "length (attempts (clean_attempts ip now r)) = length (attempts r)"
proof (cases "map_of (attempts r) ip")
  case None
  then show ?thesis by (simp add: clean_attempts_eq recent_absent)
next
  case (Some ts)
  then have "ip \<in> fst ` set (attempts r)" by (metis map_of_eq_None_iff option.distinct(1))
  then show ?thesis by (simp add: clean_attempts_eq length_update)
qed

lemma distinct_clean [simp]:
  "distinct (map fst (attempts r)) \<Longrightarrow> distinct (map fst (attempts (clean_attempts ip now r)))"
  by (simp add: clean_attempts_eq)

text \<open>The eviction deletes one of the keys it is shown.\<close>

lemma oldest_ip_mem:
  "oldest_ip acc xs = Some ip \<Longrightarrow> ip \<in> fst ` set xs \<or> (\<exists>t. acc = Some (ip, t))"
proof (induction acc xs rule: oldest_ip.induct)
  case (2 acc k ts rest)
  then show ?case by (cases acc) (fastforce split: if_splits)+
qed (auto split: if_splits option.splits)

lemma oldest_ip_some:
  "\<forall>k \<in> fst ` set xs. k \<noteq> [] \<Longrightarrow> (\<forall>k t. acc = Some (k, t) \<longrightarrow> k \<noteq> []) \<Longrightarrow>
     xs \<noteq> [] \<or> acc \<noteq> None \<Longrightarrow> oldest_ip acc xs \<noteq> None"
  by (induction acc xs rule: oldest_ip.induct) (auto split: option.splits)

lemma evict_oldest_frame [frame_simps, simp]:
  "rl_enabled (evict_oldest iter r) = rl_enabled r"
  "maxAttempts (evict_oldest iter r) = maxAttempts r"
  "rl_window (evict_oldest iter r) = rl_window r"
  "blockDuration (evict_oldest iter r) = blockDuration r"
  "blocked (evict_oldest iter r) = blocked r"
  "globalCount (evict_oldest iter r) = globalCount r"
  "globalWindow (evict_oldest iter r) = globalWindow r"
  "rl_trusted (evict_oldest iter r) = rl_trusted r"
  by (simp_all add: evict_oldest_def split: option.splits)

lemma evict_oldest_attempts:
  "attempts (evict_oldest iter r) = attempts r
     \<or> (\<exists>ip. attempts (evict_oldest iter r) = AList.delete ip (attempts r))"
  by (auto simp: evict_oldest_def split: option.splits)

lemma evict_oldest_length:
  assumes "mset (iter (attempts r)) = mset (attempts r)" and "attempts r \<noteq> []"
    and "[] \<notin> fst ` set (attempts r)" and "distinct (map fst (attempts r))"
  shows "Suc (length (attempts (evict_oldest iter r))) = length (attempts r)"
proof -
  have s: "set (iter (attempts r)) = set (attempts r)"
    using assms(1) by (metis set_mset_mset)
  have "iter (attempts r) \<noteq> []"
    using assms(1,2) by (metis mset.simps(1) mset_zero_iff_right)
  then have "oldest_ip None (iter (attempts r)) \<noteq> None"
    using assms(3) s by (intro oldest_ip_some) force+
  then obtain ip where ip: "oldest_ip None (iter (attempts r)) = Some ip" by auto
  then have "ip \<in> fst ` set (attempts r)" using oldest_ip_mem s by fastforce
  with ip assms(4) show ?thesis by (simp add: evict_oldest_def length_delete_present)
qed

lemma make_room_frame [frame_simps, simp]:
  "rl_enabled (make_room iter ip r) = rl_enabled r"
  "maxAttempts (make_room iter ip r) = maxAttempts r"
  "rl_window (make_room iter ip r) = rl_window r"
  "blockDuration (make_room iter ip r) = blockDuration r"
  "blocked (make_room iter ip r) = blocked r"
  "globalCount (make_room iter ip r) = globalCount r"
  "globalWindow (make_room iter ip r) = globalWindow r"
  "rl_trusted (make_room iter ip r) = rl_trusted r"
  by (simp_all add: make_room_def)

lemma make_room_small: "length (attempts r) < maxTrackedIPs \<Longrightarrow> make_room iter ip r = r"
  by (simp add: make_room_def)

lemma make_room_other:
  "attempts_of (make_room iter ip r) ip' = attempts_of r ip' \<or> attempts_of (make_room iter ip r) ip' = []"
  using evict_oldest_attempts [of iter r] by (auto simp: make_room_def attempts_of_def)

text \<open>Making room never touches the attempts of the address being decided.\<close>

lemma make_room_self: "attempts_of (make_room iter ip r) ip = attempts_of r ip"
  using make_room_other [of iter ip r ip] by (auto simp: make_room_def attempts_of_def)

lemma make_room_keys: "fst ` set (attempts (make_room iter ip r)) \<subseteq> fst ` set (attempts r)"
  using evict_oldest_attempts [of iter r]
proof
  assume "attempts (evict_oldest iter r) = attempts r"
  then show ?thesis by (simp add: make_room_def)
next
  assume "\<exists>k. attempts (evict_oldest iter r) = AList.delete k (attempts r)"
  then obtain k where "attempts (evict_oldest iter r) = AList.delete k (attempts r)" ..
  then have "fst ` set (attempts (evict_oldest iter r)) \<subseteq> fst ` set (attempts r)" by auto
  then show ?thesis by (simp add: make_room_def)
qed

lemma make_room_distinct:
  "distinct (map fst (attempts r)) \<Longrightarrow> distinct (map fst (attempts (make_room iter ip r)))"
  using evict_oldest_attempts [of iter r] by (auto simp: make_room_def)

subsection \<open>One decision\<close>

lemma count_attempt_decision:
  "fst (count_attempt iter now ip r) \<longleftrightarrow> int (length (recent r now ip)) < maxAttempts r"
  by (auto simp: count_attempt_def Let_def make_room_self)

lemma count_attempt_frame [frame_simps, simp]:
  "rl_enabled (snd (count_attempt iter now ip r)) = rl_enabled r"
  "maxAttempts (snd (count_attempt iter now ip r)) = maxAttempts r"
  "rl_window (snd (count_attempt iter now ip r)) = rl_window r"
  "blockDuration (snd (count_attempt iter now ip r)) = blockDuration r"
  "globalWindow (snd (count_attempt iter now ip r)) = globalWindow r"
  "rl_trusted (snd (count_attempt iter now ip r)) = rl_trusted r"
  by (simp_all add: count_attempt_def Let_def)

lemma count_attempt_effect:
  "fst (count_attempt iter now ip r) \<Longrightarrow>
     attempts_of (snd (count_attempt iter now ip r)) ip = recent r now ip @ [now]
     \<and> blocked (snd (count_attempt iter now ip r)) = blocked r
     \<and> globalCount (snd (count_attempt iter now ip r)) = globalCount r + 1"
  "\<not> fst (count_attempt iter now ip r) \<Longrightarrow>
     attempts_of (snd (count_attempt iter now ip r)) ip = []
     \<and> blocked (snd (count_attempt iter now ip r)) = AList.update ip (now + blockDuration r) (blocked r)
     \<and> globalCount (snd (count_attempt iter now ip r)) = globalCount r"
  by (auto simp: count_attempt_def Let_def make_room_self split: if_splits)

lemma count_attempt_other:
  "ip' \<noteq> ip \<Longrightarrow> length (attempts r) < maxTrackedIPs \<Longrightarrow>
     attempts_of (snd (count_attempt iter now ip r)) ip' = attempts_of r ip'"
  by (auto simp: count_attempt_def Let_def make_room_small)
    (auto simp: attempts_of_def clean_attempts_eq)

lemma count_attempt_keys:
  "fst ` set (attempts (snd (count_attempt iter now ip r))) \<subseteq> insert ip (fst ` set (attempts r))"
proof -
  let ?r1 = "make_room iter ip (clean_attempts ip now r)"
  have "fst ` set (attempts ?r1) \<subseteq> fst ` set (attempts r)"
    using make_room_keys [of iter ip "clean_attempts ip now r"] by simp
  moreover have "fst ` set (attempts (snd (count_attempt iter now ip r)))
      \<in> {insert ip (fst ` set (attempts ?r1)), fst ` set (attempts ?r1) - {ip}}"
    unfolding count_attempt_def Let_def by (cases "maxAttempts ?r1 \<le> int (length (attempts_of ?r1 ip))")
      (simp_all del: make_room_frame)
  ultimately show ?thesis by blast
qed

lemma count_attempt_distinct:
  "distinct (map fst (attempts r)) \<Longrightarrow>
     distinct (map fst (attempts (snd (count_attempt iter now ip r))))"
  by (simp add: count_attempt_def Let_def make_room_distinct)

text \<open>
  The branches of \<open>Allow\<close> as one lemma: what is decided and what the new state is, with the
  per-IP machinery run on a state \<open>r0\<close> whose block on the address, if any, has expired.
\<close>

definition admitted_block :: "time \<Rightarrow> string \<Rightarrow> rate_limiter \<Rightarrow> bool" where
  "admitted_block now ip r \<longleftrightarrow> (\<forall>u. map_of (blocked r) ip = Some u \<longrightarrow> u \<le> now)"

lemma roll_window_frame [frame_simps, simp]:
  "rl_enabled (roll_window now r) = rl_enabled r"
  "maxAttempts (roll_window now r) = maxAttempts r"
  "rl_window (roll_window now r) = rl_window r"
  "blockDuration (roll_window now r) = blockDuration r"
  "attempts (roll_window now r) = attempts r"
  "blocked (roll_window now r) = blocked r"
  "rl_trusted (roll_window now r) = rl_trusted r"
  by (simp_all add: roll_window_def)

lemma expire_block_frame [frame_simps, simp]:
  "rl_enabled (expire_block ip r) = rl_enabled r"
  "maxAttempts (expire_block ip r) = maxAttempts r"
  "rl_window (expire_block ip r) = rl_window r"
  "blockDuration (expire_block ip r) = blockDuration r"
  "attempts (expire_block ip r) = attempts r"
  "blocked (expire_block ip r) = AList.delete ip (blocked r)"
  "globalCount (expire_block ip r) = globalCount r"
  "globalWindow (expire_block ip r) = globalWindow r"
  "rl_trusted (expire_block ip r) = rl_trusted r"
  by (simp_all add: expire_block_def)

lemma attempts_of_cong: "attempts r = attempts r' \<Longrightarrow> attempts_of r = attempts_of r'"
  by (simp add: attempts_of_def fun_eq_iff)

lemma recent_cong:
  "attempts r = attempts r' \<Longrightarrow> rl_window r = rl_window r' \<Longrightarrow> recent r = recent r'"
  by (simp add: recent_def attempts_of_def rl_cutoff_def fun_eq_iff)

lemma allow_cases:
  obtains (off) "\<not> rl_enabled r" "allow iter now ip r = (True, r)"
  | (full) "rl_enabled r" "globalMaxRate \<le> globalCount (roll_window now r)"
      "allow iter now ip r = (False, roll_window now r)"
  | (trusted) "rl_enabled r" "globalCount (roll_window now r) < globalMaxRate"
      "trusted_has (rl_trusted r) ip"
      "allow iter now ip r
         = (True, (roll_window now r)\<lparr>globalCount := globalCount (roll_window now r) + 1\<rparr>)"
  | (blocked) u where "rl_enabled r" "map_of (blocked r) ip = Some u" "now < u"
      "allow iter now ip r = (False, roll_window now r)"
  | (counted) "rl_enabled r" "globalCount (roll_window now r) < globalMaxRate"
      "\<not> trusted_has (rl_trusted r) ip" "admitted_block now ip r"
      "allow iter now ip r = count_attempt iter now ip (expire_block ip (roll_window now r))"
proof -
  have del: "AList.delete ip (blocked r) = blocked r" if "map_of (blocked r) ip = None"
    using that by (force simp: AList.delete_eq filter_id_conv map_of_eq_None_iff)
  then have "expire_block ip (roll_window now r) = roll_window now r"
    if "map_of (blocked r) ip = None"
    using that by (simp add: expire_block_def)
  then have counted_eq: "allow iter now ip r = count_attempt iter now ip (expire_block ip (roll_window now r))"
    if "rl_enabled r" "\<not> globalMaxRate \<le> globalCount (roll_window now r)"
      "\<not> trusted_has (rl_trusted r) ip" "admitted_block now ip r"
    using that
    by (auto simp: allow_def Let_def admitted_block_def split: option.split)
  consider (a) "\<not> rl_enabled r"
    | (b) "rl_enabled r" "globalMaxRate \<le> globalCount (roll_window now r)"
    | (c) "rl_enabled r" "globalCount (roll_window now r) < globalMaxRate" "trusted_has (rl_trusted r) ip"
    | (d) u where "rl_enabled r" "globalCount (roll_window now r) < globalMaxRate"
        "\<not> trusted_has (rl_trusted r) ip" "map_of (blocked r) ip = Some u" "now < u"
    | (e) "rl_enabled r" "globalCount (roll_window now r) < globalMaxRate"
        "\<not> trusted_has (rl_trusted r) ip" "admitted_block now ip r"
    unfolding admitted_block_def by (meson not_less)
  then show thesis
  proof cases
    case a
    then show ?thesis by (intro off) (simp_all add: allow_def)
  next
    case b
    then show ?thesis by (intro full) (simp_all add: allow_def Let_def)
  next
    case c
    then show ?thesis by (intro trusted) (simp_all add: allow_def Let_def)
  next
    case d
    then show ?thesis by (intro blocked [of u]) (simp_all add: allow_def Let_def)
  next
    case e
    then show ?thesis by (intro counted) (simp_all add: counted_eq)
  qed
qed

subsection \<open>The size of the attempt map\<close>

definition rl_inv :: "rate_limiter \<Rightarrow> bool" where
  "rl_inv r \<longleftrightarrow> distinct (map fst (attempts r)) \<and> [] \<notin> fst ` set (attempts r)
     \<and> length (attempts r) \<le> maxTrackedIPs \<and> 0 \<le> globalCount r \<and> globalCount r \<le> globalMaxRate"

definition permutes_entries :: "attempt_order \<Rightarrow> bool" where
  "permutes_entries iter \<longleftrightarrow> (\<forall>xs. mset (iter xs) = mset xs)"

definition names_caller :: "rl_event \<Rightarrow> bool" where
  "names_caller e = (case e of Attempt ip _ \<Rightarrow> ip \<noteq> [] | _ \<Rightarrow> True)"

lemma count_attempt_length:
  assumes "permutes_entries iter" and "distinct (map fst (attempts r))"
    and "[] \<notin> fst ` set (attempts r)" and "length (attempts r) \<le> maxTrackedIPs"
  shows "length (attempts (snd (count_attempt iter now ip r))) \<le> maxTrackedIPs"
proof -
  let ?c = "clean_attempts ip now r" and ?r1 = "make_room iter ip (clean_attempts ip now r)"
  have room: "length (attempts ?r1) < maxTrackedIPs
      \<or> (length (attempts ?r1) \<le> maxTrackedIPs \<and> ip \<in> fst ` set (attempts ?r1))"
  proof (cases "maxTrackedIPs \<le> length (attempts ?c) \<and> map_of (attempts ?c) ip = None")
    case True
    then have "0 < length (attempts ?c)" unfolding maxTrackedIPs_def by linarith
    then have ne: "attempts ?c \<noteq> []" by blast
    have "Suc (length (attempts (evict_oldest iter ?c))) = length (attempts ?c)"
      using assms ne by (intro evict_oldest_length) (simp_all add: permutes_entries_def)
    with True assms(4) show ?thesis by (simp add: make_room_def)
  next
    case False
    then show ?thesis using assms(4)
      by (auto simp: make_room_def map_of_eq_None_iff not_le)
  qed
  have "length (AList.update ip ts (attempts ?r1)) \<le> maxTrackedIPs" for ts
    using room by (auto simp: length_update)
  moreover have "length (AList.delete ip (attempts ?r1)) \<le> maxTrackedIPs"
    using room length_delete_le [of ip "attempts ?r1"] by linarith
  ultimately show ?thesis by (simp add: count_attempt_def Let_def)
qed

lemma count_attempt_globalCount:
  "globalCount (snd (count_attempt iter now ip r)) \<in> {globalCount r, globalCount r + 1}"
  by (simp add: count_attempt_def Let_def)

lemma rl_inv_allow:
  assumes "permutes_entries iter" and "rl_inv r" and "ip \<noteq> []"
  shows "rl_inv (snd (allow iter now ip r))"
proof -
  have gm: "(0 :: int) \<le> globalMaxRate" by (simp add: globalMaxRate_def)
  then have roll: "rl_inv (roll_window now r)" using assms(2) by (auto simp: rl_inv_def roll_window_def)
  show ?thesis
  proof (cases rule: allow_cases [of r iter now ip])
    case counted
    let ?r0 = "expire_block ip (roll_window now r)"
    have "length (attempts (snd (count_attempt iter now ip ?r0))) \<le> maxTrackedIPs"
      using assms by (intro count_attempt_length) (simp_all add: rl_inv_def)
    moreover have "[] \<notin> fst ` set (attempts (snd (count_attempt iter now ip ?r0)))"
      using count_attempt_keys [of iter now ip ?r0] assms(2,3) by (auto simp: rl_inv_def)
    moreover have "0 \<le> globalCount ?r0" using roll by (simp add: rl_inv_def)
    moreover have "distinct (map fst (attempts ?r0))" using assms(2) by (simp add: rl_inv_def)
    ultimately show ?thesis
      using counted count_attempt_globalCount [of iter now ip ?r0]
        count_attempt_distinct [of ?r0 iter now ip]
      by (auto simp: rl_inv_def)
  qed (use assms roll in \<open>auto simp: rl_inv_def\<close>)
qed

lemma rl_inv_tick: "rl_inv r \<Longrightarrow> rl_inv (cleanup_tick now r)"
proof -
  assume inv: "rl_inv r"
  let ?f = "\<lambda>(ip, ts). (ip :: string, filter (\<lambda>t. now + wrap64 (- rl_window r) < t) ts)"
  have keys: "map fst (map ?f (attempts r)) = map fst (attempts r)" by (simp add: split_beta)
  have al: "attempts (cleanup_tick now r) = filter (\<lambda>(ip, ts). ts \<noteq> []) (map ?f (attempts r))"
    by (simp add: cleanup_tick_def Let_def)
  have "distinct (map fst (attempts (cleanup_tick now r)))"
    unfolding al using inv keys by (intro distinct_map_filter) (simp only: rl_inv_def)
  moreover have "fst ` set (attempts (cleanup_tick now r)) \<subseteq> fst ` set (attempts r)"
    unfolding al by force
  moreover have "length (attempts (cleanup_tick now r)) \<le> length (attempts r)"
    unfolding al using length_filter_le [of "\<lambda>(ip, ts). ts \<noteq> []" "map ?f (attempts r)"] by simp
  moreover have "globalCount (cleanup_tick now r) = globalCount r"
    by (simp add: cleanup_tick_def Let_def)
  ultimately show ?thesis using inv unfolding rl_inv_def by auto
qed

lemma rl_inv_step [inv_intros]:
  "permutes_entries iter \<Longrightarrow> rl_inv r \<Longrightarrow> names_caller e \<Longrightarrow> rl_inv (rl_step iter r e)"
  by (cases e) (simp_all add: rl_inv_allow rl_inv_tick names_caller_def,
    simp_all add: rl_inv_def rl_set_limits_def rl_set_trusted_def)

interpretation limiter_runs: run_system "rl_step iter" "rl_run iter" for iter
  by unfold_locales (simp_all add: rl_run_def)

lemma rl_inv_run:
  "permutes_entries iter \<Longrightarrow> rl_inv r \<Longrightarrow> list_all names_caller es \<Longrightarrow> rl_inv (rl_run iter r es)"
  by (rule limiter_runs.run_keeps_if) (auto intro: inv_intros)

lemma rl_inv_new [inv_intros]: "rl_inv (new_rate_limiter enabled m w b now)"
  by (simp add: rl_inv_def new_rate_limiter_def globalMaxRate_def)

subsection \<open>Blocks\<close>

text \<open>An event that leaves a block on \<open>ip\<close> that runs until \<open>u\<close> alone.\<close>

definition before_expiry :: "string \<Rightarrow> time \<Rightarrow> rl_event \<Rightarrow> bool" where
  "before_expiry ip u e =
     (case e of
        Attempt _ t \<Rightarrow> t < u
      | Tick t \<Rightarrow> t \<le> u
      | Limits enabled _ _ _ \<Rightarrow> enabled
      | Trust nets \<Rightarrow> \<not> trusted_has nets ip)"

definition blocked_until :: "string \<Rightarrow> time \<Rightarrow> rate_limiter \<Rightarrow> bool" where
  "blocked_until ip u r \<longleftrightarrow>
     rl_enabled r \<and> \<not> trusted_has (rl_trusted r) ip \<and> map_of (blocked r) ip = Some u"

lemma map_of_filter_keep:
  "map_of al k = Some v \<Longrightarrow> P (k, v) \<Longrightarrow> map_of (filter P al) k = Some v"
  by (induction al) (auto split: if_splits)

lemma blocked_until_denies:
  "blocked_until ip u r \<Longrightarrow> now < u \<Longrightarrow> \<not> fst (allow iter now ip r)"
  by (simp add: blocked_until_def allow_def Let_def)

lemma blocked_until_step:
  assumes "blocked_until ip u r" and "before_expiry ip u e"
  shows "blocked_until ip u (rl_step iter r e)"
proof (cases e)
  case (Attempt ip' now)
  from assms have b: "rl_enabled r" "\<not> trusted_has (rl_trusted r) ip" "map_of (blocked r) ip = Some u"
    by (simp_all add: blocked_until_def)
  have "blocked_until ip u (snd (allow iter now ip' r))"
  proof (cases rule: allow_cases [of r iter now ip'])
    case counted
    then have "ip' \<noteq> ip" using b(3) assms(2) Attempt
      by (auto simp: admitted_block_def before_expiry_def)
    then show ?thesis using b counted
      by (cases "fst (allow iter now ip' r)")
        (simp_all add: blocked_until_def count_attempt_effect)
  qed (use b in \<open>simp_all add: blocked_until_def\<close>)
  with Attempt show ?thesis by simp
next
  case (Tick now)
  then show ?thesis using assms
    by (auto simp: blocked_until_def cleanup_tick_def Let_def before_expiry_def
        intro: map_of_filter_keep)
qed (use assms in \<open>simp_all add: blocked_until_def before_expiry_def rl_set_limits_def rl_set_trusted_def\<close>)

lemma blocked_until_run:
  "blocked_until ip u r \<Longrightarrow> list_all (before_expiry ip u) es \<Longrightarrow>
     ip \<notin> fst ` set (accepted iter r es)"
proof (induction es arbitrary: r)
  case (Cons e es)
  have "ip \<notin> fst ` set (accepted iter (rl_step iter r e) es)"
    using Cons.prems blocked_until_step by (intro Cons.IH) auto
  moreover have "\<not> fst (allow iter now ip r)" if "e = Attempt ip now" for now
    using that Cons.prems blocked_until_denies by (auto simp: before_expiry_def)
  ultimately show ?case by (auto split: rl_event.splits)
qed simp

end
