(* ===== verification/RateHistories.thy ===== *)
theory RateHistories
  imports RateLimiter
begin

section \<open>What the rate limiter guarantees over a history\<close>

text \<open>
  The promise of the limiter is about sequences of attempts, so it is stated over histories: at
  most \<open>maxAttempts\<close> acceptances of an address in any window, at most \<open>globalMaxRate\<close> in all, and
  a cleanup goroutine nobody can observe. The clock does not run backwards (Go's monotonic clock).
\<close>

fun clocked :: "time \<Rightarrow> rl_event list \<Rightarrow> bool" where
  "clocked T [] = True"
| "clocked T (Attempt ip t # es) = (T \<le> t \<and> clocked t es)"
| "clocked T (Tick t # es) = (T \<le> t \<and> clocked t es)"
| "clocked T (Limits enabled maxAtt window block # es) = clocked T es"
| "clocked T (Trust nets # es) = clocked T es"

definition fixed_limits :: "rl_event \<Rightarrow> bool" where
  "fixed_limits e = (case e of Limits _ _ _ _ \<Rightarrow> False | _ \<Rightarrow> True)"

text \<open>A reload of the limits that leaves them as they are.\<close>

definition same_limits :: "int \<Rightarrow> duration \<Rightarrow> duration \<Rightarrow> rl_event \<Rightarrow> bool" where
  "same_limits m w b e =
     (case e of Limits enabled maxAtt window block \<Rightarrow> enabled \<and> maxAtt = m \<and> window = w \<and> block = b | _ \<Rightarrow> True)"

definition never_trusts :: "string \<Rightarrow> rl_event \<Rightarrow> bool" where
  "never_trusts ip e = (case e of Trust nets \<Rightarrow> \<not> trusted_has nets ip | _ \<Rightarrow> True)"

fun callers :: "rl_event list \<Rightarrow> string set" where
  "callers [] = {}"
| "callers (Attempt ip t # es) = insert ip (callers es)"
| "callers (e # es) = callers es"

definition times_of :: "string \<Rightarrow> (string \<times> time) list \<Rightarrow> time list" where
  "times_of ip h = map snd (filter (\<lambda>p. fst p = ip) h)"

definition in_window :: "duration \<Rightarrow> time \<Rightarrow> time list \<Rightarrow> time list" where
  "in_window w t ts = filter (\<lambda>s. t - w < s \<and> s \<le> t) ts"

lemma times_of_simps [simp]:
  "times_of ip [] = []"
  "times_of ip ((ip', t) # h) = (if ip' = ip then [t] else []) @ times_of ip h"
  "times_of ip (h @ h') = times_of ip h @ times_of ip h'"
  by (simp_all add: times_of_def)

lemma in_window_append: "in_window w t (xs @ ys) = in_window w t xs @ in_window w t ys"
  by (simp add: in_window_def)

lemma finite_callers [simp]: "finite (callers es)"
  by (induction es rule: callers.induct) auto

subsection \<open>The sliding window\<close>

text \<open>
  The state of one address against the times \<open>H\<close> at which it was let in: what the limiter has
  forgotten of \<open>H\<close> is older than the window, or was forgotten when the address was blocked and
  will be older than the window when the block ends.
\<close>

definition tracks :: "rate_limiter \<Rightarrow> string \<Rightarrow> duration \<Rightarrow> time \<Rightarrow> time list \<Rightarrow> bool" where
  "tracks r ip w T H \<longleftrightarrow>
     (\<exists>P. H = P @ attempts_of r ip
        \<and> (\<forall>p \<in> set P. p + w \<le> T \<or> (\<exists>u. map_of (blocked r) ip = Some u \<and> p + w \<le> u)))
     \<and> sorted H \<and> (\<forall>s \<in> set H. s \<le> T)"

lemma tracksI:
  assumes "H = P @ attempts_of r ip"
    and "\<And>p. p \<in> set P \<Longrightarrow> p + w \<le> T \<or> (\<exists>u. map_of (blocked r) ip = Some u \<and> p + w \<le> u)"
    and "sorted H" and "\<And>s. s \<in> set H \<Longrightarrow> s \<le> T"
  shows "tracks r ip w T H"
  using assms unfolding tracks_def by blast

lemma tracksE:
  assumes "tracks r ip w T H"
  obtains P where "H = P @ attempts_of r ip"
    and "\<And>p. p \<in> set P \<Longrightarrow> p + w \<le> T \<or> (\<exists>u. map_of (blocked r) ip = Some u \<and> p + w \<le> u)"
    and "sorted H" and "\<And>s. s \<in> set H \<Longrightarrow> s \<le> T"
  using assms unfolding tracks_def by blast

definition limits_are :: "int \<Rightarrow> duration \<Rightarrow> duration \<Rightarrow> rate_limiter \<Rightarrow> bool" where
  "limits_are m w b r \<longleftrightarrow> rl_enabled r \<and> maxAttempts r = m \<and> rl_window r = w \<and> blockDuration r = b"

lemma allow_limits [simp]:
  "limits_are m w b (snd (allow iter now ip r)) = limits_are m w b r"
  by (cases rule: allow_cases [of r iter now ip]) (simp_all add: limits_are_def)

lemma step_limits:
  "same_limits m w b e \<Longrightarrow> limits_are m w b r \<Longrightarrow> limits_are m w b (rl_step iter r e)"
  by (cases e) (simp_all add: same_limits_def rl_set_limits_def,
    simp_all add: limits_are_def cleanup_tick_def Let_def rl_set_trusted_def)

lemma cutoff_eq:
  assumes "limits_are m w b r" and "0 \<le> w" and "w \<le> max_int64"
  shows "rl_cutoff r now = now - w"
proof -
  have "wrap64 (- w) = - w"
    using assms by (intro wrap64_id) (simp_all add: min_int64_def max_int64_def)
  with assms(1) show ?thesis by (simp add: rl_cutoff_def limits_are_def)
qed

lemma dropWhile_split:
  "\<exists>P. xs = P @ dropWhile Q xs \<and> (\<forall>x \<in> set P. Q x)"
  by (metis set_takeWhileD takeWhile_dropWhile_id)

lemma filter_dropWhile_sorted:
  fixes c :: int
  shows "sorted xs \<Longrightarrow> filter (\<lambda>t. c < t) xs = dropWhile (\<lambda>t. t \<le> c) xs"
proof (induction xs)
  case (Cons x xs)
  show ?case
  proof (cases "x \<le> c")
    case False
    then have "filter (\<lambda>t. c < t) xs = xs" using Cons.prems by (intro filter_True) auto
    with False show ?thesis by simp
  qed (use Cons in auto)
qed simp

lemma tracks_mono:
  assumes "tracks r ip w T H" and "T \<le> T'"
  shows "tracks r ip w T' H"
  using assms(1)
proof (rule tracksE)
  fix P
  assume P: "H = P @ attempts_of r ip" "sorted H" "\<And>s. s \<in> set H \<Longrightarrow> s \<le> T"
    "\<And>p. p \<in> set P \<Longrightarrow> p + w \<le> T \<or> (\<exists>u. map_of (blocked r) ip = Some u \<and> p + w \<le> u)"
  show ?thesis using P assms(2) by (intro tracksI [of _ P]) (auto intro: order_trans)
qed

lemma attempts_of_tick:
  assumes "distinct (map fst (attempts r))"
  shows "attempts_of (cleanup_tick now r) ip = filter (\<lambda>t. rl_cutoff r now < t) (attempts_of r ip)"
proof -
  let ?f = "\<lambda>(ip, ts). (ip :: string, filter (\<lambda>t. rl_cutoff r now < t) ts)"
  have al: "attempts (cleanup_tick now r) = filter (\<lambda>(ip, ts). ts \<noteq> []) (map ?f (attempts r))"
    by (simp add: cleanup_tick_def Let_def rl_cutoff_def)
  have gen: "(case map_of (filter (\<lambda>(ip, ts). ts \<noteq> []) (map ?f xs)) ip of Some ts \<Rightarrow> ts | None \<Rightarrow> [])
      = filter (\<lambda>t. rl_cutoff r now < t) (case map_of xs ip of Some ts \<Rightarrow> ts | None \<Rightarrow> [])"
    if "distinct (map fst xs)" for xs
    using that
  proof (induction xs)
    case (Cons x xs)
    have "fst x \<notin> fst ` set xs" using Cons.prems by simp
    then have "fst x \<notin> fst ` set (filter (\<lambda>(ip, ts). ts \<noteq> []) (map ?f xs))"
      by (auto simp: image_iff split_beta)
    then have "map_of (filter (\<lambda>(ip, ts). ts \<noteq> []) (map ?f xs)) (fst x) = None"
      by (simp only: map_of_eq_None_iff not_False_eq_True)
    with Cons show ?case by (cases x) (auto split: option.splits)
  qed simp
  show ?thesis using gen [OF assms] by (simp add: attempts_of_def al)
qed

lemma blocked_tick:
  "distinct (map fst (blocked r)) \<Longrightarrow>
     map_of (blocked (cleanup_tick now r)) ip =
       (case map_of (blocked r) ip of Some u \<Rightarrow> if u < now then None else Some u | None \<Rightarrow> None)"
proof -
  have gen: "map_of (filter (\<lambda>(ip, u). \<not> u < now) xs) ip =
       (case map_of xs ip of Some u \<Rightarrow> if u < now then None else Some u | None \<Rightarrow> None)"
    if "distinct (map fst xs)" for xs :: "(string \<times> time) list"
    using that
  proof (induction xs)
    case (Cons x xs)
    have "map_of (filter (\<lambda>(ip, u). \<not> u < now) xs) (fst x) = None"
      using Cons.prems by (force simp: map_of_eq_None_iff)
    with Cons show ?case by (cases x) auto
  qed simp
  assume "distinct (map fst (blocked r))"
  then show ?thesis using gen by (simp add: cleanup_tick_def Let_def)
qed

lemma tracks_tick:
  assumes t: "tracks r ip w T H" and "T \<le> now" and l: "limits_are m w b r" "0 \<le> w" "w \<le> max_int64"
    and d: "distinct (map fst (attempts r))" "distinct (map fst (blocked r))"
  shows "tracks (cleanup_tick now r) ip w now H"
proof -
  from t obtain P where P: "H = P @ attempts_of r ip"
    "\<And>p. p \<in> set P \<Longrightarrow> p + w \<le> T \<or> (\<exists>u. map_of (blocked r) ip = Some u \<and> p + w \<le> u)"
    "sorted H" "\<And>s. s \<in> set H \<Longrightarrow> s \<le> T"
    by (elim tracksE) blast
  have so: "sorted (attempts_of r ip)" using P(1,3) by (simp add: sorted_append)
  obtain Q where Q: "attempts_of r ip = Q @ dropWhile (\<lambda>t. t \<le> now - w) (attempts_of r ip)"
    "\<forall>q \<in> set Q. q \<le> now - w"
    using dropWhile_split by metis
  have a: "attempts_of (cleanup_tick now r) ip = dropWhile (\<lambda>t. t \<le> now - w) (attempts_of r ip)"
    using so by (simp add: attempts_of_tick d(1) cutoff_eq [OF l] filter_dropWhile_sorted)
  have "H = (P @ Q) @ attempts_of (cleanup_tick now r) ip" using P(1) Q(1) a by simp
  moreover have "p + w \<le> now \<or> (\<exists>u. map_of (blocked (cleanup_tick now r)) ip = Some u \<and> p + w \<le> u)"
    if "p \<in> set (P @ Q)" for p
  proof -
    from that consider "p \<in> set P" | "p \<in> set Q" by auto
    then show ?thesis
    proof cases
      case 1
      then consider "p + w \<le> T" | u where "map_of (blocked r) ip = Some u" "p + w \<le> u"
        using P(2) by blast
      then show ?thesis using \<open>T \<le> now\<close> by cases (auto simp: blocked_tick d(2))
    next
      case 2
      then show ?thesis using Q(2) by fastforce
    qed
  qed
  ultimately show ?thesis using P(3,4) \<open>T \<le> now\<close> by (intro tracksI [of _ "P @ Q"]) fastforce+
qed

lemma recent_split:
  obtains Q where "attempts_of r ip = Q @ recent r now ip" "\<And>q. q \<in> set Q \<Longrightarrow> q \<le> rl_cutoff r now"
  using dropWhile_split [of "attempts_of r ip" "\<lambda>t. t \<le> rl_cutoff r now"] by (auto simp: recent_def)

lemma attempts_of_roll [simp]: "attempts_of (expire_block ip (roll_window now r)) = attempts_of r"
  "attempts_of (roll_window now r) = attempts_of r"
  by (rule attempts_of_cong; simp)+

lemma recent_roll [simp]: "recent (expire_block ip (roll_window now r)) = recent r"
  by (rule recent_cong) simp_all

lemma tracks_same:
  "tracks r ip w T H \<Longrightarrow> attempts_of r' ip = attempts_of r ip \<Longrightarrow>
     map_of (blocked r') ip = map_of (blocked r) ip \<Longrightarrow> tracks r' ip w T H"
  by (simp add: tracks_def)

text \<open>Counting an attempt: what is forgotten is out of the window, and a new one fits in.\<close>

lemma allow_counted:
  assumes t: "tracks r ip w T H" and T: "T \<le> now" and l: "limits_are m w b r"
    and w: "0 \<le> w" "w \<le> max_int64" "w \<le> b"
    and blk: "admitted_block now ip r"
    and eq: "allow iter now ip r = count_attempt iter now ip (expire_block ip (roll_window now r))"
  shows "tracks (snd (allow iter now ip r)) ip w now
           (H @ (if fst (allow iter now ip r) then [now] else []))"
    and "fst (allow iter now ip r) \<Longrightarrow> \<forall>t. int (length (in_window w t H)) \<le> m \<Longrightarrow>
           int (length (in_window w t (H @ [now]))) \<le> m"
proof -
  let ?r0 = "expire_block ip (roll_window now r)"
  from t obtain P where P: "H = P @ attempts_of r ip"
    "\<And>p. p \<in> set P \<Longrightarrow> p + w \<le> T \<or> (\<exists>u. map_of (blocked r) ip = Some u \<and> p + w \<le> u)"
    "sorted H" "\<And>s. s \<in> set H \<Longrightarrow> s \<le> T"
    by (elim tracksE) blast
  obtain Q where Q: "attempts_of r ip = Q @ recent r now ip" "\<And>q. q \<in> set Q \<Longrightarrow> q \<le> rl_cutoff r now"
    using recent_split by blast
  have H: "H = (P @ Q) @ recent r now ip" using P(1) Q(1) by simp
  have old: "p + w \<le> now" if "p \<in> set (P @ Q)" for p
    using that P(2) Q(2) T blk cutoff_eq [OF l w(1,2), of now]
    unfolding admitted_block_def set_append by fastforce
  have le: "s \<le> now" if "s \<in> set H" for s using P(4) [OF that] T by simp
  have l0: "blockDuration ?r0 = b" "maxAttempts ?r0 = m" using l by (simp_all add: limits_are_def)
  show "tracks (snd (allow iter now ip r)) ip w now
           (H @ (if fst (allow iter now ip r) then [now] else []))"
  proof (cases "fst (allow iter now ip r)")
    case True
    then have "attempts_of (snd (allow iter now ip r)) ip = recent r now ip @ [now]"
      using count_attempt_effect(1) [of iter now ip ?r0] by (simp add: eq)
    with True show ?thesis using H P(3) le old
      by (intro tracksI [of _ "P @ Q"]) (auto simp: sorted_append)
  next
    case False
    then have e: "attempts_of (snd (allow iter now ip r)) ip = []"
      "map_of (blocked (snd (allow iter now ip r))) ip = Some (now + b)"
      using count_attempt_effect(2) [of iter now ip ?r0] l0 by (simp_all add: eq)
    have "p + w \<le> now + b" if "p \<in> set H" for p using le [OF that] w(3) by linarith
    with False e show ?thesis using P(3) le by (intro tracksI [of _ H]) auto
  qed
  show "int (length (in_window w t (H @ [now]))) \<le> m"
    if ok: "fst (allow iter now ip r)" and bound: "\<forall>t. int (length (in_window w t H)) \<le> m"
  proof (cases "t < now")
    case True
    then have "in_window w t [now] = []" by (simp add: in_window_def)
    with bound show ?thesis by (simp add: in_window_append)
  next
    case False
    have "in_window w t (P @ Q) = []"
      using old False by (fastforce simp: in_window_def filter_empty_conv)
    then have "length (in_window w t H) \<le> length (recent r now ip)"
      unfolding H in_window_append by (simp add: in_window_def)
    moreover have "int (length (recent r now ip)) < m"
      using ok l0 by (simp add: eq count_attempt_decision)
    moreover have "length (in_window w t (H @ [now])) \<le> length (in_window w t H) + 1"
      by (simp add: in_window_def)
    ultimately show ?thesis by linarith
  qed
qed

lemma allow_self:
  assumes t: "tracks r ip w T H" and T: "T \<le> now" and l: "limits_are m w b r"
    and w: "0 \<le> w" "w \<le> max_int64" "w \<le> b" and nt: "\<not> trusted_has (rl_trusted r) ip"
    and bound: "\<forall>t. int (length (in_window w t H)) \<le> m"
    and H': "H' = H @ (if fst (allow iter now ip r) then [now] else [])"
  shows "tracks (snd (allow iter now ip r)) ip w now H' \<and> (\<forall>t. int (length (in_window w t H')) \<le> m)"
proof (cases rule: allow_cases [of r iter now ip])
  case counted
  show ?thesis
    using allow_counted [OF t T l w counted(4,5)] bound
    by (cases "fst (allow iter now ip r)") (simp_all add: H')
qed (use assms tracks_same [OF tracks_mono [OF t T], of "roll_window now r"] in
      \<open>auto simp: limits_are_def\<close>)

lemma allow_other:
  assumes "ip' \<noteq> ip" and "length (attempts r) < maxTrackedIPs"
  shows "attempts_of (snd (allow iter now ip' r)) ip = attempts_of r ip"
    and "map_of (blocked (snd (allow iter now ip' r))) ip = map_of (blocked r) ip"
proof -
  have "attempts_of (snd (allow iter now ip' r)) ip = attempts_of r ip
      \<and> map_of (blocked (snd (allow iter now ip' r))) ip = map_of (blocked r) ip"
  proof (cases rule: allow_cases [of r iter now ip'])
    case counted
    let ?r0 = "expire_block ip' (roll_window now r)"
    have "attempts_of (snd (count_attempt iter now ip' ?r0)) ip = attempts_of r ip"
      using assms count_attempt_other [of ip ip' ?r0] by simp
    moreover have "map_of (blocked (snd (count_attempt iter now ip' ?r0))) ip = map_of (blocked r) ip"
      using assms(1) count_attempt_effect [of iter now ip' ?r0]
      by (cases "fst (count_attempt iter now ip' ?r0)") auto
    ultimately show ?thesis by (simp add: counted(5))
  qed simp_all
  then show "attempts_of (snd (allow iter now ip' r)) ip = attempts_of r ip"
    and "map_of (blocked (snd (allow iter now ip' r))) ip = map_of (blocked r) ip" by simp_all
qed

text \<open>Both maps keep their keys distinct, and only callers are tracked.\<close>

definition well_keyed :: "rate_limiter \<Rightarrow> string set \<Rightarrow> bool" where
  "well_keyed r K \<longleftrightarrow> distinct (map fst (attempts r)) \<and> distinct (map fst (blocked r))
     \<and> fst ` set (attempts r) \<subseteq> K"

lemma well_keyed_allow: "well_keyed r K \<Longrightarrow> well_keyed (snd (allow iter now ip r)) (insert ip K)"
proof (cases rule: allow_cases [of r iter now ip])
  case counted
  let ?r0 = "expire_block ip (roll_window now r)"
  assume "well_keyed r K"
  then have "distinct (map fst (attempts (snd (count_attempt iter now ip ?r0))))"
    and "fst ` set (attempts (snd (count_attempt iter now ip ?r0))) \<subseteq> insert ip K"
    using count_attempt_keys [of iter now ip ?r0] count_attempt_distinct [of ?r0 iter now ip]
    by (auto simp: well_keyed_def)
  moreover have "distinct (map fst (blocked (snd (count_attempt iter now ip ?r0))))"
    using \<open>well_keyed r K\<close> count_attempt_effect [of iter now ip ?r0]
    by (cases "fst (count_attempt iter now ip ?r0)") (auto simp: well_keyed_def)
  ultimately show ?thesis by (simp add: counted(5) well_keyed_def)
qed (auto simp: well_keyed_def)

lemma well_keyed_tick: "well_keyed r K \<Longrightarrow> well_keyed (cleanup_tick now r) K"
proof -
  assume k: "well_keyed r K"
  let ?f = "\<lambda>(ip, ts). (ip :: string, filter (\<lambda>t. now + wrap64 (- rl_window r) < t) ts)"
  have al: "attempts (cleanup_tick now r) = filter (\<lambda>(ip, ts). ts \<noteq> []) (map ?f (attempts r))"
    and bl: "blocked (cleanup_tick now r) = filter (\<lambda>(ip, u). \<not> u < now) (blocked r)"
    by (simp_all add: cleanup_tick_def Let_def)
  have keys: "map fst (map ?f (attempts r)) = map fst (attempts r)" by (simp add: split_beta)
  have "distinct (map fst (attempts (cleanup_tick now r)))"
    unfolding al using k keys by (intro distinct_map_filter) (simp only: well_keyed_def)
  moreover have "distinct (map fst (blocked (cleanup_tick now r)))"
    unfolding bl using k by (intro distinct_map_filter) (simp only: well_keyed_def)
  moreover have "fst ` set (attempts (cleanup_tick now r)) \<subseteq> fst ` set (attempts r)"
    unfolding al by force
  ultimately show ?thesis using k by (auto simp: well_keyed_def)
qed

lemma well_keyed_length:
  "well_keyed r K \<Longrightarrow> finite K \<Longrightarrow> card K < n \<Longrightarrow> length (attempts r) < n"
  unfolding well_keyed_def
  by (metis card_mono distinct_card le_less_trans length_map set_map)

lemma window_run:
  assumes "tracks r ip w T H" and "limits_are m w b r" and "0 \<le> w" "w \<le> max_int64" "w \<le> b"
    and "\<not> trusted_has (rl_trusted r) ip" and "\<forall>t. int (length (in_window w t H)) \<le> m"
    and "well_keyed r K" and "finite K" and "card (K \<union> callers es) < maxTrackedIPs"
    and "clocked T es" and "list_all (same_limits m w b) es" and "list_all (never_trusts ip) es"
  shows "int (length (in_window w t (H @ times_of ip (accepted iter r es)))) \<le> m"
  using assms
proof (induction es arbitrary: r T H K)
  case (Cons e es)
  have lim: "limits_are m w b (rl_step iter r e)" using Cons.prems(2,12) by (simp add: step_limits)
  show ?case
  proof (cases e)
    case (Attempt ip' now)
    let ?r' = "snd (allow iter now ip' r)"
    let ?H' = "H @ (if ip' = ip \<and> fst (allow iter now ip' r) then [now] else [])"
    have now: "T \<le> now" "clocked now es" using Cons.prems(11) Attempt by auto
    have k: "well_keyed ?r' (insert ip' K)" using Cons.prems(8) by (rule well_keyed_allow)
    have fin: "finite (K \<union> callers es)" using Cons.prems(9) by simp
    have card: "card (insert ip' K \<union> callers es) < maxTrackedIPs"
      using Cons.prems(10) Attempt by simp
    have cardK: "card K < maxTrackedIPs"
      using card card_mono [of "insert ip' K \<union> callers es" K] Cons.prems(9) by fastforce
    have len: "length (attempts r) < maxTrackedIPs"
      using Cons.prems(8,9) cardK by (rule well_keyed_length)
    have tr: "rl_trusted ?r' = rl_trusted r"
      by (cases rule: allow_cases [of r iter now ip']) simp_all
    have "tracks ?r' ip w now ?H' \<and> (\<forall>t. int (length (in_window w t ?H')) \<le> m)"
    proof (cases "ip' = ip")
      case True
      then show ?thesis
        using allow_self [OF Cons.prems(1) now(1) Cons.prems(2-7) refl, of iter] by simp
    next
      case False
      then have "tracks ?r' ip w now H"
        using allow_other [OF False len] tracks_mono [OF Cons.prems(1) now(1)]
        by (auto intro: tracks_same)
      with False Cons.prems(7) show ?thesis by simp
    qed
    then have "int (length (in_window w t (?H' @ times_of ip (accepted iter ?r' es)))) \<le> m"
      using Cons.prems now k card tr lim Attempt by (intro Cons.IH [where K = "insert ip' K"]) auto
    moreover have "?H' @ times_of ip (accepted iter ?r' es) = H @ times_of ip (accepted iter r (e # es))"
      by (simp add: Attempt)
    ultimately show ?thesis by simp
  next
    case (Tick now)
    have "tracks (cleanup_tick now r) ip w now H"
      using Cons.prems Tick by (intro tracks_tick) (auto simp: well_keyed_def)
    moreover have "rl_trusted (cleanup_tick now r) = rl_trusted r" by (simp add: cleanup_tick_def Let_def)
    moreover have "well_keyed (cleanup_tick now r) K" using Cons.prems(8) by (rule well_keyed_tick)
    ultimately have "int (length (in_window w t (H @ times_of ip (accepted iter (cleanup_tick now r) es)))) \<le> m"
      using Cons.prems Tick lim by (intro Cons.IH [where K = K and T = now]) auto
    then show ?thesis by (simp add: Tick)
  next
    case (Limits enabled maxAtt window block)
    then have "rl_step iter r e = r"
      using Cons.prems by (simp add: same_limits_def limits_are_def rl_set_limits_def)
    moreover have "int (length (in_window w t (H @ times_of ip (accepted iter r es)))) \<le> m"
      using Cons.prems Limits by (intro Cons.IH [where K = K and T = T]) auto
    ultimately show ?thesis by (simp add: Limits)
  next
    case (Trust nets)
    have "tracks (rl_set_trusted nets r) ip w T H"
      using Cons.prems(1) by (rule tracks_same) (simp_all add: rl_set_trusted_def attempts_of_def)
    moreover have "\<not> trusted_has (rl_trusted (rl_set_trusted nets r)) ip"
      using Cons.prems Trust by (simp add: rl_set_trusted_def never_trusts_def)
    moreover have "well_keyed (rl_set_trusted nets r) K"
      using Cons.prems(8) by (simp add: well_keyed_def rl_set_trusted_def)
    ultimately have "int (length (in_window w t (H @ times_of ip (accepted iter (rl_set_trusted nets r) es)))) \<le> m"
      using Cons.prems Trust lim by (intro Cons.IH [where K = K and T = T]) auto
    then show ?thesis by (simp add: Trust)
  qed
qed simp

subsection \<open>The global ceiling\<close>

text \<open>An event inside the global window that began at \<open>g\<close>: it does not roll the window over.\<close>

definition inside_window :: "time \<Rightarrow> duration \<Rightarrow> rl_event \<Rightarrow> bool" where
  "inside_window g w e =
     (case e of
        Attempt _ t \<Rightarrow> time_sub t g \<le> w
      | Limits enabled _ window _ \<Rightarrow> enabled \<and> window = w
      | _ \<Rightarrow> True)"

lemma roll_inside: "time_sub now (globalWindow r) \<le> rl_window r \<Longrightarrow> roll_window now r = r"
  by (simp add: roll_window_def)

lemma allow_globalCount:
  assumes "rl_enabled r" and "time_sub now (globalWindow r) \<le> rl_window r"
    and "globalCount r \<le> globalMaxRate"
  shows "globalCount (snd (allow iter now ip r)) = globalCount r + (if fst (allow iter now ip r) then 1 else 0)
     \<and> globalCount (snd (allow iter now ip r)) \<le> globalMaxRate
     \<and> globalWindow (snd (allow iter now ip r)) = globalWindow r
     \<and> rl_window (snd (allow iter now ip r)) = rl_window r \<and> rl_enabled (snd (allow iter now ip r))"
proof (cases rule: allow_cases [of r iter now ip])
  case counted
  have e: "allow iter now ip r = count_attempt iter now ip (expire_block ip r)"
    using counted(5) assms(2) by (simp add: roll_inside)
  show ?thesis
    using counted(2) assms count_attempt_effect [of iter now ip "expire_block ip r"]
    by (cases "fst (allow iter now ip r)") (simp_all add: e roll_inside)
qed (use assms in \<open>simp_all add: roll_inside\<close>)

lemma quiet_step_globals:
  assumes "\<And>ip now. e \<noteq> Attempt ip now" and "inside_window (globalWindow r) (rl_window r) e"
    and "rl_enabled r"
  shows "globalCount (rl_step iter r e) = globalCount r \<and> rl_enabled (rl_step iter r e)
     \<and> globalWindow (rl_step iter r e) = globalWindow r \<and> rl_window (rl_step iter r e) = rl_window r"
  using assms
  by (cases e) (auto simp: inside_window_def cleanup_tick_def Let_def rl_set_limits_def rl_set_trusted_def)

lemma global_run:
  assumes "rl_enabled r" and "globalCount r \<le> globalMaxRate"
    and "list_all (inside_window (globalWindow r) (rl_window r)) es"
  shows "int (length (accepted iter r es)) \<le> globalMaxRate - globalCount r"
  using assms
proof (induction es arbitrary: r)
  case (Cons e es)
  show ?case
  proof (cases e)
    case (Attempt ip now)
    have a: "globalCount (snd (allow iter now ip r)) = globalCount r + (if fst (allow iter now ip r) then 1 else 0)"
      "globalCount (snd (allow iter now ip r)) \<le> globalMaxRate"
      "globalWindow (snd (allow iter now ip r)) = globalWindow r"
      "rl_window (snd (allow iter now ip r)) = rl_window r" "rl_enabled (snd (allow iter now ip r))"
      using allow_globalCount [of r now iter ip] Cons.prems Attempt by (auto simp: inside_window_def)
    then have "int (length (accepted iter (snd (allow iter now ip r)) es))
        \<le> globalMaxRate - globalCount (snd (allow iter now ip r))"
      using Cons.prems by (intro Cons.IH) simp_all
    with a(1) Attempt show ?thesis by (auto split: if_splits)
  qed (use Cons.IH [of "rl_step iter r e"] Cons.prems quiet_step_globals [of e r iter] in simp_all)
qed simp

subsection \<open>The cleanup goroutine is invisible\<close>

definition is_tick :: "rl_event \<Rightarrow> bool" where
  "is_tick e = (case e of Tick _ \<Rightarrow> True | _ \<Rightarrow> False)"

definition live_block :: "time \<Rightarrow> rate_limiter \<Rightarrow> string \<Rightarrow> time option" where
  "live_block T r ip =
     (case map_of (blocked r) ip of Some u \<Rightarrow> if u < T then None else Some u | None \<Rightarrow> None)"

definition ordered_attempts :: "time \<Rightarrow> rate_limiter \<Rightarrow> bool" where
  "ordered_attempts T r \<longleftrightarrow> (\<forall>ip. sorted (attempts_of r ip) \<and> (\<forall>s \<in> set (attempts_of r ip). s \<le> T))"

text \<open>Two limiters that differ only in entries no later decision can see.\<close>

definition twins :: "time \<Rightarrow> rate_limiter \<Rightarrow> rate_limiter \<Rightarrow> bool" where
  "twins T r r' \<longleftrightarrow> rl_enabled r = rl_enabled r' \<and> maxAttempts r = maxAttempts r'
     \<and> rl_window r = rl_window r' \<and> blockDuration r = blockDuration r'
     \<and> globalCount r = globalCount r' \<and> globalWindow r = globalWindow r'
     \<and> rl_trusted r = rl_trusted r'
     \<and> (\<forall>ip. recent r T ip = recent r' T ip) \<and> (\<forall>ip. live_block T r ip = live_block T r' ip)"

lemma dropWhile_le_le:
  fixes c c' :: int
  shows "c \<le> c' \<Longrightarrow> dropWhile (\<lambda>t. t \<le> c') (dropWhile (\<lambda>t. t \<le> c) xs) = dropWhile (\<lambda>t. t \<le> c') xs"
  by (induction xs) auto

lemma recent_later: "T \<le> now \<Longrightarrow> recent r now ip = dropWhile (\<lambda>t. t \<le> rl_cutoff r now) (recent r T ip)"
  by (simp add: recent_def rl_cutoff_def dropWhile_le_le)

lemma twins_recent: "twins T r r' \<Longrightarrow> T \<le> now \<Longrightarrow> recent r now ip = recent r' now ip"
  by (simp add: recent_later [of T now] twins_def rl_cutoff_def)

lemma twins_live: "twins T r r' \<Longrightarrow> T \<le> now \<Longrightarrow> live_block now r ip = live_block now r' ip"
proof -
  have later: "live_block now r ip = (case live_block T r ip of Some u \<Rightarrow> if u < now then None else Some u | None \<Rightarrow> None)"
    if "T \<le> now" for r :: rate_limiter
    using that by (auto simp: live_block_def split: option.splits)
  assume "twins T r r'" and "T \<le> now"
  then show ?thesis by (simp add: later twins_def)
qed

lemma twins_later: "twins T r r' \<Longrightarrow> T \<le> now \<Longrightarrow> twins now r r'"
  using twins_recent [of T r r' now] twins_live [of T r r' now] by (simp add: twins_def)

lemma blocked_iff_live: "(\<exists>u. map_of (blocked r) ip = Some u \<and> now < u) \<longleftrightarrow> (\<exists>u. live_block now r ip = Some u \<and> now < u)"
  by (auto simp: live_block_def split: option.splits)

lemma ordered_dropWhile: "ordered_attempts T r \<Longrightarrow> sorted (recent r now ip) \<and> (\<forall>s \<in> set (recent r now ip). s \<le> T)"
  unfolding ordered_attempts_def recent_def
  by (metis set_dropWhileD sorted_dropWhile)

lemma twins_tick:
  assumes "twins T r r'" and "T \<le> now" and "well_keyed r K" and "ordered_attempts T r"
  shows "twins now (cleanup_tick now r) r' \<and> ordered_attempts now (cleanup_tick now r)"
proof -
  have tw: "twins now r r'" using assms(1,2) by (rule twins_later)
  have at: "attempts_of (cleanup_tick now r) ip = recent r now ip" for ip
    using assms(3,4)
    by (simp add: attempts_of_tick well_keyed_def recent_def filter_dropWhile_sorted ordered_attempts_def)
  have same: "rl_window (cleanup_tick now r) = rl_window r" by (simp add: cleanup_tick_def Let_def)
  have "recent (cleanup_tick now r) now ip = recent r now ip" for ip
    unfolding recent_def [of "cleanup_tick now r"] at
    by (simp add: rl_cutoff_def same dropWhile_le_le recent_def)
  moreover have "live_block now (cleanup_tick now r) ip = live_block now r ip" for ip
    using assms(3) by (auto simp: live_block_def blocked_tick well_keyed_def split: option.splits)
  moreover have "ordered_attempts now (cleanup_tick now r)"
    using assms(2) ordered_dropWhile [OF assms(4), of now]
    unfolding ordered_attempts_def at by (meson order_trans)
  ultimately show ?thesis using tw by (simp add: twins_def cleanup_tick_def Let_def)
qed

text \<open>What one attempt decides and leaves behind, in terms of what a twin can see.\<close>

lemma ordered_allow:
  assumes "ordered_attempts T r" and "T \<le> now" and "length (attempts r) < maxTrackedIPs"
  shows "ordered_attempts now (snd (allow iter now ip r))"
  unfolding ordered_attempts_def
proof
  fix ip'
  have old: "sorted (attempts_of r ip') \<and> (\<forall>s \<in> set (attempts_of r ip'). s \<le> now)"
    using assms(1,2) unfolding ordered_attempts_def by (meson order_trans)
  show "sorted (attempts_of (snd (allow iter now ip r)) ip')
      \<and> (\<forall>s \<in> set (attempts_of (snd (allow iter now ip r)) ip'). s \<le> now)"
  proof (cases "ip = ip'")
    case False
    then show ?thesis using old allow_other(1) [OF False assms(3)] by simp
  next
    case True
    have "sorted (attempts_of (snd (allow iter now ip r)) ip)
        \<and> (\<forall>s \<in> set (attempts_of (snd (allow iter now ip r)) ip). s \<le> now)"
    proof (cases rule: allow_cases [of r iter now ip])
      case counted
      let ?r0 = "expire_block ip (roll_window now r)"
      have "sorted (recent r now ip) \<and> (\<forall>s \<in> set (recent r now ip). s \<le> now)"
        using ordered_dropWhile [OF assms(1), of now ip] assms(2) by force
      then show ?thesis
        using count_attempt_effect [of iter now ip ?r0]
        by (cases "fst (count_attempt iter now ip ?r0)") (auto simp: counted(5) sorted_append)
    qed (use old True in simp_all)
    then show ?thesis by (simp add: True)
  qed
qed

lemma twins_allow_other:
  assumes "twins now r r'" and "ip' \<noteq> ip"
    and "length (attempts r) < maxTrackedIPs" and "length (attempts r') < maxTrackedIPs"
    and "rl_window s = rl_window r" and "rl_window s' = rl_window r'"
    and "s = snd (allow iter now ip' r)" and "s' = snd (allow iter' now ip' r')"
  shows "recent s now ip = recent s' now ip \<and> live_block now s ip = live_block now s' ip"
proof -
  have "recent s now ip = recent r now ip" and "recent s' now ip = recent r' now ip"
    using assms allow_other(1) [OF assms(2)] by (simp_all add: recent_def rl_cutoff_def)
  moreover have "live_block now s ip = live_block now r ip" and "live_block now s' ip = live_block now r' ip"
    using assms allow_other(2) [OF assms(2)] by (simp_all add: live_block_def)
  ultimately show ?thesis using assms(1) by (simp add: twins_def)
qed

text \<open>Whether the per-IP machinery runs at all, and what one call does to the visible state.\<close>

definition reaches_count :: "time \<Rightarrow> string \<Rightarrow> rate_limiter \<Rightarrow> bool" where
  "reaches_count now ip r \<longleftrightarrow> rl_enabled r \<and> globalCount (roll_window now r) < globalMaxRate
     \<and> \<not> trusted_has (rl_trusted r) ip \<and> \<not> (\<exists>u. live_block now r ip = Some u \<and> now < u)"

lemma reaches_count_alt:
  "reaches_count now ip r \<longleftrightarrow> rl_enabled r \<and> globalCount (roll_window now r) < globalMaxRate
     \<and> \<not> trusted_has (rl_trusted r) ip \<and> admitted_block now ip r"
  unfolding reaches_count_def blocked_iff_live [symmetric] admitted_block_def by (auto simp: not_less)

lemma admitted_block_alt: "admitted_block now ip r \<longleftrightarrow> \<not> (\<exists>u. map_of (blocked r) ip = Some u \<and> now < u)"
  by (auto simp: admitted_block_def not_less)

lemma allow_counted_eq:
  assumes "reaches_count now ip r"
  shows "allow iter now ip r = count_attempt iter now ip (expire_block ip (roll_window now r))"
  using assms unfolding reaches_count_alt
  by (cases rule: allow_cases [of r iter now ip]) (auto simp: admitted_block_def)

lemma allow_uncounted:
  assumes "\<not> reaches_count now ip r"
  shows "attempts (snd (allow iter now ip r)) = attempts r \<and> blocked (snd (allow iter now ip r)) = blocked r
     \<and> (fst (allow iter now ip r) \<longleftrightarrow> \<not> rl_enabled r
          \<or> (globalCount (roll_window now r) < globalMaxRate \<and> trusted_has (rl_trusted r) ip))"
  using assms unfolding reaches_count_alt
  by (cases rule: allow_cases [of r iter now ip]) (auto simp: admitted_block_def allow_def Let_def)

lemma allow_visible:
  shows "fst (allow iter now ip r) \<longleftrightarrow>
      (if reaches_count now ip r then int (length (recent r now ip)) < maxAttempts r
       else \<not> rl_enabled r \<or> (globalCount (roll_window now r) < globalMaxRate \<and> trusted_has (rl_trusted r) ip))"
    and "recent (snd (allow iter now ip r)) now ip =
      (if reaches_count now ip r
       then (if fst (allow iter now ip r)
             then dropWhile (\<lambda>t. t \<le> rl_cutoff r now) (recent r now ip @ [now]) else [])
       else recent r now ip)"
    and "live_block now (snd (allow iter now ip r)) ip =
      (if reaches_count now ip r
       then (if fst (allow iter now ip r) \<or> blockDuration r < 0 then None else Some (now + blockDuration r))
       else live_block now r ip)"
    and "rl_window (snd (allow iter now ip r)) = rl_window r"
    and "globalCount (snd (allow iter now ip r)) =
      (if rl_enabled r then globalCount (roll_window now r) + (if fst (allow iter now ip r) then 1 else 0)
       else globalCount r)"
    and "globalWindow (snd (allow iter now ip r)) =
      (if rl_enabled r then globalWindow (roll_window now r) else globalWindow r)"
proof -
  let ?r0 = "expire_block ip (roll_window now r)"
  let ?s = "snd (allow iter now ip r)"
  show w: "rl_window ?s = rl_window r"
    by (cases rule: allow_cases [of r iter now ip]) simp_all
  show "fst (allow iter now ip r) \<longleftrightarrow>
      (if reaches_count now ip r then int (length (recent r now ip)) < maxAttempts r
       else \<not> rl_enabled r \<or> (globalCount (roll_window now r) < globalMaxRate \<and> trusted_has (rl_trusted r) ip))"
    by (cases "reaches_count now ip r")
      (simp_all add: allow_counted_eq count_attempt_decision allow_uncounted)
  show "recent ?s now ip =
      (if reaches_count now ip r
       then (if fst (allow iter now ip r)
             then dropWhile (\<lambda>t. t \<le> rl_cutoff r now) (recent r now ip @ [now]) else [])
       else recent r now ip)"
  proof (cases "reaches_count now ip r")
    case True
    then show ?thesis
      using count_attempt_effect [of iter now ip ?r0] w
      by (cases "fst (allow iter now ip r)")
        (simp_all add: allow_counted_eq recent_def [of "snd (count_attempt iter now ip ?r0)"] rl_cutoff_def)
  next
    case False
    then show ?thesis using w allow_uncounted [OF False, of iter] recent_cong [of ?s r] by simp
  qed
  show "live_block now ?s ip =
      (if reaches_count now ip r
       then (if fst (allow iter now ip r) \<or> blockDuration r < 0 then None else Some (now + blockDuration r))
       else live_block now r ip)"
  proof (cases "reaches_count now ip r")
    case True
    then show ?thesis
      using count_attempt_effect [of iter now ip ?r0]
      by (cases "fst (allow iter now ip r)") (simp_all add: allow_counted_eq live_block_def)
  next
    case False
    then show ?thesis using allow_uncounted [OF False, of iter] by (simp add: live_block_def)
  qed
  show "globalCount ?s =
      (if rl_enabled r then globalCount (roll_window now r) + (if fst (allow iter now ip r) then 1 else 0)
       else globalCount r)"
  proof (cases rule: allow_cases [of r iter now ip])
    case counted
    then show ?thesis using count_attempt_effect [of iter now ip ?r0]
      by (cases "fst (count_attempt iter now ip ?r0)") simp_all
  qed simp_all
  show "globalWindow ?s =
      (if rl_enabled r then globalWindow (roll_window now r) else globalWindow r)"
    by (cases rule: allow_cases [of r iter now ip]) simp_all
qed

lemma twins_reaches:
  assumes "twins now r r'"
  shows "reaches_count now ip r = reaches_count now ip r'"
    and "globalCount (roll_window now r) = globalCount (roll_window now r')"
    and "globalWindow (roll_window now r) = globalWindow (roll_window now r')"
  using assms by (simp_all add: reaches_count_def roll_window_def twins_def)

lemma twins_allow:
  assumes tw: "twins now r r'"
    and small: "length (attempts r) < maxTrackedIPs" "length (attempts r') < maxTrackedIPs"
  shows "fst (allow iter now ip r) = fst (allow iter' now ip r')
     \<and> twins now (snd (allow iter now ip r)) (snd (allow iter' now ip r'))"
proof -
  let ?s = "snd (allow iter now ip r)" and ?s' = "snd (allow iter' now ip r')"
  note v = allow_visible [where iter = iter and now = now and ip = ip and r = r]
    and v' = allow_visible [where iter = iter' and now = now and ip = ip and r = r']
  note re = twins_reaches [OF tw]
  have eqs: "rl_enabled r = rl_enabled r'" "maxAttempts r = maxAttempts r'" "rl_window r = rl_window r'"
    "blockDuration r = blockDuration r'" "globalCount r = globalCount r'" "globalWindow r = globalWindow r'"
    "rl_trusted r = rl_trusted r'" "recent r now ip = recent r' now ip"
    "live_block now r ip = live_block now r' ip"
    using tw by (simp_all add: twins_def)
  have dec: "fst (allow iter now ip r) = fst (allow iter' now ip r')"
    unfolding v(1) v'(1) using eqs re by simp
  have cut: "rl_cutoff r now = rl_cutoff r' now" using eqs by (simp add: rl_cutoff_def)
  have "recent ?s now i = recent ?s' now i \<and> live_block now ?s i = live_block now ?s' i" for i
  proof (cases "ip = i")
    case True
    have "recent ?s now ip = recent ?s' now ip"
      unfolding v(2) v'(2) using dec eqs cut re(1) by simp
    moreover have "live_block now ?s ip = live_block now ?s' ip"
      unfolding v(3) v'(3) using dec eqs re(1) by simp
    ultimately show ?thesis by (simp add: True)
  next
    case False
    show ?thesis by (rule twins_allow_other [OF tw False small v(4) v'(4) refl refl])
  qed
  moreover have "globalCount ?s = globalCount ?s'" unfolding v(5) v'(5) using dec eqs re by simp
  moreover have "globalWindow ?s = globalWindow ?s'" unfolding v(6) v'(6) using eqs re by simp
  moreover have "rl_enabled ?s = rl_enabled ?s' \<and> maxAttempts ?s = maxAttempts ?s'
      \<and> blockDuration ?s = blockDuration ?s' \<and> rl_trusted ?s = rl_trusted ?s'"
    using eqs by (cases rule: allow_cases [of r iter now ip]; cases rule: allow_cases [of r' iter' now ip])
      (simp_all add: roll_window_frame)
  ultimately show ?thesis using dec eqs v(4) v'(4) by (simp add: twins_def)
qed

lemma cleanup_run:
  assumes "twins T r r'" and "ordered_attempts T r" and "well_keyed r K" and "well_keyed r' K"
    and "finite K" and "card (K \<union> callers es) < maxTrackedIPs"
    and "clocked T es" and "list_all fixed_limits es"
  shows "accepted iter r es = accepted iter' r' (filter (\<lambda>e. \<not> is_tick e) es)"
  using assms
proof (induction es arbitrary: r r' T K)
  case (Cons e es)
  show ?case
  proof (cases e)
    case (Attempt ip now)
    have now: "T \<le> now" "clocked now es" using Cons.prems(7) Attempt by auto
    have card: "card (insert ip K \<union> callers es) < maxTrackedIPs"
      using Cons.prems(6) Attempt by simp
    have cardK: "card K < maxTrackedIPs"
      using card card_mono [of "insert ip K \<union> callers es" K] Cons.prems(5) by fastforce
    have small: "length (attempts r) < maxTrackedIPs" "length (attempts r') < maxTrackedIPs"
      using Cons.prems(3-5) cardK by (auto intro: well_keyed_length)
    have tw: "twins now r r'" using Cons.prems(1) now(1) by (rule twins_later)
    note al = twins_allow [OF tw small, of iter ip iter']
    have "accepted iter (snd (allow iter now ip r)) es
        = accepted iter' (snd (allow iter' now ip r')) (filter (\<lambda>e. \<not> is_tick e) es)"
      using al Cons.prems now card small
      by (intro Cons.IH [where K = "insert ip K" and T = now])
        (auto intro: well_keyed_allow ordered_allow)
    then show ?thesis using al by (simp add: Attempt is_tick_def)
  next
    case (Tick now)
    have now: "T \<le> now" "clocked now es" using Cons.prems(7) Tick by auto
    have "twins now (cleanup_tick now r) r' \<and> ordered_attempts now (cleanup_tick now r)"
      by (rule twins_tick [OF Cons.prems(1) now(1) Cons.prems(3,2)])
    then have "accepted iter (cleanup_tick now r) es = accepted iter' r' (filter (\<lambda>e. \<not> is_tick e) es)"
      using Cons.prems now Tick
      by (intro Cons.IH [where K = K and T = now]) (auto intro: well_keyed_tick)
    then show ?thesis by (simp add: Tick is_tick_def)
  next
    case (Limits enabled maxAtt window block)
    then show ?thesis using Cons.prems by (simp add: fixed_limits_def)
  next
    case (Trust nets)
    have "twins T (rl_set_trusted nets r) (rl_set_trusted nets r')"
      using Cons.prems(1) recent_cong [of "rl_set_trusted nets r" r]
        recent_cong [of "rl_set_trusted nets r'" r']
      by (simp add: twins_def rl_set_trusted_def live_block_def)
    moreover have "ordered_attempts T (rl_set_trusted nets r)"
      using Cons.prems(2) by (simp add: ordered_attempts_def rl_set_trusted_def attempts_of_def)
    moreover have "well_keyed (rl_set_trusted nets r) K" "well_keyed (rl_set_trusted nets r') K"
      using Cons.prems(3,4) by (simp_all add: well_keyed_def rl_set_trusted_def)
    ultimately have "accepted iter (rl_set_trusted nets r) es
        = accepted iter' (rl_set_trusted nets r') (filter (\<lambda>e. \<not> is_tick e) es)"
      using Cons.prems Trust by (intro Cons.IH [where K = K and T = T]) auto
    then show ?thesis by (simp add: Trust is_tick_def)
  qed
qed simp

subsection \<open>Properties\<close>

text \<open>In any window of \<open>w\<close> nanoseconds an address that is not a trusted proxy is let in at most
  \<open>maxAttempts\<close> times, over every history of a fresh limiter whose limits no reload changes: whatever other
  addresses do, whenever the cleanup ticks and whatever order the map iterates in, provided a block
  lasts at least a window and fewer than \<open>maxTrackedIPs\<close> addresses call (so none is evicted).\<close>

theorem rate_limit_window:
  assumes "0 \<le> w" and "w \<le> max_int64" and "w \<le> b" and "0 \<le> m"
    and "card (callers es) < maxTrackedIPs"
    and "clocked t0 es" and "list_all (same_limits m w b) es" and "list_all (never_trusts ip) es"
  shows "int (length (in_window w t (times_of ip (accepted iter (new_rate_limiter True m w b t0) es)))) \<le> m"
proof -
  let ?r = "new_rate_limiter True m w b t0"
  have "tracks ?r ip w t0 []" by (rule tracksI [of _ "[]"]) (simp_all add: attempts_of_def new_rate_limiter_def)
  moreover have "limits_are m w b ?r" by (simp add: limits_are_def new_rate_limiter_def)
  moreover have "\<not> trusted_has (rl_trusted ?r) ip" by (simp add: new_rate_limiter_def)
  moreover have "well_keyed ?r {}" by (simp add: well_keyed_def new_rate_limiter_def)
  ultimately have "int (length (in_window w t ([] @ times_of ip (accepted iter ?r es)))) \<le> m"
    using assms by (intro window_run [where K = "{}" and T = t0 and b = b]) (auto simp: in_window_def)
  then show ?thesis by simp
qed

theorem rate_limit_window_witness:
  "int (length (in_window 60 130 (times_of ''a'' (accepted rev (new_rate_limiter True 2 60 300 100)
      [Attempt ''a'' 101, Attempt ''b'' 102, Tick 103, Attempt ''a'' 104, Attempt ''a'' 105])))) \<le> 2"
  by (rule rate_limit_window)
    (simp_all add: max_int64_def maxTrackedIPs_def same_limits_def never_trusts_def card_insert_if)



text \<open>C32: The limiter never tracks more than \<open>maxTrackedIPs\<close> addresses, nor counts more than
  \<open>globalMaxRate\<close> acceptances in a window, in every state reachable from a fresh limiter, whatever
  the calls, reloads and ticks and whatever order the map iterates in.\<close>

theorem rate_limiter_bounded:
  assumes "permutes_entries iter" and "list_all names_caller es"
  shows "length (attempts (rl_run iter (new_rate_limiter enabled m w b t0) es)) \<le> maxTrackedIPs
     \<and> globalCount (rl_run iter (new_rate_limiter enabled m w b t0) es) \<le> globalMaxRate"
  using rl_inv_run [OF assms(1) rl_inv_new assms(2)] by (simp add: rl_inv_def)

theorem rate_limiter_bounded_witness:
  "length (attempts (rl_run rev (new_rate_limiter True 1 60 300 100)
      [Attempt ''a'' 101, Attempt ''b'' 102, Limits True 5 10 20, Tick 103])) \<le> maxTrackedIPs
   \<and> globalCount (rl_run rev (new_rate_limiter True 1 60 300 100)
      [Attempt ''a'' 101, Attempt ''b'' 102, Limits True 5 10 20, Tick 103]) \<le> globalMaxRate"
  by (rule rate_limiter_bounded) (simp_all add: permutes_entries_def names_caller_def)

text \<open>Inside one global window the limiter lets in at most \<open>globalMaxRate\<close> attempts in all,
  trusted proxies included, so a trusted proxy is exempt from the per-IP limits and not from the
  ceiling of the gateway.\<close>

theorem rate_limit_global_ceiling:
  assumes "rl_enabled r" and "0 \<le> globalCount r" and "globalCount r \<le> globalMaxRate"
    and "list_all (inside_window (globalWindow r) (rl_window r)) es"
  shows "int (length (accepted iter r es)) \<le> globalMaxRate"
  using global_run [OF assms(1,3,4), of iter] assms(2) by simp

theorem rate_limit_global_ceiling_witness:
  "int (length (accepted rev (new_rate_limiter True 5 60 300 100)
      [Trust [\<lparr>net_ip = [10, 0, 0, 0], net_mask = [255, 0, 0, 0]\<rparr>], Attempt ''10.0.0.1'' 101,
       Attempt ''a'' 160])) \<le> globalMaxRate"
  by (rule rate_limit_global_ceiling)
    (simp_all add: new_rate_limiter_def globalMaxRate_def inside_window_def time_sub_def
      min_int64_def max_int64_def)



end
