(* ===== verification/ConnTracker.thy ===== *)
theory ConnTracker
  imports NetAddr "HOL-Library.Multiset"
begin

section \<open>The connection tracker (internal/server/ratelimit.go, ConnectionTracker)\<close>

text \<open>
  Counts live connections in all and per address. The interface \<open>admission_gate\<close> states what the
  server relies on: an admission and a release cancel, and the counters are those of the multiset
  of callers on the line.
\<close>

record connection_tracker =
  maxTotal :: int
  maxPerIP :: int
  conns :: "(string \<times> int) list"
  total :: int
  ct_trusted :: "ip_net list"

definition new_connection_tracker :: "int \<Rightarrow> int \<Rightarrow> connection_tracker" where
  "new_connection_tracker maxT maxIP =
     \<lparr>maxTotal = maxT, maxPerIP = maxIP, conns = [], total = 0, ct_trusted = []\<rparr>"

definition ct_set_limits :: "int \<Rightarrow> int \<Rightarrow> connection_tracker \<Rightarrow> connection_tracker" where
  "ct_set_limits maxT maxIP c = c\<lparr>maxTotal := maxT, maxPerIP := maxIP\<rparr>"

definition ct_set_trusted :: "ip_net list \<Rightarrow> connection_tracker \<Rightarrow> connection_tracker" where
  "ct_set_trusted nets c = c\<lparr>ct_trusted := nets\<rparr>"

text \<open>\<open>c.conns[ip]\<close>: zero when the key is absent.\<close>

definition conns_of :: "connection_tracker \<Rightarrow> string \<Rightarrow> int" where
  "conns_of c ip = (case map_of (conns c) ip of Some n \<Rightarrow> n | None \<Rightarrow> 0)"

definition tracker_add :: "string \<Rightarrow> connection_tracker \<Rightarrow> bool \<times> connection_tracker" where
  "tracker_add ip c =
     (if total c \<ge> maxTotal c then (False, c)
      else if conns_of c ip \<ge> maxPerIP c \<and> \<not> trusted_has (ct_trusted c) ip then (False, c)
      else (True, c\<lparr>conns := AList.update ip (conns_of c ip + 1) (conns c), total := total c + 1\<rparr>))"

definition tracker_remove :: "string \<Rightarrow> connection_tracker \<Rightarrow> connection_tracker" where
  "tracker_remove ip c =
     (if conns_of c ip > 0 then
        let c1 = c\<lparr>conns := AList.update ip (conns_of c ip - 1) (conns c), total := total c - 1\<rparr>
        in if conns_of c1 ip = 0 then c1\<lparr>conns := AList.delete ip (conns c1)\<rparr> else c1
      else c)"

definition tracker_count :: "connection_tracker \<Rightarrow> int" where
  "tracker_count c = total c"

subsection \<open>The interface of an admission gate\<close>

text \<open>
  \<open>admit\<close> is \<open>None\<close> when the gate refuses. \<open>line\<close> is the multiset of callers the gate believes are
  connected; the client keeps its own list of who came and went.
\<close>

datatype 'k visit = Enter 'k | Leave 'k

locale admission_gate =
  fixes admit :: "'s \<Rightarrow> 'k \<Rightarrow> 's option"
    and release :: "'s \<Rightarrow> 'k \<Rightarrow> 's"
    and line :: "'s \<Rightarrow> 'k multiset"
    and sound :: "'s \<Rightarrow> bool"
  assumes admit_line: "sound s \<Longrightarrow> admit s k = Some s' \<Longrightarrow> sound s' \<and> line s' = add_mset k (line s)"
    and release_line: "sound s \<Longrightarrow> k \<in># line s \<Longrightarrow> sound (release s k) \<and> line (release s k) = line s - {#k#}"
    and release_absent: "sound s \<Longrightarrow> k \<notin># line s \<Longrightarrow> release s k = s"
begin

text \<open>One visit, with the multiset of callers the client itself has let in and not yet let go.\<close>

fun visit_step :: "'s \<times> 'k multiset \<Rightarrow> 'k visit \<Rightarrow> 's \<times> 'k multiset" where
  "visit_step (s, M) (Enter k) = (case admit s k of None \<Rightarrow> (s, M) | Some s' \<Rightarrow> (s', add_mset k M))"
| "visit_step (s, M) (Leave k) = (if k \<in># M then (release s k, M - {#k#}) else (s, M))"

lemma visit_step_line:
  "sound s \<Longrightarrow> line s = M \<Longrightarrow> visit_step (s, M) v = (s', M') \<Longrightarrow> sound s' \<and> line s' = M'"
  by (cases v) (auto simp: release_line dest: admit_line split: option.splits if_splits)

lemma visits_line:
  "sound s \<Longrightarrow> line s = M \<Longrightarrow> foldl visit_step (s, M) vs = (s', M') \<Longrightarrow> sound s' \<and> line s' = M'"
proof (induction vs arbitrary: s M)
  case (Cons v vs)
  obtain s1 M1 where v: "visit_step (s, M) v = (s1, M1)" by fastforce
  then have "sound s1 \<and> line s1 = M1" using visit_step_line Cons.prems by blast
  with Cons v show ?case by auto
qed simp

text \<open>A caller who leaves is as if never admitted, in what the gate counts.\<close>

lemma admit_release:
  "sound s \<Longrightarrow> admit s k = Some s' \<Longrightarrow> sound (release s' k) \<and> line (release s' k) = line s"
  using admit_line [of s k s'] release_line [of s' k] by simp

end

subsection \<open>The tracker is such a gate\<close>

definition tracker_admit :: "connection_tracker \<Rightarrow> string \<Rightarrow> connection_tracker option" where
  "tracker_admit c ip = (case tracker_add ip c of (ok, c') \<Rightarrow> if ok then Some c' else None)"

definition tracker_line :: "connection_tracker \<Rightarrow> string multiset" where
  "tracker_line c = sum_list (map (\<lambda>(ip, n). replicate_mset (nat n) ip) (conns c))"

definition positive_counts :: "(string \<times> int) list \<Rightarrow> bool" where
  "positive_counts al \<longleftrightarrow> (\<forall>x \<in> set al. 0 < snd x)"

definition tracker_inv :: "connection_tracker \<Rightarrow> bool" where
  "tracker_inv c \<longleftrightarrow> distinct (map fst (conns c)) \<and> positive_counts (conns c)
     \<and> total c = sum_list (map snd (conns c))"

lemma sum_list_update:
  fixes al :: "('k \<times> int) list"
  shows "distinct (map fst al) \<Longrightarrow>
     sum_list (map snd (AList.update k v al)) =
       sum_list (map snd al) - (case map_of al k of Some n \<Rightarrow> n | None \<Rightarrow> 0) + v"
  by (induction al) (auto split: option.splits)

lemma sum_list_delete:
  fixes al :: "('k \<times> int) list"
  shows "distinct (map fst al) \<Longrightarrow>
     sum_list (map snd (AList.delete k al)) =
       sum_list (map snd al) - (case map_of al k of Some n \<Rightarrow> n | None \<Rightarrow> 0)"
proof (induction al)
  case (Cons x al)
  have "AList.delete k al = al" if "k \<notin> fst ` set al"
    using that by (force simp: AList.delete_eq filter_id_conv)
  with Cons show ?case by (cases x) (auto simp: map_of_eq_None_iff split: option.splits)
qed simp

lemma positive_counts_update: "positive_counts al \<Longrightarrow> 0 < n \<Longrightarrow> positive_counts (AList.update k n al)"
  unfolding positive_counts_def by (induction al) auto

lemma positive_counts_delete: "positive_counts al \<Longrightarrow> positive_counts (AList.delete k al)"
  by (auto simp: positive_counts_def AList.delete_eq)

lemma tracker_inv_new: "tracker_inv (new_connection_tracker maxT maxIP)"
  by (simp add: tracker_inv_def positive_counts_def new_connection_tracker_def)

lemma tracker_inv_limits [inv_intros]:
  "tracker_inv c \<Longrightarrow> tracker_inv (ct_set_limits maxT maxIP c)"
  "tracker_inv c \<Longrightarrow> tracker_inv (ct_set_trusted nets c)"
  by (simp_all add: tracker_inv_def ct_set_limits_def ct_set_trusted_def)

lemma conns_of_nonneg: "tracker_inv c \<Longrightarrow> 0 \<le> conns_of c ip"
  by (fastforce simp: tracker_inv_def positive_counts_def conns_of_def dest: map_of_SomeD split: option.splits)

lemma tracker_inv_add [inv_intros]:
  assumes "tracker_inv c"
  shows "tracker_inv (snd (tracker_add ip c))"
proof -
  have "positive_counts (AList.update ip (conns_of c ip + 1) (conns c))"
    using assms conns_of_nonneg [OF assms, of ip]
    by (intro positive_counts_update) (simp_all add: tracker_inv_def)
  then show ?thesis
    using assms by (simp add: tracker_add_def tracker_inv_def sum_list_update conns_of_def)
qed

text \<open>What \<open>Remove\<close> leaves of the map.\<close>

lemma tracker_remove_eq:
  assumes "tracker_inv c"
  shows "tracker_remove ip c =
     (if conns_of c ip = 0 then c
      else c\<lparr>conns := (if conns_of c ip = 1 then AList.delete ip (AList.update ip 0 (conns c))
                      else AList.update ip (conns_of c ip - 1) (conns c)),
             total := total c - 1\<rparr>)"
  using conns_of_nonneg [OF assms, of ip] by (auto simp: tracker_remove_def Let_def conns_of_def)

lemma delete_update: "AList.delete k (AList.update k v al) = AList.delete k al"
  by (induction al) auto

lemma tracker_inv_remove [inv_intros]:
  assumes "tracker_inv c"
  shows "tracker_inv (tracker_remove ip c)"
proof -
  have "positive_counts (AList.update ip (conns_of c ip - 1) (conns c))"
    if "conns_of c ip \<noteq> 0" "conns_of c ip \<noteq> 1"
    using assms conns_of_nonneg [OF assms, of ip] that
    by (intro positive_counts_update) (simp_all add: tracker_inv_def)
  then show ?thesis
    using assms
    by (auto simp: tracker_remove_eq tracker_inv_def sum_list_update sum_list_delete delete_update
        positive_counts_delete) (simp_all add: conns_of_def)
qed

lemma count_tracker_line:
  assumes "tracker_inv c"
  shows "int (count (tracker_line c) ip) = conns_of c ip"
proof -
  have gen: "count (sum_list (map (\<lambda>(ip, n). replicate_mset (nat n) ip) al)) ip
      = nat (case map_of al ip of Some n \<Rightarrow> n | None \<Rightarrow> 0)" if "distinct (map fst al)" for al
    using that
  proof (induction al)
    case (Cons x al)
    have "map_of al ip = None" if "fst x = ip"
      using that Cons.prems by (simp add: map_of_eq_None_iff)
    with Cons show ?case by (cases x) auto
  qed simp
  show ?thesis
    using assms gen [of "conns c"] conns_of_nonneg [OF assms, of ip]
    by (simp add: tracker_line_def conns_of_def tracker_inv_def)
qed

lemma size_tracker_line: "tracker_inv c \<Longrightarrow> int (size (tracker_line c)) = total c"
proof -
  have gen: "positive_counts al \<Longrightarrow>
      int (size (sum_list (map (\<lambda>(ip, n). replicate_mset (nat n) ip) al))) = sum_list (map snd al)"
    for al :: "(string \<times> int) list"
    unfolding positive_counts_def by (induction al) auto
  assume "tracker_inv c"
  then show ?thesis using gen [of "conns c"] by (simp add: tracker_line_def tracker_inv_def)
qed

lemma tracker_line_eqI:
  "tracker_inv c \<Longrightarrow> (\<And>ip. conns_of c ip = int (count M ip)) \<Longrightarrow> tracker_line c = M"
  by (rule multiset_eqI) (metis count_tracker_line of_nat_eq_iff)

lemma conns_of_add:
  "tracker_admit c ip = Some c' \<Longrightarrow> conns_of c' ip' = conns_of c ip' + (if ip' = ip then 1 else 0)"
  by (auto simp: tracker_admit_def tracker_add_def conns_of_def split: if_splits)

lemma conns_of_remove:
  "tracker_inv c \<Longrightarrow> 0 < conns_of c ip \<Longrightarrow>
     conns_of (tracker_remove ip c) ip' = conns_of c ip' - (if ip' = ip then 1 else 0)"
  by (auto simp: tracker_remove_eq) (auto simp: conns_of_def)

interpretation gate: admission_gate tracker_admit "\<lambda>c ip. tracker_remove ip c" tracker_line tracker_inv
proof
  show "tracker_inv c' \<and> tracker_line c' = add_mset ip (tracker_line c)"
    if c: "tracker_inv c" "tracker_admit c ip = Some c'" for c ip c'
  proof -
    have i: "tracker_inv c'"
      using c tracker_inv_add [of c ip] by (auto simp: tracker_admit_def split: prod.splits if_splits)
    then show ?thesis
      using c by (auto intro!: tracker_line_eqI simp: conns_of_add count_tracker_line [symmetric])
  qed
  show "tracker_inv (tracker_remove ip c) \<and> tracker_line (tracker_remove ip c) = tracker_line c - {#ip#}"
    if c: "tracker_inv c" "ip \<in># tracker_line c" for c ip
  proof -
    have "0 < count (tracker_line c) ip" using c(2) by simp
    then have "0 < conns_of c ip" using count_tracker_line [OF c(1), of ip] by linarith
    then show ?thesis
      using c(1) \<open>0 < count (tracker_line c) ip\<close>
      by (auto intro!: tracker_line_eqI inv_intros
          simp: conns_of_remove count_tracker_line [OF c(1), symmetric])
  qed
  show "tracker_remove ip c = c" if c: "tracker_inv c" "ip \<notin># tracker_line c" for c ip
    using c count_tracker_line [OF c(1), of ip] by (simp add: tracker_remove_eq not_in_iff)
qed

text \<open>The visits of the tracker's own callers, as one function on states.\<close>

definition tracker_visit ::
  "connection_tracker \<times> string multiset \<Rightarrow> string visit \<Rightarrow> connection_tracker \<times> string multiset" where
  "tracker_visit cm v =
     (case v of
        Enter ip \<Rightarrow>
          (case tracker_add ip (fst cm) of (ok, c') \<Rightarrow> if ok then (c', add_mset ip (snd cm)) else cm)
      | Leave ip \<Rightarrow> if ip \<in># snd cm then (tracker_remove ip (fst cm), snd cm - {#ip#}) else cm)"

lemma tracker_visit_gate: "tracker_visit = gate.visit_step"
  by (auto simp: fun_eq_iff tracker_visit_def tracker_admit_def split: visit.splits prod.splits)

subsection \<open>The ceilings\<close>

text \<open>The tracker respects both ceilings, a trusted proxy only the first.\<close>

definition within_ceilings :: "int \<Rightarrow> int \<Rightarrow> ip_net list \<Rightarrow> connection_tracker \<Rightarrow> bool" where
  "within_ceilings maxT maxIP nets c \<longleftrightarrow> maxTotal c = maxT \<and> maxPerIP c = maxIP \<and> ct_trusted c = nets
     \<and> total c \<le> maxT \<and> (\<forall>ip. \<not> trusted_has nets ip \<longrightarrow> conns_of c ip \<le> maxIP)"

lemma within_ceilings_admit:
  "within_ceilings maxT maxIP nets c \<Longrightarrow> tracker_admit c ip = Some c' \<Longrightarrow> within_ceilings maxT maxIP nets c'"
  using conns_of_add [of c ip c']
  by (auto simp: within_ceilings_def tracker_admit_def tracker_add_def split: if_splits)

lemma within_ceilings_remove:
  assumes "within_ceilings maxT maxIP nets c" and "tracker_inv c"
  shows "within_ceilings maxT maxIP nets (tracker_remove ip c)"
proof (cases "0 < conns_of c ip")
  case True
  then have "conns_of (tracker_remove ip c) i \<le> conns_of c i" for i
    using conns_of_remove [OF assms(2) True, of i] by simp
  then show ?thesis using assms True
    by (auto simp: within_ceilings_def intro: order_trans) (simp_all add: tracker_remove_eq)
next
  case False
  then show ?thesis using assms by (simp add: tracker_remove_def)
qed

lemma within_ceilings_visits:
  "within_ceilings maxT maxIP nets c \<Longrightarrow> tracker_inv c \<Longrightarrow> tracker_line c = M \<Longrightarrow>
     foldl gate.visit_step (c, M) vs = (c', M') \<Longrightarrow> within_ceilings maxT maxIP nets c'"
proof (induction vs arbitrary: c M)
  case (Cons v vs)
  obtain c1 M1 where v: "gate.visit_step (c, M) v = (c1, M1)" by fastforce
  then have "tracker_inv c1 \<and> tracker_line c1 = M1" using gate.visit_step_line Cons.prems by blast
  moreover have "within_ceilings maxT maxIP nets c1"
    using v Cons.prems within_ceilings_admit within_ceilings_remove
    by (cases v) (auto split: option.splits if_splits)
  ultimately show ?case using Cons v by auto
qed simp

lemma within_ceilings_new:
  "0 \<le> maxT \<Longrightarrow> 0 \<le> maxIP \<Longrightarrow>
     within_ceilings maxT maxIP nets (ct_set_trusted nets (new_connection_tracker maxT maxIP))"
  by (simp add: within_ceilings_def ct_set_trusted_def new_connection_tracker_def conns_of_def)

subsection \<open>Properties\<close>

text \<open>C9: Whatever callers come and go, the tracker's total is the number of callers on the line, its
  count for an address is the number of that address's callers, and both stay under the ceilings
  (a trusted proxy is exempt from the second one only).\<close>

theorem tracker_counts_callers:
  assumes "0 \<le> maxT" and "0 \<le> maxIP"
    and "foldl tracker_visit (ct_set_trusted nets (new_connection_tracker maxT maxIP), {#}) vs = (c, M)"
  shows "tracker_count c = int (size M) \<and> int (size M) \<le> maxT \<and> conns_of c ip = int (count M ip)
     \<and> (\<not> trusted_has nets ip \<longrightarrow> int (count M ip) \<le> maxIP)"
proof -
  let ?c0 = "ct_set_trusted nets (new_connection_tracker maxT maxIP)"
  have i: "tracker_inv ?c0" by (intro inv_intros tracker_inv_new)
  have l: "tracker_line ?c0 = {#}"
    by (simp add: tracker_line_def ct_set_trusted_def new_connection_tracker_def)
  have "tracker_inv c \<and> tracker_line c = M" by (rule gate.visits_line [OF i l assms(3) [unfolded tracker_visit_gate]])
  moreover have "within_ceilings maxT maxIP nets c"
    by (rule within_ceilings_visits [OF within_ceilings_new [OF assms(1,2)] i l
          assms(3) [unfolded tracker_visit_gate]])
  ultimately show ?thesis
    using size_tracker_line [of c] count_tracker_line [of c ip]
    by (auto simp: tracker_count_def within_ceilings_def)
qed

theorem tracker_counts_callers_witness:
  "let c = fst (foldl tracker_visit (ct_set_trusted [] (new_connection_tracker 2 1), {#})
              [Enter ''a'', Enter ''a'', Enter ''b'', Leave ''a'', Enter ''c''])
   in tracker_count c = 2 \<and> conns_of c ''c'' = 1"
proof -
  let ?r = "foldl tracker_visit (ct_set_trusted [] (new_connection_tracker 2 1), {#})
              [Enter ''a'', Enter ''a'', Enter ''b'', Leave ''a'', Enter ''c'']"
  have m: "snd ?r = {#''b'', ''c''#}"
    by (simp add: tracker_visit_def tracker_add_def tracker_remove_def conns_of_def
        ct_set_trusted_def new_connection_tracker_def Let_def)
  have "tracker_count (fst ?r) = int (size (snd ?r)) \<and> int (size (snd ?r)) \<le> 2
      \<and> conns_of (fst ?r) ''c'' = int (count (snd ?r) ''c'')
      \<and> (\<not> trusted_has [] ''c'' \<longrightarrow> int (count (snd ?r) ''c'') \<le> 1)"
    by (rule tracker_counts_callers [OF _ _ surjective_pairing]) simp_all
  then show ?thesis unfolding m Let_def by simp
qed

end
