(* ===== verification/Config.thy ===== *)
theory Config
  imports NetAddr
begin

section \<open>The configuration (internal/config/config.go)\<close>

text \<open>
  The configuration records, \<open>Load\<close> with its defaults, migrations, CIDR parsing and validation, the
  accessors that clamp, and the phonebook lookup. \<open>yaml.Unmarshal\<close> (a third-party package) and
  \<open>sha256.Sum256\<close> are parameters: \<open>unmarshal data cfg\<close> decodes into the preset \<open>cfg\<close>, \<open>sha\<close> digests.
  \<open>os.ReadFile\<close>'s outcome is an argument. A failed load is a value of \<open>load_error\<close>.
\<close>

subsection \<open>Records\<close>

record server_config =
  srv_port :: int
  srv_max_connections :: int
  srv_max_per_ip :: int
  srv_idle_timeout :: int
  srv_banner_dir :: string
  srv_trusted_proxies :: "string list"
  srv_parsed_trusted :: "ip_net list"

record logging_config =
  lgc_level :: string
  lgc_format :: string
  lgc_file :: string

record required_settings =
  rs_init :: string
  rs_baud :: int
  rs_error_correction :: "bool option"
  rs_compression :: "bool option"

record phonebook_entry =
  pe_number :: string
  pe_host :: string
  pe_port :: int
  pe_name :: string
  pe_password :: string
  pe_busy :: bool
  pe_telnet :: string
  pe_required_init :: string
  pe_required :: required_settings

record rate_limit_config =
  rlc_enabled :: bool
  rlc_max_attempts :: int
  rlc_window_seconds :: int
  rlc_block_duration :: int

record dialer_config =
  dlc_allowed_networks :: "string list"
  dlc_parsed_networks :: "ip_net list"

record metrics_config =
  mc_enabled :: bool
  mc_port :: int
  mc_bind :: string

record probe_config =
  pc_enabled :: bool
  pc_interval :: int
  pc_timeout :: int

record reload_config =
  rc_enabled :: bool
  rc_interval :: int

record config =
  cfg_server :: server_config
  cfg_logging :: logging_config
  cfg_phonebook :: "phonebook_entry list"
  cfg_rate_limit :: rate_limit_config
  cfg_dialer :: dialer_config
  cfg_metrics :: metrics_config
  cfg_probe :: probe_config
  cfg_reload :: reload_config
  cfg_version :: string
  cfg_source_hash :: bytes

subsection \<open>Accessors\<close>

definition MinProbeInterval :: duration where "MinProbeInterval = 10 * second"

definition probe_get_interval :: "probe_config \<Rightarrow> duration" where
  "probe_get_interval p =
     (if pc_interval p \<le> 0 then 60 * second
      else let d = seconds (pc_interval p) in if d > MinProbeInterval then d else MinProbeInterval)"

definition probe_get_timeout :: "probe_config \<Rightarrow> duration" where
  "probe_get_timeout p = (if pc_timeout p \<le> 0 then 5 * second else seconds (pc_timeout p))"

definition MinReloadInterval :: duration where "MinReloadInterval = second"

definition reload_get_interval :: "reload_config \<Rightarrow> duration" where
  "reload_get_interval r =
     (if rc_interval r \<le> 0 then 2 * second
      else let d = seconds (rc_interval r) in if d > MinReloadInterval then d else MinReloadInterval)"

definition metrics_get_port :: "metrics_config \<Rightarrow> int" where
  "metrics_get_port m = (if mc_port m \<le> 0 then 9101 else mc_port m)"

definition metrics_addr :: "metrics_config \<Rightarrow> string" where
  "metrics_addr m = mc_bind m @ '':'' @ fmt_d (metrics_get_port m)"

definition ValidBaudRates :: "int list" where
  "ValidBaudRates = [300, 1200, 2400, 4800, 7200, 9600, 14400, 19200, 38400, 56000]"

definition telnet_mode :: "phonebook_entry \<Rightarrow> string" where
  "telnet_mode e =
     (let t = to_lower (trim_space (pe_telnet e)) in if t = ''yes'' \<or> t = ''no'' then t else ''auto'')"

definition rl_get_window :: "rate_limit_config \<Rightarrow> duration" where
  "rl_get_window c = seconds (rlc_window_seconds c)"

definition rl_get_block_duration :: "rate_limit_config \<Rightarrow> duration" where
  "rl_get_block_duration c = seconds (rlc_block_duration c)"

subsection \<open>Validation\<close>

datatype load_error =
    ReadFailed string
  | YamlFailed string
  | BadAllowedNetwork string
  | BadTrustedProxy string
  | BadServerPort int
  | BadMaxConnections
  | BadMaxPerIP
  | NumberRequired nat
  | HostRequired nat
  | BadEntryPort nat int
  | BadTelnetMode nat string
  | BadRequiredBaud nat int

definition validate_entry :: "nat \<Rightarrow> phonebook_entry \<Rightarrow> load_error option" where
  "validate_entry i e =
     (if pe_number e = [] then Some (NumberRequired i)
      else if \<not> pe_busy e \<and> pe_host e = [] then Some (HostRequired i)
      else if \<not> pe_busy e \<and> (pe_port e < 1 \<or> pe_port e > 65535) then Some (BadEntryPort i (pe_port e))
      else if (let t = to_lower (trim_space (pe_telnet e))
               in t \<noteq> [] \<and> t \<noteq> ''auto'' \<and> t \<noteq> ''yes'' \<and> t \<noteq> ''no'') then Some (BadTelnetMode i (pe_telnet e))
      else if rs_baud (pe_required e) \<noteq> 0 \<and> rs_baud (pe_required e) \<notin> set ValidBaudRates
        then Some (BadRequiredBaud i (rs_baud (pe_required e)))
      else None)"

fun validate_entries :: "nat \<Rightarrow> phonebook_entry list \<Rightarrow> load_error option" where
  "validate_entries i [] = None"
| "validate_entries i (e # es) =
     (case validate_entry i e of Some err \<Rightarrow> Some err | None \<Rightarrow> validate_entries (Suc i) es)"

definition validate :: "config \<Rightarrow> load_error option" where
  "validate c =
     (if srv_port (cfg_server c) < 1 \<or> srv_port (cfg_server c) > 65535
        then Some (BadServerPort (srv_port (cfg_server c)))
      else if srv_max_connections (cfg_server c) < 1 then Some BadMaxConnections
      else if srv_max_per_ip (cfg_server c) < 1 then Some BadMaxPerIP
      else validate_entries 0 (cfg_phonebook c))"

subsection \<open>Load\<close>

definition default_config :: config where
  "default_config =
     \<lparr>cfg_server = \<lparr>srv_port = 2323, srv_max_connections = 100, srv_max_per_ip = 5,
        srv_idle_timeout = 300, srv_banner_dir = [], srv_trusted_proxies = [], srv_parsed_trusted = []\<rparr>,
      cfg_logging = \<lparr>lgc_level = ''info'', lgc_format = ''json'', lgc_file = []\<rparr>,
      cfg_phonebook = [],
      cfg_rate_limit = \<lparr>rlc_enabled = True, rlc_max_attempts = 5, rlc_window_seconds = 60,
        rlc_block_duration = 300\<rparr>,
      cfg_dialer = \<lparr>dlc_allowed_networks = [], dlc_parsed_networks = []\<rparr>,
      cfg_metrics = \<lparr>mc_enabled = False, mc_port = 0, mc_bind = []\<rparr>,
      cfg_probe = \<lparr>pc_enabled = False, pc_interval = 0, pc_timeout = 0\<rparr>,
      cfg_reload = \<lparr>rc_enabled = True, rc_interval = 2\<rparr>,
      cfg_version = [], cfg_source_hash = replicate 32 0\<rparr>"

definition migrate_entry :: "phonebook_entry \<Rightarrow> phonebook_entry" where
  "migrate_entry e =
     (if pe_required_init e \<noteq> [] \<and> rs_init (pe_required e) = []
      then e\<lparr>pe_required := (pe_required e)\<lparr>rs_init := pe_required_init e\<rparr>\<rparr> else e)"

definition default_entry_settings :: "phonebook_entry \<Rightarrow> phonebook_entry" where
  "default_entry_settings e =
     e\<lparr>pe_required := (pe_required e)
         \<lparr>rs_error_correction := (case rs_error_correction (pe_required e) of None \<Rightarrow> Some True | Some b \<Rightarrow> Some b),
          rs_compression := (case rs_compression (pe_required e) of None \<Rightarrow> Some True | Some b \<Rightarrow> Some b)\<rparr>\<rparr>"

text \<open>The loop that parses CIDRs and appends them: the first bad one aborts the load.\<close>

fun parse_cidrs :: "ip_net list \<Rightarrow> string list \<Rightarrow> string + ip_net list" where
  "parse_cidrs acc [] = Inr acc"
| "parse_cidrs acc (s # ss) =
     (case parse_cidr s of None \<Rightarrow> Inl s | Some n \<Rightarrow> parse_cidrs (acc @ [n]) ss)"

definition finish_load :: "bytes \<Rightarrow> config \<Rightarrow> load_error + config" where
  "finish_load digest c0 =
     (let c1 = c0\<lparr>cfg_source_hash := digest\<rparr>;
          c2 = c1\<lparr>cfg_phonebook := map migrate_entry (cfg_phonebook c1)\<rparr>;
          c3 = c2\<lparr>cfg_phonebook := map default_entry_settings (cfg_phonebook c2)\<rparr>
      in case parse_cidrs (dlc_parsed_networks (cfg_dialer c3)) (dlc_allowed_networks (cfg_dialer c3)) of
           Inl bad \<Rightarrow> Inl (BadAllowedNetwork bad)
         | Inr allowed \<Rightarrow>
             let c4 = c3\<lparr>cfg_dialer := (cfg_dialer c3)\<lparr>dlc_parsed_networks := allowed\<rparr>\<rparr>
             in case parse_cidrs (srv_parsed_trusted (cfg_server c4)) (srv_trusted_proxies (cfg_server c4)) of
                  Inl bad \<Rightarrow> Inl (BadTrustedProxy bad)
                | Inr trusted \<Rightarrow>
                    let c5 = c4\<lparr>cfg_server := (cfg_server c4)\<lparr>srv_parsed_trusted := trusted\<rparr>\<rparr>
                    in case validate c5 of Some err \<Rightarrow> Inl err | None \<Rightarrow> Inr c5)"

definition load ::
  "(bytes \<Rightarrow> config \<Rightarrow> string + config) \<Rightarrow> (bytes \<Rightarrow> bytes) \<Rightarrow> string + bytes \<Rightarrow> load_error + config" where
  "load unmarshal sha file =
     (case file of
        Inl err \<Rightarrow> Inl (ReadFailed err)
      | Inr data \<Rightarrow>
          (case unmarshal data default_config of
             Inl err \<Rightarrow> Inl (YamlFailed err)
           | Inr c \<Rightarrow> finish_load (sha data) c))"

subsection \<open>The phonebook\<close>

definition is_separator :: "char \<Rightarrow> bool" where
  "is_separator c \<longleftrightarrow> c \<in> set ''-().*# ''"

fun normalize_from :: "string \<Rightarrow> string \<Rightarrow> string" where
  "normalize_from result [] = result"
| "normalize_from result (c # s) =
     (if is_digit c then normalize_from (result @ [c]) s
      else if is_separator c then normalize_from result s
      else [])"

definition normalize_number :: "string \<Rightarrow> string" where
  "normalize_number number = normalize_from [] number"

definition lookup_number :: "phonebook_entry list \<Rightarrow> string \<Rightarrow> phonebook_entry option" where
  "lookup_number book number =
     (let normalized = normalize_number number
      in find (\<lambda>e. normalize_number (pe_number e) = normalized) book)"

subsection \<open>Facts: what a loaded configuration satisfies\<close>

definition entry_ok :: "phonebook_entry \<Rightarrow> bool" where
  "entry_ok e \<longleftrightarrow> pe_number e \<noteq> []
     \<and> (pe_busy e \<or> (pe_host e \<noteq> [] \<and> 1 \<le> pe_port e \<and> pe_port e \<le> 65535))
     \<and> to_lower (trim_space (pe_telnet e)) \<in> {[], ''auto'', ''yes'', ''no''}
     \<and> (rs_baud (pe_required e) = 0 \<or> rs_baud (pe_required e) \<in> set ValidBaudRates)"

definition config_ok :: "config \<Rightarrow> bool" where
  "config_ok c \<longleftrightarrow> 1 \<le> srv_port (cfg_server c) \<and> srv_port (cfg_server c) \<le> 65535
     \<and> 1 \<le> srv_max_connections (cfg_server c) \<and> 1 \<le> srv_max_per_ip (cfg_server c)
     \<and> list_all entry_ok (cfg_phonebook c)"

lemma validate_entry_ok: "validate_entry i e = None \<longleftrightarrow> entry_ok e"
  by (auto simp: validate_entry_def entry_ok_def Let_def)

lemma validate_entries_ok: "validate_entries i es = None \<longleftrightarrow> list_all entry_ok es"
proof (induction i es rule: validate_entries.induct)
  case (2 i e es)
  then show ?case
    using validate_entry_ok [of i e] by (cases "validate_entry i e") auto
qed simp

lemma validate_ok: "validate c = None \<longleftrightarrow> config_ok c"
  by (auto simp: validate_def config_ok_def validate_entries_ok)

text \<open>A reported entry error names the first bad entry.\<close>

lemma validate_entries_first:
  "validate_entries i es = Some err \<Longrightarrow>
     \<exists>k < length es. validate_entry (i + k) (es ! k) = Some err \<and> list_all entry_ok (take k es)"
proof (induction i es rule: validate_entries.induct)
  case (2 i e es)
  show ?case
  proof (cases "validate_entry i e")
    case None
    with 2 obtain k where "k < length es" "validate_entry (Suc i + k) (es ! k) = Some err"
      "list_all entry_ok (take k es)" by auto
    with None show ?thesis by (intro exI [of _ "Suc k"]) (simp add: validate_entry_ok)
  next
    case (Some x)
    with 2 show ?thesis by (intro exI [of _ 0]) simp
  qed
qed simp

lemma parse_cidrs_Inr:
  "parse_cidrs acc ss = Inr ns \<longleftrightarrow> (\<forall>s \<in> set ss. parse_cidr s \<noteq> None) \<and> ns = acc @ map (the \<circ> parse_cidr) ss"
  by (induction acc ss rule: parse_cidrs.induct) (auto split: option.splits)

lemma finish_load_shape:
  assumes "finish_load digest c0 = Inr c"
  shows "config_ok c" and "cfg_source_hash c = digest"
    and "cfg_phonebook c = map (default_entry_settings \<circ> migrate_entry) (cfg_phonebook c0)"
    and "dlc_parsed_networks (cfg_dialer c)
       = dlc_parsed_networks (cfg_dialer c0) @ map (the \<circ> parse_cidr) (dlc_allowed_networks (cfg_dialer c0))"
    and "srv_parsed_trusted (cfg_server c)
       = srv_parsed_trusted (cfg_server c0) @ map (the \<circ> parse_cidr) (srv_trusted_proxies (cfg_server c0))"
    and "list_all (\<lambda>s. parse_cidr s \<noteq> None)
           (dlc_allowed_networks (cfg_dialer c0) @ srv_trusted_proxies (cfg_server c0))"
  using assms
  by (auto simp: finish_load_def Let_def validate_ok parse_cidrs_Inr list_all_iff
      split: sum.splits option.splits)

lemma load_digest:
  "load unmarshal sha file = Inr c \<Longrightarrow> config_ok c \<and> (\<exists>data. file = Inr data \<and> cfg_source_hash c = sha data)"
  using finish_load_shape(1,2) by (auto simp: load_def split: sum.splits)

lemma entry_settings_defined:
  "\<exists>b. rs_error_correction (pe_required (default_entry_settings e)) = Some b"
  "\<exists>b. rs_compression (pe_required (default_entry_settings e)) = Some b"
  by (auto simp: default_entry_settings_def split: option.splits)

subsection \<open>Facts: numbers\<close>

lemma normalize_from_eq:
  "normalize_from result s =
     (if list_all (\<lambda>c. is_digit c \<or> is_separator c) s then result @ filter is_digit s else [])"
  by (induction result s rule: normalize_from.induct) auto

lemma normalize_number_eq:
  "normalize_number s = (if list_all (\<lambda>c. is_digit c \<or> is_separator c) s then filter is_digit s else [])"
  by (simp add: normalize_number_def normalize_from_eq)

lemma normalize_idem: "normalize_number (normalize_number s) = normalize_number s"
  by (auto simp: normalize_number_eq list_all_iff)

lemma find_append_first:
  "list_all (\<lambda>x. \<not> P x) xs \<Longrightarrow> P x \<Longrightarrow> find P (xs @ x # ys) = Some x"
  by (induction xs) auto

lemma telnet_mode_range: "telnet_mode e \<in> {''auto'', ''yes'', ''no''}"
  by (auto simp: telnet_mode_def Let_def)

lemma telnet_mode_ok:
  "entry_ok e \<Longrightarrow> telnet_mode e = (let t = to_lower (trim_space (pe_telnet e)) in if t = [] then ''auto'' else t)"
  by (auto simp: telnet_mode_def entry_ok_def Let_def)

lemma lookup_number_listed: "lookup_number book number = Some e \<Longrightarrow> e \<in> set book"
  by (auto simp: lookup_number_def Let_def find_Some_iff)

subsection \<open>Properties\<close>

text \<open>C28: A configuration that loads is a valid one, carries the digest of the very bytes it was read
  from, and its networks are exactly the parsed CIDRs of the file, in order. Unmarshalling leaves the
  unexported fields alone, as \<open>yaml.v3\<close> documents.\<close>

theorem load_sound:
  assumes "load unmarshal sha (Inr data) = Inr c"
    and "\<And>c'. unmarshal data default_config = Inr c' \<Longrightarrow>
           dlc_parsed_networks (cfg_dialer c') = [] \<and> srv_parsed_trusted (cfg_server c') = []"
  shows "config_ok c \<and> cfg_source_hash c = sha data
    \<and> map Some (dlc_parsed_networks (cfg_dialer c)) = map parse_cidr (dlc_allowed_networks (cfg_dialer c))
    \<and> map Some (srv_parsed_trusted (cfg_server c)) = map parse_cidr (srv_trusted_proxies (cfg_server c))
    \<and> list_all (\<lambda>e. rs_error_correction (pe_required e) \<noteq> None \<and> rs_compression (pe_required e) \<noteq> None)
        (cfg_phonebook c)"
proof -
  from assms(1) obtain c' where c': "unmarshal data default_config = Inr c'" "finish_load (sha data) c' = Inr c"
    by (auto simp: load_def split: sum.splits)
  note shape = finish_load_shape [OF c'(2)]
  have names: "dlc_allowed_networks (cfg_dialer c) = dlc_allowed_networks (cfg_dialer c')"
    "srv_trusted_proxies (cfg_server c) = srv_trusted_proxies (cfg_server c')"
    using c'(2) by (auto simp: finish_load_def Let_def split: sum.splits option.splits)
  have "map Some (map (the \<circ> parse_cidr) ss) = map parse_cidr ss"
    if "list_all (\<lambda>s. parse_cidr s \<noteq> None) ss" for ss
    using that by (induction ss) auto
  then show ?thesis
    using shape assms(2) [OF c'(1)] by (auto simp: names list_all_iff entry_settings_defined)
qed

theorem load_sound_witness:
  "\<exists>c. load (\<lambda>data c. Inr (c\<lparr>cfg_dialer := \<lparr>dlc_allowed_networks = [''10.0.0.0/8''], dlc_parsed_networks = []\<rparr>,
        cfg_phonebook := [\<lparr>pe_number = ''555-1212'', pe_host = ''bbs'', pe_port = 23, pe_name = ''A'',
          pe_password = [], pe_busy = False, pe_telnet = '' Yes '', pe_required_init = ''ATZ'',
          pe_required = \<lparr>rs_init = [], rs_baud = 0, rs_error_correction = None, rs_compression = Some False\<rparr>\<rparr>]\<rparr>))
      (\<lambda>data. data) (Inr [1, 2]) = Inr c
    \<and> config_ok c \<and> cfg_source_hash c = [1, 2]"
proof -
  let ?u = "\<lambda>(data :: bytes) c. Inr (c\<lparr>cfg_dialer := \<lparr>dlc_allowed_networks = [''10.0.0.0/8''], dlc_parsed_networks = []\<rparr>,
        cfg_phonebook := [\<lparr>pe_number = ''555-1212'', pe_host = ''bbs'', pe_port = 23, pe_name = ''A'',
          pe_password = [], pe_busy = False, pe_telnet = '' Yes '', pe_required_init = ''ATZ'',
          pe_required = \<lparr>rs_init = [], rs_baud = 0, rs_error_correction = None, rs_compression = Some False\<rparr>\<rparr>]\<rparr>)
        :: string + config"
  have "\<not> isl (load ?u (\<lambda>data. data) (Inr [1, 2]))" by code_simp
  then obtain c where c: "load ?u (\<lambda>data. data) (Inr [1, 2]) = Inr c"
    by (cases "load ?u (\<lambda>data. data) (Inr [1, 2])") auto
  then have "config_ok c \<and> cfg_source_hash c = [1, 2]"
    using load_sound [OF c] by (auto simp: default_config_def)
  with c show ?thesis by blast
qed

text \<open>Separators and digits are all a number may hold, and only its digits count: a number finds
  the first entry with the same digits, however either of them is punctuated.\<close>

theorem lookup_number_by_digits:
  assumes "list_all (\<lambda>c. is_digit c \<or> is_separator c) number"
    and "list_all (\<lambda>e. normalize_number (pe_number e) \<noteq> filter is_digit number) before"
    and "normalize_number (pe_number e) = filter is_digit number"
  shows "lookup_number (before @ e # after) number = Some e"
  using assms by (simp add: lookup_number_def Let_def normalize_number_eq [of number] find_append_first)

theorem lookup_number_by_digits_witness:
  "\<exists>e. lookup_number [e] ''(555) 12.12*'' = Some e \<and> pe_number e = ''555-1212''"
  using lookup_number_by_digits [of "''(555) 12.12*''" "[]"
      "\<lparr>pe_number = ''555-1212'', pe_host = ''h'', pe_port = 23, pe_name = [], pe_password = [],
        pe_busy = False, pe_telnet = [], pe_required_init = [],
        pe_required = \<lparr>rs_init = [], rs_baud = 0, rs_error_correction = None, rs_compression = None\<rparr>\<rparr>" "[]"]
  by (auto simp: is_digit_def is_separator_def normalize_number_def)

text \<open>A number the normalisation means to reject is not rejected: every number without a digit,
  or with an unexpected character, normalises to the empty string, and reaches the first entry
  whose own number does.\<close>

theorem lookup_number_rejects_nothing:
  "lookup_number [e\<lparr>pe_number := ''CALL-ME''\<rparr>] ''*'' = Some (e\<lparr>pe_number := ''CALL-ME''\<rparr>)"
  by (simp add: lookup_number_def normalize_number_def is_digit_def is_separator_def)

text \<open>Whatever 64-bit value the file holds, overflow included, a probe cycle is never shorter than
  10 seconds and a reload poll never shorter than one.\<close>

theorem intervals_floored:
  "10 * second \<le> probe_get_interval p \<and> second \<le> reload_get_interval r
     \<and> probe_get_interval p \<le> max_int64 \<and> reload_get_interval r \<le> max_int64"
  using wrap64_range
  by (simp add: probe_get_interval_def reload_get_interval_def MinProbeInterval_def MinReloadInterval_def
      seconds_def Let_def second_def max_int64_def)

end
