(* ===== verification/Watcher.thy ===== *)
theory Watcher
  imports Config
begin

section \<open>The config watcher (internal/config/watch.go)\<close>

text \<open>
  One \<open>poll\<close> reads the file twice, once itself and once inside \<open>Load\<close>, so a poll takes both
  outcomes. The callbacks are the result: at most one event per poll. \<open>stop\<close> and the ticker decide
  only how many polls happen, so a run of the watcher is a list of polls.
\<close>

record watcher =
  w_interval :: duration
  w_last_hash :: bytes
  w_last_err :: string

datatype watch_event = OnReload config | OnError load_error

definition new_watcher :: "config \<Rightarrow> watcher" where
  "new_watcher cfg =
     \<lparr>w_interval = reload_get_interval (cfg_reload cfg), w_last_hash = cfg_source_hash cfg, w_last_err = []\<rparr>"

definition poll ::
  "(bytes \<Rightarrow> config \<Rightarrow> string + config) \<Rightarrow> (bytes \<Rightarrow> bytes) \<Rightarrow> string + bytes \<Rightarrow> string + bytes \<Rightarrow>
     watcher \<Rightarrow> watcher \<times> watch_event list" where
  "poll unmarshal sha file1 file2 w =
     (case file1 of
        Inl err \<Rightarrow>
          if err \<noteq> w_last_err w then (w\<lparr>w_last_err := err\<rparr>, [OnError (ReadFailed err)]) else (w, [])
      | Inr data \<Rightarrow>
          let w1 = w\<lparr>w_last_err := []\<rparr>; hash = sha data in
          if hash = w_last_hash w1 then (w1, [])
          else
            let w2 = w1\<lparr>w_last_hash := hash\<rparr> in
            case load unmarshal sha file2 of
              Inl err \<Rightarrow> (w2, [OnError err])
            | Inr cfg \<Rightarrow> (w2\<lparr>w_last_hash := cfg_source_hash cfg\<rparr>, [OnReload cfg]))"

text \<open>A run: each poll with what the two reads return.\<close>

fun polls ::
  "(bytes \<Rightarrow> config \<Rightarrow> string + config) \<Rightarrow> (bytes \<Rightarrow> bytes) \<Rightarrow> (string + bytes) list \<times> (string + bytes) list \<Rightarrow>
     watcher \<Rightarrow> watcher \<times> watch_event list" where
  "polls unmarshal sha (f1 # fs1, f2 # fs2) w =
     (let (w1, es1) = poll unmarshal sha f1 f2 w; (w2, es2) = polls unmarshal sha (fs1, fs2) w1
      in (w2, es1 @ es2))"
| "polls unmarshal sha (_, _) w = (w, [])"

subsection \<open>Facts\<close>

lemma poll_reload:
  assumes "poll unmarshal sha f1 f2 w = (w', es)" and "OnReload cfg \<in> set es"
  shows "config_ok cfg" and "w_last_hash w' = cfg_source_hash cfg" and "es = [OnReload cfg]"
    and "\<exists>data. f2 = Inr data \<and> cfg_source_hash cfg = sha data"
  using assms load_digest [of unmarshal sha f2 cfg]
  by (auto simp: poll_def Let_def split: sum.splits if_splits)

lemma polls_reload:
  "OnReload cfg \<in> set (snd (polls unmarshal sha fs w)) \<Longrightarrow> config_ok cfg"
proof (induction unmarshal sha fs w rule: polls.induct)
  case (1 unmarshal sha f1 fs1 f2 fs2 w)
  then show ?case
    using poll_reload(1) [of unmarshal sha f1 f2 w]
    by (fastforce simp: Let_def split: prod.splits)
qed simp_all

text \<open>What a poll has considered is not considered again while the file stays as it is.\<close>

lemma poll_quiet:
  "sha data = w_last_hash w \<Longrightarrow> poll unmarshal sha (Inr data) f2 w = (w\<lparr>w_last_err := []\<rparr>, [])"
  by (simp add: poll_def Let_def)

lemma poll_considers:
  "w_last_hash (fst (poll unmarshal sha (Inr data) (Inr data) w)) = sha data"
  using load_digest [of unmarshal sha "Inr data"]
  by (auto simp: poll_def Let_def split: sum.splits)

lemma polls_quiet:
  "sha data = w_last_hash w \<Longrightarrow>
     snd (polls unmarshal sha (replicate n (Inr data), replicate n f2) w) = []"
proof (induction n arbitrary: w)
  case (Suc n)
  then show ?case by (simp add: poll_quiet Let_def split_beta)
qed simp

lemma singleton_not_digest [simp]: "[x] \<noteq> replicate 32 y"
proof
  assume "[x] = replicate 32 y"
  then have "length [x] = length (replicate 32 y)" by (rule arg_cong)
  then show False by simp
qed

subsection \<open>Properties\<close>

text \<open>Whatever the reads of any number of polls return, torn writes included, only a configuration
  that passes validation is ever applied.\<close>

theorem watcher_applies_valid_only:
  assumes "OnReload cfg \<in> set (snd (polls unmarshal sha fs w))"
  shows "config_ok cfg"
  using assms by (rule polls_reload)

theorem watcher_applies_valid_only_witness:
  "config_ok (default_config\<lparr>cfg_source_hash := [7]\<rparr>)"
proof (rule watcher_applies_valid_only)
  show "OnReload (default_config\<lparr>cfg_source_hash := [7]\<rparr>) \<in>
     set (snd (polls (\<lambda>data c. if data = [7] then Inr c else Inl ''yaml'') id
       ([Inr [6], Inr [7]], [Inr [6], Inr [7]]) (new_watcher default_config)))"
    by (simp add: poll_def new_watcher_def default_config_def load_def finish_load_def validate_def Let_def)
qed

text \<open>C29: A change of content that is stable while it is read is handled exactly once: it is applied
  when it loads and reported when it does not, and no later poll of the same content says anything.\<close>

theorem watcher_handles_change_once:
  assumes "sha data \<noteq> w_last_hash w"
  shows "\<exists>w'. polls unmarshal sha (replicate (Suc n) (Inr data), replicate (Suc n) (Inr data)) w = (w',
      [case load unmarshal sha (Inr data) of Inl err \<Rightarrow> OnError err | Inr cfg \<Rightarrow> OnReload cfg])"
proof -
  let ?w1 = "fst (poll unmarshal sha (Inr data) (Inr data) w)"
  have "snd (poll unmarshal sha (Inr data) (Inr data) w)
      = [case load unmarshal sha (Inr data) of Inl err \<Rightarrow> OnError err | Inr cfg \<Rightarrow> OnReload cfg]"
    using assms by (simp add: poll_def Let_def split: sum.split)
  moreover have "snd (polls unmarshal sha (replicate n (Inr data), replicate n (Inr data)) ?w1) = []"
    by (rule polls_quiet) (simp add: poll_considers)
  ultimately show ?thesis by (simp add: Let_def split_beta)
qed

theorem watcher_handles_change_once_witness:
  "\<exists>w'. polls (\<lambda>data c. Inl ''yaml'') id (replicate (Suc 2) (Inr [9]), replicate (Suc 2) (Inr [9]))
     (new_watcher default_config) = (w', [OnError (YamlFailed ''yaml'')])"
proof -
  have "id [9] \<noteq> w_last_hash (new_watcher default_config)"
    by (simp add: new_watcher_def default_config_def)
  from watcher_handles_change_once [of id "[9]", OF this, of "\<lambda>data c. Inl ''yaml''" 2]
  show ?thesis by (simp only: load_def sum.case)
qed

text \<open>C40: An edit can be lost for good: when the file is readable at the first read of a poll and the
  second read fails or catches a torn write, the digest of the edit is already recorded, and every
  later poll of that very content is silent although it was never applied.\<close>

theorem watcher_loses_edit:
  assumes "sha data \<noteq> w_last_hash w" and "load unmarshal sha torn = Inl err"
  shows "snd (polls unmarshal sha (Inr data # replicate n (Inr data), torn # replicate n (Inr data)) w)
    = [OnError err]"
proof -
  let ?w1 = "fst (poll unmarshal sha (Inr data) torn w)"
  have p: "snd (poll unmarshal sha (Inr data) torn w) = [OnError err]" and h: "w_last_hash ?w1 = sha data"
    using assms by (simp_all add: poll_def Let_def)
  then have "snd (polls unmarshal sha (replicate n (Inr data), replicate n (Inr data)) ?w1) = []"
    by (intro polls_quiet) simp
  with p show ?thesis by (simp add: Let_def split_beta)
qed

theorem watcher_loses_edit_witness:
  "snd (polls (\<lambda>data c. Inr c) id
      (Inr [8] # replicate 3 (Inr [8]), Inl ''no such file'' # replicate 3 (Inr [8]))
      (new_watcher default_config)) = [OnError (ReadFailed ''no such file'')]
   \<and> \<not> isl (load (\<lambda>data c. Inr c) id (Inr [8]))"
proof
  show "snd (polls (\<lambda>data c. Inr c) id
      (Inr [8] # replicate 3 (Inr [8]), Inl ''no such file'' # replicate 3 (Inr [8]))
      (new_watcher default_config)) = [OnError (ReadFailed ''no such file'')]"
    by (rule watcher_loses_edit) (simp_all add: new_watcher_def default_config_def load_def)
  show "\<not> isl (load (\<lambda>data c. Inr c) id (Inr [8]))"
    by (simp add: load_def finish_load_def default_config_def validate_def Let_def)
qed

end
