(* ===== verification/BannerArt.thy ===== *)
theory BannerArt
  imports GoText
begin

section \<open>The connect banner (internal/server/banner_art.go and session.go, buildBanner)\<close>

text \<open>
  Choosing a piece of ANSI art from a directory, cleaning it up and framing it, and the built-in
  banner it falls back to. The file system is a parameter: what a directory lists, what a file
  holds. \<open>rand.Intn(n)\<close> is a draw reduced modulo \<open>n\<close>. Text is kept as byte strings.
\<close>

definition maxBannerArtBytes :: nat where "maxBannerArtBytes = 512 * 1024"

definition esc :: string where "esc = [CHR 0x1B]"
definition crlf_text :: string where "crlf_text = [CHR 0x0D, CHR 0x0A]"

definition artPrefix :: bytes where
  "artPrefix = bytes_of (esc @ ''[0m'' @ esc @ ''[2J'' @ esc @ ''[H'')"

definition artSuffix :: bytes where
  "artSuffix = bytes_of (esc @ ''[0m'' @ esc @ ''[999;1H'' @ esc @ ''[2A'')"

subsection \<open>Metadata and newlines\<close>

definition sauceSize :: nat where "sauceSize = 128"
definition sauceID :: bytes where "sauceID = bytes_of ''SAUCE00''"
definition sauceCommentsOff :: nat where "sauceCommentsOff = 104"
definition commentID :: bytes where "commentID = bytes_of ''COMNT''"
definition commentLineSize :: nat where "commentLineSize = 64"

definition strip_sauce :: "bytes \<Rightarrow> bytes" where
  "strip_sauce raw =
     (if length raw < sauceSize then raw
      else
        let rec = drop (length raw - sauceSize) raw in
        if take (length sauceID) rec \<noteq> sauceID then raw
        else
          let cut = length raw - sauceSize;
              lines = unat (rec ! sauceCommentsOff);
              size = length commentID + lines * commentLineSize;
              cut1 = (if lines > 0 \<and> cut \<ge> size
                         \<and> take (length commentID) (drop (cut - size) raw) = commentID
                      then cut - size else cut);
              cut2 = (if cut1 > 0 \<and> raw ! (cut1 - 1) = 0x1A then cut1 - 1 else cut1)
          in take cut2 raw)"

text \<open>The loop of \<open>normalizeNewlines\<close>; \<open>prev\<close> is the byte before, \<open>None\<close> at index 0.\<close>

fun normalize_newlines_from :: "byte option \<Rightarrow> bytes \<Rightarrow> bytes" where
  "normalize_newlines_from prev [] = []"
| "normalize_newlines_from prev (c # cs) =
     (if c = 10 \<and> prev \<noteq> Some 13 then [13, c] else [c]) @ normalize_newlines_from (Some c) cs"

definition normalize_newlines :: "bytes \<Rightarrow> bytes" where
  "normalize_newlines art = normalize_newlines_from None art"

definition render_art :: "bytes \<Rightarrow> bytes" where
  "render_art raw = artPrefix @ normalize_newlines (strip_sauce raw) @ artSuffix"

subsection \<open>The directory\<close>

text \<open>\<open>dir_entries\<close> is \<open>None\<close> when \<open>Stat\<close> fails, the path is no directory or \<open>ReadDir\<close> fails.\<close>

record art_files =
  dir_entries :: "string \<Rightarrow> (string \<times> bool) list option"
  file_bytes :: "string \<Rightarrow> string \<Rightarrow> bytes option"

text \<open>\<open>filepath.Ext\<close>: from the last dot after the last slash.\<close>

definition file_ext :: "string \<Rightarrow> string" where
  "file_ext name =
     (let tail = takeWhile (\<lambda>c. c \<noteq> CHR ''.'' \<and> c \<noteq> CHR ''/'') (rev name)
      in if length tail < length name \<and> rev name ! length tail = CHR ''.''
         then CHR ''.'' # rev tail else [])"

definition is_art_name :: "string \<times> bool \<Rightarrow> bool" where
  "is_art_name e \<longleftrightarrow> \<not> snd e \<and> \<not> has_prefix (fst e) ''.'' \<and> to_upper (file_ext (fst e)) = ''.ANS''"

definition list_art :: "art_files \<Rightarrow> string \<Rightarrow> string list" where
  "list_art fs dir =
     (if dir = [] then []
      else case dir_entries fs dir of None \<Rightarrow> [] | Some es \<Rightarrow> map fst (filter is_art_name es))"

definition read_art :: "art_files \<Rightarrow> string \<Rightarrow> string \<Rightarrow> bytes option" where
  "read_art fs dir name =
     (case file_bytes fs dir name of
        None \<Rightarrow> None
      | Some content \<Rightarrow>
          let raw = take (maxBannerArtBytes + 1) content
          in if length raw > maxBannerArtBytes then None else Some raw)"

definition pick_art :: "art_files \<Rightarrow> nat \<Rightarrow> string \<Rightarrow> bytes" where
  "pick_art fs rand dir =
     (let names = list_art fs dir in
      if names = [] then []
      else case read_art fs dir (names ! (rand mod length names)) of
             None \<Rightarrow> [] | Some raw \<Rightarrow> render_art raw)"

definition set_art_dir :: "string \<Rightarrow> string" where
  "set_art_dir dir = trim_space dir"

subsection \<open>The built-in banner\<close>

abbreviation cp437DblHoriz :: char where "cp437DblHoriz \<equiv> CHR 0xCD"
abbreviation cp437DblVert :: char where "cp437DblVert \<equiv> CHR 0xBA"
abbreviation cp437DblTopLeft :: char where "cp437DblTopLeft \<equiv> CHR 0xC9"
abbreviation cp437DblTopRight :: char where "cp437DblTopRight \<equiv> CHR 0xBB"
abbreviation cp437DblBotLeft :: char where "cp437DblBotLeft \<equiv> CHR 0xC8"
abbreviation cp437DblBotRight :: char where "cp437DblBotRight \<equiv> CHR 0xBC"
abbreviation cp437DblTeeRight :: char where "cp437DblTeeRight \<equiv> CHR 0xCC"
abbreviation cp437DblTeeLeft :: char where "cp437DblTeeLeft \<equiv> CHR 0xB9"
abbreviation cp437Block :: char where "cp437Block \<equiv> CHR 0xDB"

definition csi :: string where "csi = esc @ ''[''"
definition banner_cyan :: string where "banner_cyan = csi @ ''0;36m''"

definition pad :: "string \<Rightarrow> nat \<Rightarrow> string" where
  "pad s n = s @ replicate (n - length s) CHR '' ''"

definition center :: "string \<Rightarrow> nat \<Rightarrow> string" where
  "center s n = (if length s \<ge> n then s else replicate ((n - length s) div 2) CHR '' '' @ s)"

definition banner_row :: "string \<Rightarrow> string \<Rightarrow> string" where
  "banner_row color text = [cp437DblVert] @ color @ pad text 77 @ banner_cyan @ [cp437DblVert] @ crlf_text"

text \<open>Runs of blocks and of spaces in the logo.\<close>

abbreviation blk :: "nat \<Rightarrow> string" where "blk n \<equiv> replicate n cp437Block"
abbreviation gap :: "nat \<Rightarrow> string" where "gap n \<equiv> replicate n CHR '' ''"

definition logo_rows :: "string list" where
  "logo_rows =
    [gap 19 @ blk 8 @ gap 2 @ blk 7 @ gap 2 @ blk 2 @ gap 7 @ blk 2 @ gap 2 @ blk 2 @ gap 3 @ blk 2,
     gap 22 @ blk 2 @ gap 5 @ blk 2 @ gap 7 @ blk 2 @ gap 7 @ blk 2 @ gap 3 @ blk 2 @ gap 1 @ blk 2,
     gap 22 @ blk 2 @ gap 5 @ blk 5 @ gap 4 @ blk 2 @ gap 7 @ blk 2 @ gap 4 @ blk 3,
     gap 22 @ blk 2 @ gap 5 @ blk 2 @ gap 7 @ blk 2 @ gap 7 @ blk 2 @ gap 3 @ blk 2 @ gap 1 @ blk 2,
     gap 22 @ blk 2 @ gap 5 @ blk 7 @ gap 2 @ blk 7 @ gap 2 @ blk 2 @ gap 2 @ blk 2 @ gap 3 @ blk 2]"

definition build_banner :: "string \<Rightarrow> string" where
  "build_banner ver =
     (let yellow = csi @ ''1;33m''; white = csi @ ''1;37m''; grey = csi @ ''0;37m'';
          green = csi @ ''0;32m''; reset = csi @ ''0m''; cls = csi @ ''2J'' @ csi @ ''H'';
          bar = replicate 77 cp437DblHoriz
      in cls @ banner_cyan
         @ [cp437DblTopLeft] @ bar @ [cp437DblTopRight] @ crlf_text
         @ concat (map (banner_row yellow) logo_rows)
         @ banner_row [] []
         @ banner_row white (center (''Telix Modem Gateway v'' @ ver) 77)
         @ banner_row grey (center ''Hayes Compatible 56000 BPS'' 77)
         @ banner_row [] []
         @ [cp437DblTeeRight] @ bar @ [cp437DblTeeLeft] @ crlf_text
         @ banner_row green ''  Ready to receive commands. Type AT to test, ATDT<number> to dial.''
         @ banner_row green ''  Use +++ (with pause) to escape data mode, ATH to hang up.''
         @ [cp437DblBotLeft] @ bar @ [cp437DblBotRight] @ crlf_text
         @ reset)"

text \<open>\<open>bannerFor\<close>: a nil \<open>bannerArt\<close> is \<open>None\<close>.\<close>

definition banner_for :: "art_files \<Rightarrow> nat \<Rightarrow> string option \<Rightarrow> string \<Rightarrow> bytes" where
  "banner_for fs rand art ver =
     (case art of
        None \<Rightarrow> bytes_of (build_banner ver)
      | Some dir \<Rightarrow>
          let drawn = pick_art fs rand dir
          in if drawn \<noteq> [] then drawn else bytes_of (build_banner ver))"

subsection \<open>Facts: metadata\<close>

text \<open>A SAUCE record, and the art file a DOS tool writes: the art, the EOF byte, the comments.\<close>

definition sauce_record :: "bytes \<Rightarrow> bool" where
  "sauce_record rec \<longleftrightarrow> length rec = sauceSize \<and> take 7 rec = sauceID"

definition sauce_comments :: "bytes \<Rightarrow> bytes \<Rightarrow> bool" where
  "sauce_comments rec block \<longleftrightarrow>
     (let lines = unat (rec ! sauceCommentsOff) in
      if lines = 0 then block = []
      else length block = 5 + lines * 64 \<and> take 5 block = commentID)"

lemma lengths [simp]: "length sauceID = 7" "length commentID = 5"
  by (simp_all add: sauceID_def commentID_def)

text \<open>The three cuts of \<open>strip_sauce\<close>, over opaque lengths.\<close>

lemma strip_sauce_cut:
  assumes "length rec = sauceSize" and "take 7 rec = sauceID" and "raw = body @ rec"
    and "cut1 = (if unat (rec ! sauceCommentsOff) > 0 \<and> length body \<ge> 5 + unat (rec ! sauceCommentsOff) * 64
                   \<and> take 5 (drop (length body - (5 + unat (rec ! sauceCommentsOff) * 64)) raw) = commentID
                 then length body - (5 + unat (rec ! sauceCommentsOff) * 64) else length body)"
  shows "strip_sauce raw = take (if cut1 > 0 \<and> raw ! (cut1 - 1) = 0x1A then cut1 - 1 else cut1) raw"
proof -
  have "drop (length raw - sauceSize) raw = rec" and "length raw - sauceSize = length body"
    and "\<not> length raw < sauceSize"
    using assms(1,3) by simp_all
  then show ?thesis
    using assms(2,4) by (simp only: strip_sauce_def Let_def if_False not_True_eq_False simp_thms
        lengths commentLineSize_def)
qed

lemma strip_sauce_record:
  assumes "sauce_record rec" and "sauce_comments rec block"
  shows "strip_sauce (art @ [0x1A] @ block @ rec) = art"
proof -
  define raw where "raw = art @ [0x1A] @ block @ rec"
  define body where "body = art @ [0x1A] @ block"
  define lines where "lines = unat (rec ! sauceCommentsOff)"
  have raw: "raw = body @ rec" by (simp add: raw_def body_def)
  have lb: "length body = length art + 1 + length block" by (simp add: body_def)
  have "length art + 1 = (if lines > 0 \<and> length body \<ge> 5 + lines * 64
                 \<and> take 5 (drop (length body - (5 + lines * 64)) raw) = commentID
               then length body - (5 + lines * 64) else length body)"
  proof (cases "lines = 0")
    case True
    then show ?thesis using assms(2) lb by (simp add: sauce_comments_def Let_def lines_def)
  next
    case False
    then have b: "length block = 5 + lines * 64" "take 5 block = commentID"
      using assms(2) by (simp_all add: sauce_comments_def Let_def lines_def)
    have "take 5 (block @ rec) = take 5 block" using b(1) by simp
    moreover have "drop (length art + 1) raw = block @ rec" by (simp add: raw_def)
    ultimately have "take 5 (drop (length art + 1) raw) = commentID" using b(2) by simp
    with b(1) lb False show ?thesis by simp
  qed
  then have s: "strip_sauce raw
      = take (if length art + 1 > 0 \<and> raw ! (length art + 1 - 1) = 0x1A then length art + 1 - 1 else length art + 1) raw"
    using assms(1) unfolding sauce_record_def lines_def
    by (elim conjE) (rule strip_sauce_cut [OF _ _ raw])
  have "raw ! length art = 0x1A" by (simp add: raw_def nth_append)
  then show ?thesis using s by (simp add: raw_def)
qed

lemma strip_sauce_plain:
  "length raw < sauceSize \<or> take 7 (drop (length raw - sauceSize) raw) \<noteq> sauceID \<Longrightarrow> strip_sauce raw = raw"
  by (auto simp: strip_sauce_def)

lemma strip_sauce_prefix: "\<exists>n. strip_sauce raw = take n raw"
  by (auto simp: strip_sauce_def Let_def intro: exI [of _ "length raw"])

lemma strip_sauce_length: "length (strip_sauce raw) \<le> length raw"
  using strip_sauce_prefix [of raw] by auto

subsection \<open>Facts: newlines\<close>

text \<open>No line feed without a carriage return before it.\<close>

fun newlines_ok :: "byte option \<Rightarrow> bytes \<Rightarrow> bool" where
  "newlines_ok prev [] = True"
| "newlines_ok prev (c # cs) = ((c = 10 \<longrightarrow> prev = Some 13) \<and> newlines_ok (Some c) cs)"

lemma normalize_newlines_from_ok: "newlines_ok prev (normalize_newlines_from prev cs)"
  by (induction cs arbitrary: prev) auto

lemma normalize_newlines_from_id: "newlines_ok prev cs \<Longrightarrow> normalize_newlines_from prev cs = cs"
  by (induction cs arbitrary: prev) auto

lemma normalize_newlines_from_length:
  "length (normalize_newlines_from prev cs) \<le> 2 * length cs"
proof (induction cs arbitrary: prev)
  case (Cons c cs)
  have "length (normalize_newlines_from prev (c # cs)) \<le> 2 + length (normalize_newlines_from (Some c) cs)"
    by simp
  then show ?case using Cons.IH [of "Some c"] by simp
qed simp

lemma normalize_newlines_from_filter:
  "filter (\<lambda>c. c \<noteq> 13) (normalize_newlines_from prev cs) = filter (\<lambda>c. c \<noteq> 13) cs"
  by (induction cs arbitrary: prev) auto

subsection \<open>Facts: the width of the banner\<close>

text \<open>The columns a line takes: control sequences \<open>ESC [ ... letter\<close> take none.\<close>

fun columns :: "bool \<Rightarrow> string \<Rightarrow> nat" where
  "columns ctl [] = 0"
| "columns ctl (c # s) =
     (if ctl then columns (\<not> (c \<in> set ''mHJA'')) s
      else if c = hd esc then columns True s
      else Suc (columns False s))"

definition no_esc :: "string \<Rightarrow> bool" where
  "no_esc s \<longleftrightarrow> list_all (\<lambda>c. c \<noteq> hd esc) s"

lemma columns_no_esc: "no_esc s \<Longrightarrow> columns False (s @ t) = length s + columns False t"
  by (induction s) (auto simp: no_esc_def)

lemma no_esc_append [simp]: "no_esc (s @ t) \<longleftrightarrow> no_esc s \<and> no_esc t"
  by (simp add: no_esc_def)

lemma no_esc_spaces [simp]: "no_esc (replicate n CHR '' '')"
  unfolding no_esc_def esc_def by (induction n) simp_all

lemma no_esc_pad [simp]: "no_esc (pad s n) = no_esc s"
  by (simp add: pad_def)

lemma no_esc_center [simp]: "no_esc (center s n) = no_esc s"
  by (simp add: center_def)

lemma length_pad: "length s \<le> n \<Longrightarrow> length (pad s n) = n"
  by (simp add: pad_def)

lemma length_center: "length s \<le> n \<Longrightarrow> length (center s n) \<le> n"
  by (auto simp: center_def)

text \<open>One row without its line ending.\<close>

definition row_line :: "string \<Rightarrow> string \<Rightarrow> string" where
  "row_line color text = [cp437DblVert] @ color @ pad text 77 @ banner_cyan @ [cp437DblVert]"

lemma banner_row_line: "banner_row color text = row_line color text @ crlf_text"
  by (simp add: banner_row_def row_line_def)

lemma row_line_columns:
  assumes "\<And>t. columns False (color @ t) = columns False t" and "no_esc text" and "length text \<le> 77"
  shows "columns False (row_line color text) = 79"
proof -
  have e: "columns False (banner_cyan @ [cp437DblVert]) = 1"
    by (simp add: banner_cyan_def csi_def esc_def)
  have "columns False (pad text 77 @ banner_cyan @ [cp437DblVert]) = 78"
    using assms(2,3) e by (subst columns_no_esc) (simp_all add: length_pad)
  then have "columns False (color @ pad text 77 @ banner_cyan @ [cp437DblVert]) = 78"
    by (simp only: assms(1))
  then show ?thesis by (simp add: row_line_def esc_def)
qed

definition banner_lines :: "string \<Rightarrow> string list" where
  "banner_lines ver =
     [[cp437DblTopLeft] @ replicate 77 cp437DblHoriz @ [cp437DblTopRight]]
     @ map (row_line (csi @ ''1;33m'')) logo_rows
     @ [row_line [] [],
        row_line (csi @ ''1;37m'') (center (''Telix Modem Gateway v'' @ ver) 77),
        row_line (csi @ ''0;37m'') (center ''Hayes Compatible 56000 BPS'' 77),
        row_line [] [],
        [cp437DblTeeRight] @ replicate 77 cp437DblHoriz @ [cp437DblTeeLeft],
        row_line (csi @ ''0;32m'') ''  Ready to receive commands. Type AT to test, ATDT<number> to dial.'',
        row_line (csi @ ''0;32m'') ''  Use +++ (with pause) to escape data mode, ATH to hang up.'',
        [cp437DblBotLeft] @ replicate 77 cp437DblHoriz @ [cp437DblBotRight]]"

lemma build_banner_lines:
  "build_banner ver = csi @ ''2J'' @ csi @ ''H'' @ banner_cyan
     @ concat (map (\<lambda>l. l @ crlf_text) (banner_lines ver)) @ csi @ ''0m''"
proof -
  have "concat (map (banner_row c) rs) = concat (map (\<lambda>l. l @ crlf_text) (map (row_line c) rs))" for c rs
    by (induction rs) (simp_all add: banner_row_line)
  then show ?thesis
    by (simp add: build_banner_def banner_lines_def banner_row_line Let_def)
qed

lemma bar_columns: "a \<noteq> hd esc \<Longrightarrow> b \<noteq> hd esc \<Longrightarrow> columns False ([a] @ replicate 77 cp437DblHoriz @ [b]) = 79"
proof -
  assume ab: "a \<noteq> hd esc" "b \<noteq> hd esc"
  have "no_esc ([a] @ replicate 77 cp437DblHoriz @ [b])"
    using ab by (simp add: no_esc_def list_all_iff esc_def)
  then show ?thesis using columns_no_esc [of "[a] @ replicate 77 cp437DblHoriz @ [b]" "[]"] by simp
qed

lemma logo_rows_ok: "list_all (\<lambda>r. no_esc r \<and> length r \<le> 77) logo_rows"
  by (simp add: logo_rows_def no_esc_def list_all_iff esc_def)

lemma banner_lines_columns:
  assumes "no_esc ver" and "length ver \<le> 56"
  shows "list_all (\<lambda>l. columns False l = 79) (banner_lines ver)"
proof -
  have color: "columns False ((csi @ p) @ t) = columns False t"
    if "p \<in> {''1;33m'', ''1;37m'', ''0;37m'', ''0;32m''}" for p t
    using that by (auto simp: csi_def esc_def)
  have logo: "list_all (\<lambda>l. columns False l = 79) (map (row_line (csi @ ''1;33m'')) logo_rows)"
  proof -
    have "columns False (row_line (csi @ ''1;33m'') r) = 79" if "r \<in> set logo_rows" for r
      using that logo_rows_ok by (intro row_line_columns color) (auto simp: list_all_iff)
    then show ?thesis by (simp add: list_all_iff)
  qed
  have title: "columns False (row_line (csi @ ''1;37m'') (center (''Telix Modem Gateway v'' @ ver) 77)) = 79"
  proof (intro row_line_columns color length_center)
    have "no_esc ''Telix Modem Gateway v''" by (simp add: no_esc_def esc_def)
    then show "no_esc (center (''Telix Modem Gateway v'' @ ver) 77)"
      using assms(1) by (simp only: no_esc_center no_esc_append simp_thms)
    show "length (''Telix Modem Gateway v'' @ ver) \<le> 77" using assms(2) by simp
  qed simp_all
  have sub: "columns False (row_line (csi @ ''0;37m'') (center ''Hayes Compatible 56000 BPS'' 77)) = 79"
  proof (intro row_line_columns color length_center)
    have "no_esc ''Hayes Compatible 56000 BPS''" by (simp add: no_esc_def esc_def)
    then show "no_esc (center ''Hayes Compatible 56000 BPS'' 77)" by (simp only: no_esc_center)
  qed simp_all
  have help1: "columns False (row_line (csi @ ''0;32m'')
      ''  Ready to receive commands. Type AT to test, ATDT<number> to dial.'') = 79"
    and help2: "columns False (row_line (csi @ ''0;32m'')
      ''  Use +++ (with pause) to escape data mode, ATH to hang up.'') = 79"
    by (intro row_line_columns color; simp add: no_esc_def esc_def)+
  have empty: "columns False (row_line [] []) = 79"
    by (intro row_line_columns) (simp_all add: no_esc_def)
  have bars: "columns False ([cp437DblTopLeft] @ replicate 77 cp437DblHoriz @ [cp437DblTopRight]) = 79"
    "columns False ([cp437DblTeeRight] @ replicate 77 cp437DblHoriz @ [cp437DblTeeLeft]) = 79"
    "columns False ([cp437DblBotLeft] @ replicate 77 cp437DblHoriz @ [cp437DblBotRight]) = 79"
    by (rule bar_columns; simp add: esc_def)+
  show ?thesis
    unfolding banner_lines_def
    by (simp only: list_all_append list.pred_inject logo title sub help1 help2 empty bars simp_thms)
qed

subsection \<open>Properties\<close>

text \<open>C36: Stripping removes what a DOS art tool appended, and only that: the EOF byte, the comment
  block the record announces and the record itself go, and the art comes back byte for byte,
  including any 0x1A inside it; a file that ends in no record is left as it is.\<close>

theorem strip_sauce_exact:
  assumes "sauce_record rec" and "sauce_comments rec block"
  shows "strip_sauce (art @ [0x1A] @ block @ rec) = art
    \<and> (length art < sauceSize \<or> take 7 (drop (length art - sauceSize) art) \<noteq> sauceID \<longrightarrow> strip_sauce art = art)"
  using strip_sauce_record [OF assms] strip_sauce_plain [of art] by blast

theorem strip_sauce_exact_witness:
  "strip_sauce ([65, 0x1A, 66] @ [0x1A] @ (commentID @ replicate 64 32) @ (sauceID @ replicate 97 0 @ [1] @ replicate 23 0))
     = [65, 0x1A, 66]"
proof -
  have rec: "sauce_record (sauceID @ replicate 97 0 @ [1] @ replicate 23 0)"
    by (simp add: sauce_record_def sauceSize_def)
  have com: "sauce_comments (sauceID @ replicate 97 0 @ [1] @ replicate 23 0) (commentID @ replicate 64 32)"
    by (simp add: sauce_comments_def sauceCommentsOff_def nth_append Let_def)
  show ?thesis by (rule strip_sauce_exact [OF rec com, THEN conjunct1])
qed

text \<open>After normalisation every line feed follows a carriage return; art that already does is left
  alone (so normalising twice is normalising once), nothing but carriage returns is added, and the
  length at most doubles.\<close>

theorem normalize_newlines_correct:
  "newlines_ok None (normalize_newlines art)
   \<and> normalize_newlines (normalize_newlines art) = normalize_newlines art
   \<and> filter (\<lambda>c. c \<noteq> 13) (normalize_newlines art) = filter (\<lambda>c. c \<noteq> 13) art
   \<and> length (normalize_newlines art) \<le> 2 * length art"
  unfolding normalize_newlines_def
  using normalize_newlines_from_ok [of None art] normalize_newlines_from_filter [of None art]
    normalize_newlines_from_length [of None art] normalize_newlines_from_id
  by blast

text \<open>What a caller is greeted with is never empty and is bounded, whatever the directory holds:
  either the built-in banner or art of at most twice the cap plus its frame, drawn from a file of
  the directory that is no dot file and whose extension is \<open>.ans\<close> in any case.\<close>

theorem banner_bounded:
  "banner_for fs rand art ver = bytes_of (build_banner ver)
   \<or> (\<exists>dir raw name. art = Some dir \<and> banner_for fs rand art ver = render_art raw
        \<and> name \<in> set (list_art fs dir) \<and> file_bytes fs dir name = Some raw
        \<and> length (banner_for fs rand art ver) \<le> 2 * maxBannerArtBytes + 27)"
proof (cases art)
  case None
  then show ?thesis by (simp add: banner_for_def)
next
  case (Some dir)
  let ?names = "list_art fs dir"
  show ?thesis
  proof (cases "?names = []")
    case True
    then show ?thesis by (simp add: banner_for_def pick_art_def Some)
  next
    case False
    let ?name = "?names ! (rand mod length ?names)"
    have mem: "?name \<in> set ?names" using False by (intro nth_mem) simp
    show ?thesis
    proof (cases "read_art fs dir ?name")
      case None
      then show ?thesis using False by (simp add: banner_for_def pick_art_def Some Let_def)
    next
      case (Some raw)
      then obtain content where c: "file_bytes fs dir ?name = Some content" "raw = content"
        "length raw \<le> maxBannerArtBytes"
        by (auto simp: read_art_def Let_def split: option.splits if_splits)
      have frame: "length artPrefix = 11" "length artSuffix = 16"
        by (simp_all add: artPrefix_def artSuffix_def esc_def)
      have "length (normalize_newlines (strip_sauce raw)) \<le> 2 * length (strip_sauce raw)"
        unfolding normalize_newlines_def by (rule normalize_newlines_from_length)
      also have "\<dots> \<le> 2 * maxBannerArtBytes" using c(3) strip_sauce_length [of raw] by simp
      finally have len: "length (render_art raw) \<le> 2 * maxBannerArtBytes + 27"
        by (simp add: render_art_def frame)
      have "render_art raw \<noteq> []" by (simp add: render_art_def artPrefix_def esc_def)
      then have "banner_for fs rand art ver = render_art raw"
        using False Some \<open>art = Some dir\<close> by (simp add: banner_for_def pick_art_def Let_def)
      with len mem c \<open>art = Some dir\<close> show ?thesis by auto
    qed
  qed
qed

text \<open>Every line of the built-in banner is 79 columns wide, one short of the 80 at which a terminal
  wraps, for any version string of up to 56 characters.\<close>

theorem built_in_banner_width:
  assumes "no_esc ver" and "length ver \<le> 56"
  shows "\<exists>lines. build_banner ver = csi @ ''2J'' @ csi @ ''H'' @ banner_cyan
           @ concat (map (\<lambda>l. l @ crlf_text) lines) @ csi @ ''0m''
     \<and> list_all (\<lambda>l. columns False l = 79) lines \<and> length lines = 14"
  using build_banner_lines [of ver] banner_lines_columns [OF assms]
  by (intro exI [of _ "banner_lines ver"]) (simp add: banner_lines_def logo_rows_def)

theorem built_in_banner_width_witness:
  "\<exists>lines. build_banner ''1.0.0'' = csi @ ''2J'' @ csi @ ''H'' @ banner_cyan
           @ concat (map (\<lambda>l. l @ crlf_text) lines) @ csi @ ''0m''
     \<and> list_all (\<lambda>l. columns False l = 79) lines \<and> length lines = 14"
  by (rule built_in_banner_width) (simp_all add: no_esc_def esc_def)

end
