(* ===== verification/Logging.thy ===== *)
theory Logging
  imports GoText
begin

section \<open>Structured logging (internal/logging/logger.go)\<close>

text \<open>
  Levels, events and their fields, the level filter, the session events with their sanitised fields,
  and the two output formats. An event's fields are an association list, a Go map; \<open>json.Marshal\<close> and
  \<open>%v\<close> print a map sorted by key. The formatted time is an argument of \<open>msg\<close>. A logger keeps the
  lines it has written, oldest first.
\<close>

subsection \<open>Levels\<close>

datatype log_level = DebugLevel | InfoLevel | WarnLevel | ErrorLevel

fun level_num :: "log_level \<Rightarrow> nat" where
  "level_num DebugLevel = 0"
| "level_num InfoLevel = 1"
| "level_num WarnLevel = 2"
| "level_num ErrorLevel = 3"

lemma level_num_inj: "level_num a = level_num b \<Longrightarrow> a = b"
  by (cases a; cases b) simp_all

instantiation log_level :: linorder
begin

definition less_eq_log_level :: "log_level \<Rightarrow> log_level \<Rightarrow> bool" where
  "less_eq_log_level a b \<longleftrightarrow> level_num a \<le> level_num b"

definition less_log_level :: "log_level \<Rightarrow> log_level \<Rightarrow> bool" where
  "less_log_level a b \<longleftrightarrow> level_num a < level_num b"

instance
  by standard (auto simp: less_eq_log_level_def less_log_level_def intro: level_num_inj)

end

fun level_string :: "log_level \<Rightarrow> string" where
  "level_string DebugLevel = ''debug''"
| "level_string InfoLevel = ''info''"
| "level_string WarnLevel = ''warn''"
| "level_string ErrorLevel = ''error''"

definition parse_level :: "string \<Rightarrow> log_level" where
  "parse_level s =
     (if s = ''debug'' then DebugLevel else if s = ''info'' then InfoLevel
      else if s = ''warn'' then WarnLevel else if s = ''error'' then ErrorLevel else InfoLevel)"

lemma parse_level_string: "parse_level (level_string l) = l"
  by (cases l) (simp_all add: parse_level_def)

subsection \<open>Encoding\<close>

text \<open>The length of the UTF-8 sequence a string begins with, 0 when it is not valid.\<close>

definition in_range :: "nat \<Rightarrow> nat \<Rightarrow> char \<Rightarrow> bool" where
  "in_range lo hi c \<longleftrightarrow> lo \<le> (of_char c :: nat) \<and> (of_char c :: nat) \<le> hi"

definition cont :: "char \<Rightarrow> bool" where "cont = in_range 0x80 0xBF"

definition second_lo :: "char \<Rightarrow> nat" where
  "second_lo c = (if c = CHR 0xE0 then 0xA0 else if c = CHR 0xF0 then 0x90 else 0x80)"

definition second_hi :: "char \<Rightarrow> nat" where
  "second_hi c = (if c = CHR 0xED then 0x9F else if c = CHR 0xF4 then 0x8F else 0xBF)"

fun utf8_len :: "string \<Rightarrow> nat" where
  "utf8_len [] = 0"
| "utf8_len (c # s) =
     (if in_range 0 0x7F c then 1
      else
        case s of
          [] \<Rightarrow> 0
        | d # s2 \<Rightarrow>
            if in_range 0xC2 0xDF c then (if cont d then 2 else 0)
            else
              case s2 of
                [] \<Rightarrow> 0
              | e # s3 \<Rightarrow>
                  if in_range 0xE0 0xEF c then
                    (if in_range (second_lo c) (second_hi c) d \<and> cont e then 3 else 0)
                  else
                    case s3 of
                      [] \<Rightarrow> 0
                    | f # _ \<Rightarrow>
                        if in_range 0xF0 0xF4 c
                           \<and> in_range (second_lo c) (second_hi c) d \<and> cont e \<and> cont f
                        then 4 else 0)"

definition hex_digit :: "nat \<Rightarrow> char" where
  "hex_digit n = (''0123456789abcdef'' ! n)"

text \<open>One ASCII byte inside a JSON string, with HTML characters escaped as \<open>Marshal\<close> does.\<close>

definition json_ascii :: "char \<Rightarrow> string" where
  "json_ascii c =
     (let n = (of_char c :: nat) in
      if c = CHR 0x5C \<or> c = CHR 0x22 then [CHR 0x5C, c]
      else if n = 8 then [CHR 0x5C, CHR ''b'']
      else if n = 12 then [CHR 0x5C, CHR ''f'']
      else if n = 10 then [CHR 0x5C, CHR ''n'']
      else if n = 13 then [CHR 0x5C, CHR ''r'']
      else if n = 9 then [CHR 0x5C, CHR ''t'']
      else if n < 32 \<or> c = CHR ''<'' \<or> c = CHR ''>'' \<or> c = CHR ''&''
        then [CHR 0x5C] @ ''u00'' @ [hex_digit (n div 16), hex_digit (n mod 16)]
      else [c])"

function json_body :: "string \<Rightarrow> string" where
  "json_body s =
     (case s of
        [] \<Rightarrow> []
      | c # cs \<Rightarrow>
          if in_range 0 0x7F c then json_ascii c @ json_body cs
          else if utf8_len s = 0 then [CHR 0x5C] @ ''ufffd'' @ json_body cs
          else if take 3 s = [CHR 0xE2, CHR 0x80, CHR 0xA8] then [CHR 0x5C] @ ''u2028'' @ json_body (drop 3 s)
          else if take 3 s = [CHR 0xE2, CHR 0x80, CHR 0xA9] then [CHR 0x5C] @ ''u2029'' @ json_body (drop 3 s)
          else take (utf8_len s) s @ json_body (drop (utf8_len s) s))"
  by auto
termination
  by (relation "measure length") auto

declare json_body.simps [simp del]

definition json_string :: "string \<Rightarrow> string" where
  "json_string s = [CHR 0x22] @ json_body s @ [CHR 0x22]"

subsection \<open>Events\<close>

datatype log_value = LStr string | LInt int

type_synonym log_fields = "(string \<times> log_value) list"

record logger =
  lg_level :: log_level
  lg_json :: bool
  lg_lines :: "string list"

record log_event =
  ev_level :: log_level
  ev_fields :: log_fields

definition new_logger :: "string \<Rightarrow> string \<Rightarrow> logger" where
  "new_logger level format = \<lparr>lg_level = parse_level level, lg_json = (format = ''json''), lg_lines = []\<rparr>"

definition set_level :: "string \<Rightarrow> logger \<Rightarrow> logger" where
  "set_level level l = l\<lparr>lg_level := parse_level level\<rparr>"

definition new_event :: "log_level \<Rightarrow> log_event" where
  "new_event level = \<lparr>ev_level = level, ev_fields = []\<rparr>"

definition ev_str :: "string \<Rightarrow> string \<Rightarrow> log_event \<Rightarrow> log_event" where
  "ev_str key val e = e\<lparr>ev_fields := AList.update key (LStr val) (ev_fields e)\<rparr>"

definition ev_int :: "string \<Rightarrow> int \<Rightarrow> log_event \<Rightarrow> log_event" where
  "ev_int key val e = e\<lparr>ev_fields := AList.update key (LInt val) (ev_fields e)\<rparr>"

definition ev_err :: "string option \<Rightarrow> log_event \<Rightarrow> log_event" where
  "ev_err err e = (case err of None \<Rightarrow> e | Some msg \<Rightarrow> ev_str ''error'' msg e)"

text \<open>Strings in the order Go sorts map keys: bytewise.\<close>

fun str_less_eq :: "string \<Rightarrow> string \<Rightarrow> bool" where
  "str_less_eq [] t = True"
| "str_less_eq (c # s) [] = False"
| "str_less_eq (c # s) (d # t) =
     (if c = d then str_less_eq s t else (of_char c :: nat) < of_char d)"

fun insert_key :: "string \<times> log_value \<Rightarrow> log_fields \<Rightarrow> log_fields" where
  "insert_key p [] = [p]"
| "insert_key p (q # qs) = (if str_less_eq (fst p) (fst q) then p # q # qs else q # insert_key p qs)"

definition sort_fields :: "log_fields \<Rightarrow> log_fields" where
  "sort_fields fs = foldr insert_key fs []"

fun join_with :: "string \<Rightarrow> string list \<Rightarrow> string" where
  "join_with sep [] = []"
| "join_with sep [s] = s"
| "join_with sep (s # t # ss) = s @ sep @ join_with sep (t # ss)"

definition json_value :: "log_value \<Rightarrow> string" where
  "json_value v = (case v of LStr s \<Rightarrow> json_string s | LInt n \<Rightarrow> fmt_d n)"

definition json_object :: "log_fields \<Rightarrow> string" where
  "json_object fs =
     ''{'' @ join_with '','' (map (\<lambda>(k, v). json_string k @ '':'' @ json_value v) (sort_fields fs)) @ ''}''"

definition text_value :: "log_value \<Rightarrow> string" where
  "text_value v = (case v of LStr s \<Rightarrow> s | LInt n \<Rightarrow> fmt_d n)"

definition text_map :: "log_fields \<Rightarrow> string" where
  "text_map fs =
     ''map['' @ join_with '' '' (map (\<lambda>(k, v). k @ '':'' @ text_value v) (sort_fields fs)) @ '']''"

definition newline :: string where "newline = [CHR 0x0A]"

definition msg :: "string \<Rightarrow> string \<Rightarrow> log_event \<Rightarrow> logger \<Rightarrow> logger" where
  "msg now text e l =
     (if ev_level e < lg_level l then l
      else
        let e1 = ev_str ''level'' (level_string (ev_level e)) (ev_str ''timestamp'' now e);
            e2 = (if text \<noteq> [] then ev_str ''message'' text e1 else e1);
            line = (if lg_json l then json_object (ev_fields e2) @ newline
                    else now @ '' ['' @ level_string (ev_level e) @ ''] '' @ text_map (ev_fields e2) @ newline)
        in l\<lparr>lg_lines := lg_lines l @ [line]\<rparr>)"

subsection \<open>Session events\<close>

definition printable :: "char \<Rightarrow> bool" where
  "printable c \<longleftrightarrow> 32 \<le> (of_char c :: nat) \<and> (of_char c :: nat) < 127"

definition sanitize_field :: "string \<Rightarrow> nat \<Rightarrow> string" where
  "sanitize_field s maxLen = filter printable (if length s > maxLen then take maxLen s else s)"

record session_logger =
  sl_session_id :: string
  sl_source_ip :: string

definition session_event :: "session_logger \<Rightarrow> log_level \<Rightarrow> string \<Rightarrow> log_event" where
  "session_event sl level event =
     ev_str ''source_ip'' (sl_source_ip sl)
       (ev_str ''session_id'' (sl_session_id sl) (ev_str ''event'' event (new_event level)))"

definition idle_timeout_event :: "session_logger \<Rightarrow> log_event" where
  "idle_timeout_event sl = session_event sl InfoLevel ''idle_timeout''"

definition connection_attempt_event :: "session_logger \<Rightarrow> string \<Rightarrow> string \<Rightarrow> log_event" where
  "connection_attempt_event sl number result =
     ev_str ''result'' result
       (ev_str ''dialed_number'' (sanitize_field number 100) (session_event sl InfoLevel ''connection_attempt''))"

definition invalid_command_event :: "session_logger \<Rightarrow> string \<Rightarrow> log_event" where
  "invalid_command_event sl command =
     ev_str ''command'' (sanitize_field command 100) (session_event sl WarnLevel ''invalid_command'')"

definition invalid_number_event :: "session_logger \<Rightarrow> string \<Rightarrow> log_event" where
  "invalid_number_event sl number =
     ev_str ''dialed_number'' (sanitize_field number 100) (session_event sl WarnLevel ''invalid_number'')"

definition new_connection_event :: "session_logger \<Rightarrow> log_event" where
  "new_connection_event sl = session_event sl InfoLevel ''new_connection''"

definition disconnected_event :: "session_logger \<Rightarrow> log_event" where
  "disconnected_event sl = session_event sl InfoLevel ''disconnected''"

definition missing_settings_event :: "session_logger \<Rightarrow> string \<Rightarrow> string \<Rightarrow> string \<Rightarrow> log_event" where
  "missing_settings_event sl number setting detail =
     ev_str ''detail'' (sanitize_field detail 200)
       (ev_str ''setting'' (sanitize_field setting 50)
         (ev_str ''dialed_number'' (sanitize_field number 100)
           (session_event sl WarnLevel ''missing_settings'')))"

definition rate_limited_event :: "string \<Rightarrow> string \<Rightarrow> log_event" where
  "rate_limited_event ip reason =
     ev_str ''reason'' reason (ev_str ''source_ip'' ip (ev_str ''event'' ''rate_limited'' (new_event WarnLevel)))"

subsection \<open>Facts\<close>

definition no_control :: "string \<Rightarrow> bool" where
  "no_control s \<longleftrightarrow> list_all (\<lambda>c. 32 \<le> (of_char c :: nat)) s"

lemma no_control_simps [simp]:
  "no_control []" "no_control (c # s) \<longleftrightarrow> 32 \<le> (of_char c :: nat) \<and> no_control s"
  "no_control (s @ t) \<longleftrightarrow> no_control s \<and> no_control t"
  by (simp_all add: no_control_def)

lemma hex_digit_ok: "n < 16 \<Longrightarrow> 32 \<le> (of_char (hex_digit n) :: nat)"
proof -
  assume "n < 16"
  moreover have "list_all (\<lambda>n. 32 \<le> (of_char (hex_digit n) :: nat)) [0 ..< 16]" by code_simp
  ultimately show ?thesis by (simp add: list_all_iff)
qed

lemma json_ascii_ok: "in_range 0 0x7F c \<Longrightarrow> no_control (json_ascii c)"
proof -
  assume r: "in_range 0 0x7F c"
  then have "(of_char c :: nat) div 16 < 16" by (simp add: in_range_def)
  then show ?thesis
    by (auto simp: json_ascii_def Let_def intro: hex_digit_ok)
qed

lemma high_ok:
  "\<not> in_range 0 0x7F c \<Longrightarrow> 32 \<le> (of_char c :: nat)"
  "in_range (second_lo c) hi d \<Longrightarrow> 32 \<le> (of_char d :: nat)"
  "cont d \<Longrightarrow> 32 \<le> (of_char d :: nat)"
  by (auto simp: in_range_def cont_def second_lo_def split: if_splits)

lemma utf8_take_ok:
  assumes "\<not> in_range 0 0x7F c"
  shows "no_control (take (utf8_len (c # s)) (c # s))"
proof -
  consider "s = []" | d where "s = [d]" | d e where "s = [d, e]" | d e f r where "s = d # e # f # r"
    by (metis neq_Nil_conv)
  then show ?thesis
    by cases (use assms in \<open>auto dest: high_ok\<close>)
qed

lemma json_body_ok: "no_control (json_body s)"
proof (induction s rule: json_body.induct)
  case (1 s)
  show ?case
  proof (cases s)
    case Nil
    then show ?thesis by (simp add: json_body.simps)
  next
    case (Cons c cs)
    show ?thesis
      using 1 Cons json_ascii_ok [of c] utf8_take_ok [of c cs]
      by (subst json_body.simps) (auto simp del: utf8_len.simps)
  qed
qed

lemma json_string_ok: "no_control (json_string s)"
  by (simp add: json_string_def json_body_ok)

lemma no_control_digits: "list_all is_digit s \<Longrightarrow> no_control s"
  by (auto simp: no_control_def list_all_iff is_digit_def)

lemma no_control_fmt_d: "no_control (fmt_d n)"
proof (cases "0 \<le> n")
  case True
  then show ?thesis using fmt_d_digits no_control_digits by blast
next
  case False
  then show ?thesis
    using no_control_digits [OF nat_digits_digits] by (simp add: fmt_d_def)
qed

lemma no_control_join: "no_control sep \<Longrightarrow> list_all no_control ss \<Longrightarrow> no_control (join_with sep ss)"
  by (induction sep ss rule: join_with.induct) auto

lemma json_object_ok: "no_control (json_object fs)"
proof -
  have "no_control (json_value v)" for v
    by (cases v) (simp_all add: json_value_def json_string_ok no_control_fmt_d)
  then have "no_control (join_with '','' (map (\<lambda>(k, v). json_string k @ '':'' @ json_value v) (sort_fields fs)))"
    by (intro no_control_join) (auto simp: list_all_iff json_string_ok)
  then show ?thesis by (simp add: json_object_def)
qed

lemma sanitize_field_ok:
  "list_all printable (sanitize_field s n)" "length (sanitize_field s n) \<le> n"
  using length_filter_le [of printable "take n s"] length_filter_le [of printable s]
  by (auto simp: sanitize_field_def list_all_iff)

lemma sanitize_field_idem: "sanitize_field (sanitize_field s n) n = sanitize_field s n"
proof -
  have "\<not> length (sanitize_field s n) > n" using sanitize_field_ok(2) [of s n] by simp
  then have "sanitize_field (sanitize_field s n) n = filter printable (sanitize_field s n)"
    by (simp add: sanitize_field_def)
  also have "\<dots> = sanitize_field s n"
    using sanitize_field_ok(1) [of s n] by (simp add: filter_id_conv list_all_iff)
  finally show ?thesis .
qed

text \<open>The fields of an event whose text came from a caller.\<close>

definition field_text_ok :: "log_event \<Rightarrow> bool" where
  "field_text_ok e \<longleftrightarrow> (\<forall>k s. map_of (ev_fields e) k = Some (LStr s) \<longrightarrow> no_control s)"

lemma field_text_ok_new [simp]: "field_text_ok (new_event l)"
  by (simp add: field_text_ok_def new_event_def)

lemma field_text_ok_str [simp]: "no_control s \<Longrightarrow> field_text_ok e \<Longrightarrow> field_text_ok (ev_str k s e)"
  by (auto simp: field_text_ok_def ev_str_def)

lemma no_control_sanitize [simp]: "no_control (sanitize_field s n)"
  using sanitize_field_ok(1) [of s n] by (auto simp: no_control_def printable_def list_all_iff)

subsection \<open>Properties\<close>

text \<open>C35: In JSON format an event is one line and only one: whatever bytes its fields hold, newlines
  and invalid UTF-8 included, the line written has no control character before its final newline, so
  no field can forge a second log entry.\<close>

theorem json_log_one_line:
  assumes "lg_json l" and "lg_level l \<le> ev_level e"
  shows "\<exists>line. lg_lines (msg now text e l) = lg_lines l @ [line @ newline] \<and> no_control line"
  using assms by (auto simp: msg_def Let_def json_object_ok not_less [symmetric])

theorem json_log_one_line_witness:
  "\<exists>line. lg_lines (msg ''2024-01-01T00:00:00Z'' []
       (ev_str ''error'' [CHR ''a'', CHR 0x0A, CHR 0xFF] (new_event ErrorLevel)) (new_logger ''warn'' ''json''))
     = [] @ [line @ newline] \<and> no_control line"
proof -
  let ?e = "ev_str ''error'' [CHR ''a'', CHR 0x0A, CHR 0xFF] (new_event ErrorLevel)"
  have "lg_json (new_logger ''warn'' ''json'')" and "lg_level (new_logger ''warn'' ''json'') \<le> ev_level ?e"
    by (simp_all add: new_logger_def parse_level_def ev_str_def new_event_def less_eq_log_level_def)
  from json_log_one_line [OF this, of "''2024-01-01T00:00:00Z''" "[]"]
  show ?thesis by (simp add: new_logger_def)
qed

text \<open>What a caller typed reaches the log cut to its limit and stripped to printable ASCII, and
  sanitising it again changes nothing, so every text field of a caller's event is free of control
  characters in either format.\<close>

theorem caller_text_sanitised:
  assumes "no_control (sl_session_id sl)" and "no_control (sl_source_ip sl)"
  shows "list_all printable (sanitize_field s n) \<and> length (sanitize_field s n) \<le> n
     \<and> sanitize_field (sanitize_field s n) n = sanitize_field s n
     \<and> field_text_ok (invalid_command_event sl s) \<and> field_text_ok (invalid_number_event sl s)
     \<and> field_text_ok (missing_settings_event sl s ''init'' s)"
  using assms sanitize_field_ok [of s n] sanitize_field_idem [of s n]
  by (simp add: invalid_command_event_def invalid_number_event_def missing_settings_event_def
      session_event_def)

theorem caller_text_sanitised_witness:
  "field_text_ok (invalid_command_event \<lparr>sl_session_id = ''0a1b2c3d'', sl_source_ip = ''10.0.0.1''\<rparr>
     [CHR ''A'', CHR 0x0A, CHR 0x1B])"
proof -
  have "no_control (sl_session_id \<lparr>sl_session_id = ''0a1b2c3d'', sl_source_ip = ''10.0.0.1''\<rparr>)"
    and "no_control (sl_source_ip \<lparr>sl_session_id = ''0a1b2c3d'', sl_source_ip = ''10.0.0.1''\<rparr>)"
    by simp_all
  from caller_text_sanitised [OF this] show ?thesis by blast
qed

end
