(* ===== verification/DialerNet.thy ===== *)
theory DialerNet
  imports Telnet NetAddr
begin

section \<open>Outbound connections (internal/dialer/dialer.go, Dialer)\<close>

text \<open>
  \<open>Dial\<close>, \<open>Probe\<close> and the check against the allowed networks. The network is a parameter, a record
  of what the resolver answers and what a TCP connect to an address comes to; an operation returns
  the effects it had on the network, in order, with its result. A connect resolves a host name on
  its own: \<open>tcp_connect\<close> is given the same text \<open>net.DialTimeout\<close> is given, and says which address
  it reached.
\<close>

datatype net_error = ConnRefused | TimedOut | NetFailure string

datatype dial_error = NotAllowed string | CannotResolve string | ResolvedOutside string string | ConnectError net_error

record network =
  lookup_host :: "string \<Rightarrow> net_error + string list"
  tcp_connect :: "string \<Rightarrow> duration \<Rightarrow> net_error + ip"

datatype net_effect = Resolve string | Connect string duration | SendTo ip bytes | CloseConn ip

record dialer =
  dl_timeout :: duration
  dl_allowed :: "ip_net list"

definition new_dialer :: "duration \<Rightarrow> ip_net list \<Rightarrow> dialer" where
  "new_dialer timeout nets = \<lparr>dl_timeout = timeout, dl_allowed = nets\<rparr>"

text \<open>The loop over the resolved addresses: the first one that is not allowed ends it.\<close>

fun check_resolved :: "ip_net list \<Rightarrow> string \<Rightarrow> string list \<Rightarrow> dial_error option" where
  "check_resolved nets host [] = None"
| "check_resolved nets host (s # ss) =
     (case parse_ip s of
        None \<Rightarrow> Some (ResolvedOutside host s)
      | Some ip \<Rightarrow> if ip_allowed nets ip then check_resolved nets host ss else Some (ResolvedOutside host s))"

definition check_allowed :: "network \<Rightarrow> dialer \<Rightarrow> string \<Rightarrow> net_effect list \<times> dial_error option" where
  "check_allowed net d host =
     (case parse_ip host of
        Some ip \<Rightarrow> ([], if ip_allowed (dl_allowed d) ip then None else Some (NotAllowed host))
      | None \<Rightarrow>
          (case lookup_host net host of
             Inl _ \<Rightarrow> ([Resolve host], Some (CannotResolve host))
           | Inr ips \<Rightarrow> ([Resolve host], check_resolved (dl_allowed d) host ips)))"

definition negotiation_options :: bytes where
  "negotiation_options =
     [IAC, WILL, SUPPRESS_GO_AHEAD, IAC, DO, SUPPRESS_GO_AHEAD, IAC, WILL, TERMINAL_TYPE, IAC, WILL, NAWS]"

definition negotiation_naws :: bytes where
  "negotiation_naws = [IAC, SB, NAWS, 0, 80, 0, 24, IAC, SE]"

definition negotiate :: "ip \<Rightarrow> net_effect list" where
  "negotiate peer = [SendTo peer negotiation_options, SendTo peer negotiation_naws]"

definition dial_address :: "string \<Rightarrow> int \<Rightarrow> string" where
  "dial_address host port = join_host_port host (fmt_d port)"

text \<open>The check that runs first when networks are configured.\<close>

definition gate_check :: "network \<Rightarrow> dialer \<Rightarrow> string \<Rightarrow> net_effect list \<times> dial_error option" where
  "gate_check net d host = (if dl_allowed d \<noteq> [] then check_allowed net d host else ([], None))"

definition dial :: "network \<Rightarrow> dialer \<Rightarrow> string \<Rightarrow> int \<Rightarrow> net_effect list \<times> (dial_error + ip)" where
  "dial net d host port =
     (let addr = dial_address host port in
      case gate_check net d host of
        (effs, Some err) \<Rightarrow> (effs, Inl err)
      | (effs, None) \<Rightarrow>
          (case tcp_connect net addr (dl_timeout d) of
             Inl err \<Rightarrow> (effs @ [Connect addr (dl_timeout d)], Inl (ConnectError err))
           | Inr peer \<Rightarrow> (effs @ [Connect addr (dl_timeout d)] @ negotiate peer, Inr peer)))"

definition probe_host :: "network \<Rightarrow> dialer \<Rightarrow> string \<Rightarrow> int \<Rightarrow> net_effect list \<times> dial_error option" where
  "probe_host net d host port =
     (case gate_check net d host of
        (effs, Some err) \<Rightarrow> (effs, Some err)
      | (effs, None) \<Rightarrow>
          (let addr = dial_address host port in
           case tcp_connect net addr (dl_timeout d) of
             Inl err \<Rightarrow> (effs @ [Connect addr (dl_timeout d)], Some (ConnectError err))
           | Inr peer \<Rightarrow> (effs @ [Connect addr (dl_timeout d), CloseConn peer], None)))"

subsection \<open>Facts\<close>

definition connects :: "net_effect list \<Rightarrow> bool" where
  "connects effs \<longleftrightarrow> list_ex (\<lambda>e. case e of Connect _ _ \<Rightarrow> True | _ \<Rightarrow> False) effs"

definition sends :: "net_effect list \<Rightarrow> bool" where
  "sends effs \<longleftrightarrow> list_ex (\<lambda>e. case e of SendTo _ _ \<Rightarrow> True | _ \<Rightarrow> False) effs"

lemma connects_simps [simp]:
  "\<not> connects []" "connects (Connect a t # es)" "connects (Resolve h # es) = connects es"
  "connects (SendTo p b # es) = connects es" "connects (CloseConn p # es) = connects es"
  "connects (xs @ ys) \<longleftrightarrow> connects xs \<or> connects ys"
  by (simp_all add: connects_def)

lemma sends_simps [simp]:
  "\<not> sends []" "sends (Connect a t # es) = sends es" "sends (Resolve h # es) = sends es"
  "sends (SendTo p b # es)" "sends (CloseConn p # es) = sends es" "sends (xs @ ys) \<longleftrightarrow> sends xs \<or> sends ys"
  by (simp_all add: sends_def)

lemma check_resolved_ok:
  "check_resolved nets host ss = None \<longleftrightarrow>
     list_all (\<lambda>s. case parse_ip s of None \<Rightarrow> False | Some ip \<Rightarrow> ip_allowed nets ip) ss"
  by (induction nets host ss rule: check_resolved.induct) (auto split: option.splits)

lemma gate_check_quiet: "\<not> connects (fst (gate_check net d host)) \<and> \<not> sends (fst (gate_check net d host))"
  by (auto simp: gate_check_def check_allowed_def split: option.splits sum.splits)

lemma dial_connects_iff: "connects (fst (dial net d host port)) \<longleftrightarrow> snd (gate_check net d host) = None"
  using gate_check_quiet [of net d host]
  by (auto simp: dial_def Let_def split: prod.splits option.splits sum.splits)

lemma probe_connects_iff: "connects (fst (probe_host net d host port)) \<longleftrightarrow> snd (gate_check net d host) = None"
  using gate_check_quiet [of net d host]
  by (auto simp: probe_host_def Let_def split: prod.splits option.splits sum.splits)

lemma gate_check_passes_literal:
  "parse_ip host = Some ip \<Longrightarrow> dl_allowed d \<noteq> [] \<Longrightarrow> snd (gate_check net d host) = None \<longleftrightarrow> ip_allowed (dl_allowed d) ip"
  by (simp add: gate_check_def check_allowed_def)

lemma gate_check_passes_name:
  "parse_ip host = None \<Longrightarrow> dl_allowed d \<noteq> [] \<Longrightarrow> snd (gate_check net d host) = None \<Longrightarrow>
     \<exists>ips. lookup_host net host = Inr ips \<and>
       list_all (\<lambda>s. case parse_ip s of None \<Rightarrow> False | Some ip \<Rightarrow> ip_allowed (dl_allowed d) ip) ips"
  by (auto simp: gate_check_def check_allowed_def check_resolved_ok split: sum.splits)

subsection \<open>Properties\<close>

text \<open>C30: With allowed networks configured, neither a dial nor a probe opens a connection unless the
  host is an address inside one of them, or a name every resolved address of which is.\<close>

theorem dial_respects_networks:
  assumes "dl_allowed d \<noteq> []"
    and "connects (fst (dial net d host port)) \<or> connects (fst (probe_host net d host port))"
  shows "(\<exists>ip. parse_ip host = Some ip \<and> ip_allowed (dl_allowed d) ip)
    \<or> (\<exists>ips. lookup_host net host = Inr ips
          \<and> list_all (\<lambda>s. case parse_ip s of None \<Rightarrow> False | Some ip \<Rightarrow> ip_allowed (dl_allowed d) ip) ips)"
proof -
  have ok: "snd (gate_check net d host) = None"
    using assms(2) by (simp add: dial_connects_iff probe_connects_iff)
  show ?thesis
  proof (cases "parse_ip host")
    case None
    then show ?thesis using gate_check_passes_name [OF None assms(1) ok] by blast
  next
    case (Some ip)
    then show ?thesis using gate_check_passes_literal [OF Some assms(1), of net] ok by blast
  qed
qed

theorem dial_respects_networks_witness:
  "let net = \<lparr>lookup_host = \<lambda>h. Inr [''10.1.2.3''], tcp_connect = \<lambda>a t. Inr [10, 1, 2, 3]\<rparr>;
       d = new_dialer (30 * second) [\<lparr>net_ip = [10, 0, 0, 0], net_mask = [255, 0, 0, 0]\<rparr>]
   in (\<exists>ip. parse_ip ''bbs'' = Some ip \<and> ip_allowed (dl_allowed d) ip)
    \<or> (\<exists>ips. lookup_host net ''bbs'' = Inr ips
          \<and> list_all (\<lambda>s. case parse_ip s of None \<Rightarrow> False | Some ip \<Rightarrow> ip_allowed (dl_allowed d) ip) ips)"
proof -
  let ?net = "\<lparr>lookup_host = \<lambda>h. Inr [''10.1.2.3''], tcp_connect = \<lambda>a t. Inr [10, 1, 2, 3]\<rparr>"
  let ?d = "new_dialer (30 * second) [\<lparr>net_ip = [10, 0, 0, 0], net_mask = [255, 0, 0, 0]\<rparr>]"
  have ne: "dl_allowed ?d \<noteq> []" by (simp add: new_dialer_def)
  have "connects (fst (dial ?net ?d ''bbs'' 23))" by code_simp
  then show ?thesis
    unfolding Let_def by (intro dial_respects_networks [OF ne]) (rule disjI1)
qed

text \<open>The check does not bind the connection: the host name is resolved a second time by the
  connect, and a dial whose check saw only allowed addresses can reach one that no network allows.\<close>

theorem dial_check_then_resolve_again:
  "let d = new_dialer (30 * second) [\<lparr>net_ip = [10, 0, 0, 0], net_mask = [255, 0, 0, 0]\<rparr>];
       net = \<lparr>lookup_host = \<lambda>h. Inr [''10.1.2.3''], tcp_connect = \<lambda>a t. Inr [8, 8, 8, 8]\<rparr>
   in snd (dial net d ''bbs.example'' 23) = Inr [8, 8, 8, 8] \<and> \<not> ip_allowed (dl_allowed d) [8, 8, 8, 8]"
  by code_simp

text \<open>A probe never writes a byte to the board, and hangs up exactly when it got through; a dial
  that gets through sends the two negotiation messages and nothing else.\<close>

theorem probe_is_silent:
  "\<not> sends (fst (probe_host net d host port))
   \<and> (snd (probe_host net d host port) = None \<longleftrightarrow>
        (\<exists>peer. CloseConn peer \<in> set (fst (probe_host net d host port))))
   \<and> (\<forall>peer. snd (dial net d host port) = Inr peer \<longrightarrow>
        filter (\<lambda>e. case e of SendTo _ _ \<Rightarrow> True | _ \<Rightarrow> False) (fst (dial net d host port)) = negotiate peer)"
proof -
  have close: "CloseConn peer \<notin> set (fst (gate_check net d host))" for peer
    by (auto simp: gate_check_def check_allowed_def split: option.splits sum.splits)
  have send: "filter (\<lambda>e. case e of SendTo _ _ \<Rightarrow> True | _ \<Rightarrow> False) (fst (gate_check net d host)) = []"
    using gate_check_quiet [of net d host] by (auto simp: sends_def list_ex_iff filter_empty_conv)
  obtain effs res where g: "gate_check net d host = (effs, res)" by fastforce
  show ?thesis
    using gate_check_quiet [of net d host] close send
    by (auto simp: probe_host_def dial_def Let_def negotiate_def g split: option.splits sum.splits)
qed

theorem probe_is_silent_witness:
  "\<not> sends (fst (probe_host \<lparr>lookup_host = \<lambda>h. Inr [], tcp_connect = \<lambda>a t. Inr [1, 2, 3, 4]\<rparr>
      (new_dialer second []) ''bbs'' 23))"
  using probe_is_silent by blast

text \<open>What the gateway announces to a board is negotiation throughout: another telnet filter that
  reads it finds no data byte in it and is back in its data state.\<close>

theorem negotiation_is_no_data:
  "let (f, out, resp) = filter_bytes new_remote_telnet_filter (negotiation_options @ negotiation_naws)
   in out = [] \<and> fstate f = StData \<and> peer_speaks_telnet f"
  by code_simp

end
