(* ===== verification/Metrics.thy ===== *)
theory Metrics
  imports Prelude
begin

section \<open>The gateway's metrics (internal/metrics/metrics.go)\<close>

text \<open>
  The collectors as plain counters, gauges and label-indexed series (association lists); a histogram
  keeps the durations it observed. Registration and exposition belong to the Prometheus client and
  are not modelled, nor is rounding of floating-point counters. A nil \<open>*Metrics\<close> is \<open>None\<close>, and
  every method is a no-op on it.
\<close>

datatype reject_reason = ReasonRateLimited | ReasonLimitExceeded

datatype dial_outcome =
    OutcomeSuccess | OutcomeNoCarrier | OutcomeBusy | OutcomeTimeout | OutcomeUnknownNumber
  | OutcomeAuthFailed | OutcomeSettingsMismatch | OutcomeBlocked

datatype direction = DirectionToRemote | DirectionToClient

record metrics =
  buildInfo :: "string list"
  sessionsActive :: int
  sessionsTotal :: int
  sessionDuration :: "duration list"
  connectionsRejected :: "(reject_reason \<times> int) list"
  dialsInFlight :: int
  dialsTotal :: "((string \<times> dial_outcome) \<times> int) list"
  dialDuration :: "duration list"
  bytesTotal :: "(direction \<times> int) list"
  bbsReachable :: "((string \<times> string) \<times> bool) list"
  bbsProbeDur :: "((string \<times> string) \<times> duration) list"
  bbsProbeTime :: "((string \<times> string) \<times> time) list"
  phonebookEntry :: "(string \<times> string \<times> bool) list"

definition series :: "('k \<times> int) list \<Rightarrow> 'k \<Rightarrow> int" where
  "series al k = (case map_of al k of Some n \<Rightarrow> n | None \<Rightarrow> 0)"

definition add_series :: "'k \<Rightarrow> int \<Rightarrow> ('k \<times> int) list \<Rightarrow> ('k \<times> int) list" where
  "add_series k n al = AList.update k (series al k + n) al"

definition new_metrics :: metrics where
  "new_metrics =
     \<lparr>buildInfo = [], sessionsActive = 0, sessionsTotal = 0, sessionDuration = [],
      connectionsRejected = [(ReasonRateLimited, 0), (ReasonLimitExceeded, 0)],
      dialsInFlight = 0, dialsTotal = [], dialDuration = [],
      bytesTotal = [(DirectionToRemote, 0), (DirectionToClient, 0)],
      bbsReachable = [], bbsProbeDur = [], bbsProbeTime = [], phonebookEntry = []\<rparr>"

text \<open>\<open>if m == nil { return }\<close>\<close>

definition unless_nil :: "(metrics \<Rightarrow> metrics) \<Rightarrow> metrics option \<Rightarrow> metrics option" where
  "unless_nil f m = map_option f m"

definition set_build_info :: "string \<Rightarrow> metrics option \<Rightarrow> metrics option" where
  "set_build_info ver = unless_nil (\<lambda>m. m\<lparr>buildInfo := List.insert ver (buildInfo m)\<rparr>)"

definition session_started :: "metrics option \<Rightarrow> metrics option" where
  "session_started = unless_nil (\<lambda>m. m\<lparr>sessionsActive := sessionsActive m + 1, sessionsTotal := sessionsTotal m + 1\<rparr>)"

definition session_ended :: "duration \<Rightarrow> metrics option \<Rightarrow> metrics option" where
  "session_ended d = unless_nil (\<lambda>m. m\<lparr>sessionsActive := sessionsActive m - 1, sessionDuration := sessionDuration m @ [d]\<rparr>)"

definition connection_rejected :: "reject_reason \<Rightarrow> metrics option \<Rightarrow> metrics option" where
  "connection_rejected reason =
     unless_nil (\<lambda>m. m\<lparr>connectionsRejected := add_series reason 1 (connectionsRejected m)\<rparr>)"

definition dial_started :: "metrics option \<Rightarrow> metrics option" where
  "dial_started = unless_nil (\<lambda>m. m\<lparr>dialsInFlight := dialsInFlight m + 1\<rparr>)"

definition dial_completed :: "string \<Rightarrow> dial_outcome \<Rightarrow> duration \<Rightarrow> metrics option \<Rightarrow> metrics option" where
  "dial_completed entry outcome d =
     unless_nil (\<lambda>m. m\<lparr>dialsInFlight := dialsInFlight m - 1,
       dialsTotal := add_series (entry, outcome) 1 (dialsTotal m), dialDuration := dialDuration m @ [d]\<rparr>)"

definition bbs_probed :: "string \<Rightarrow> string \<Rightarrow> bool \<Rightarrow> duration \<Rightarrow> time \<Rightarrow> metrics option \<Rightarrow> metrics option" where
  "bbs_probed entry address reachable d now =
     unless_nil (\<lambda>m. m\<lparr>bbsReachable := AList.update (entry, address) reachable (bbsReachable m),
       bbsProbeDur := AList.update (entry, address) d (bbsProbeDur m),
       bbsProbeTime := AList.update (entry, address) now (bbsProbeTime m)\<rparr>)"

definition reset_phonebook_series :: "metrics option \<Rightarrow> metrics option" where
  "reset_phonebook_series =
     unless_nil (\<lambda>m. m\<lparr>phonebookEntry := [], bbsReachable := [], bbsProbeDur := [], bbsProbeTime := []\<rparr>)"

definition phonebook_line :: "string \<Rightarrow> string \<Rightarrow> bool \<Rightarrow> metrics option \<Rightarrow> metrics option" where
  "phonebook_line entry address busy =
     unless_nil (\<lambda>m. m\<lparr>phonebookEntry :=
       List.insert (if entry = [] then ''unnamed'' else entry, address, busy) (phonebookEntry m)\<rparr>)"

definition bytes_transferred :: "direction \<Rightarrow> int \<Rightarrow> metrics option \<Rightarrow> metrics option" where
  "bytes_transferred dir n m =
     (if n \<le> 0 then m else unless_nil (\<lambda>m. m\<lparr>bytesTotal := add_series dir n (bytesTotal m)\<rparr>) m)"

lemma unless_nil_simps [simp]: "unless_nil f None = None" "unless_nil f (Some m) = Some (f m)"
  by (simp_all add: unless_nil_def)

lemma series_add [simp]: "series (add_series k n al) k' = (if k' = k then series al k + n else series al k')"
  by (simp add: series_def add_series_def)

subsection \<open>Histories of calls\<close>

datatype metric_call =
    SessionStarted
  | SessionEnded duration
  | Rejected reject_reason
  | DialStarted
  | DialCompleted string dial_outcome duration
  | Bytes direction int

fun metric_step :: "metrics option \<Rightarrow> metric_call \<Rightarrow> metrics option" where
  "metric_step m SessionStarted = session_started m"
| "metric_step m (SessionEnded d) = session_ended d m"
| "metric_step m (Rejected r) = connection_rejected r m"
| "metric_step m DialStarted = dial_started m"
| "metric_step m (DialCompleted entry outcome d) = dial_completed entry outcome d m"
| "metric_step m (Bytes dir n) = bytes_transferred dir n m"

definition started_dials :: "metric_call list \<Rightarrow> nat" where
  "started_dials cs = length (filter (\<lambda>c. c = DialStarted) cs)"

definition completed_dials :: "metric_call list \<Rightarrow> nat" where
  "completed_dials cs = length (filter (\<lambda>c. case c of DialCompleted _ _ _ \<Rightarrow> True | _ \<Rightarrow> False) cs)"

definition started_sessions :: "metric_call list \<Rightarrow> nat" where
  "started_sessions cs = length (filter (\<lambda>c. c = SessionStarted) cs)"

definition ended_sessions :: "metric_call list \<Rightarrow> nat" where
  "ended_sessions cs = length (filter (\<lambda>c. case c of SessionEnded _ \<Rightarrow> True | _ \<Rightarrow> False) cs)"

definition metric_sum :: "('k \<times> int) list \<Rightarrow> int" where
  "metric_sum al = sum_list (map snd al)"

lemma metric_sum_update: "metric_sum (add_series k n al) = metric_sum al + n" if "distinct (map fst al)"
  using that
proof (induction al)
  case (Cons p al)
  obtain k' v where p: "p = (k', v)" by fastforce
  show ?case
  proof (cases "k' = k")
    case True
    then show ?thesis by (simp add: p metric_sum_def add_series_def series_def)
  next
    case False
    then have "add_series k n (p # al) = p # add_series k n al"
      by (simp add: p add_series_def series_def)
    with Cons p show ?thesis by (simp add: metric_sum_def)
  qed
qed (simp add: metric_sum_def add_series_def series_def)

lemma distinct_add_series: "distinct (map fst al) \<Longrightarrow> distinct (map fst (add_series k n al))"
  by (simp add: add_series_def)

text \<open>How the gauges and totals move with a history.\<close>

lemma metric_steps:
  assumes "foldl metric_step (Some m0) cs = m" and "distinct (map fst (dialsTotal m0))"
  shows "\<exists>m'. m = Some m' \<and> distinct (map fst (dialsTotal m'))
    \<and> dialsInFlight m' = dialsInFlight m0 + int (started_dials cs) - int (completed_dials cs)
    \<and> metric_sum (dialsTotal m') = metric_sum (dialsTotal m0) + int (completed_dials cs)
    \<and> sessionsActive m' = sessionsActive m0 + int (started_sessions cs) - int (ended_sessions cs)
    \<and> sessionsTotal m' = sessionsTotal m0 + int (started_sessions cs)"
  using assms
proof (induction cs arbitrary: m0)
  case (Cons c cs)
  have "metric_step (Some m0) c \<noteq> None"
    by (cases c) (simp_all add: session_started_def session_ended_def connection_rejected_def
        dial_started_def dial_completed_def bytes_transferred_def)
  then obtain m1 where m1: "metric_step (Some m0) c = Some m1" by blast
  have d1: "distinct (map fst (dialsTotal m1))"
    using Cons.prems(2) m1
    by (cases c) (auto simp: session_started_def session_ended_def connection_rejected_def
        dial_started_def dial_completed_def bytes_transferred_def distinct_add_series split: if_splits)
  have "foldl metric_step (Some m1) cs = m" using Cons.prems(1) m1 by simp
  note Cons.IH [OF this d1]
  then show ?case
    using m1 Cons.prems(2)
    by (cases c) (auto simp: session_started_def session_ended_def connection_rejected_def
        dial_started_def dial_completed_def bytes_transferred_def started_dials_def completed_dials_def
        started_sessions_def ended_sessions_def metric_sum_update split: if_splits)
qed (auto simp: started_dials_def completed_dials_def started_sessions_def ended_sessions_def)

subsection \<open>Properties\<close>

text \<open>The gauges count what is open: after any history of calls the dials in flight are those begun
  and not completed, the sessions active those begun and not ended, and the completed dials over all
  entries and outcomes add up to the number of completions.\<close>

theorem metrics_gauges_balance:
  "\<exists>m. foldl metric_step (Some new_metrics) cs = Some m
     \<and> dialsInFlight m = int (started_dials cs) - int (completed_dials cs)
     \<and> metric_sum (dialsTotal m) = int (completed_dials cs)
     \<and> sessionsActive m = int (started_sessions cs) - int (ended_sessions cs)"
  using metric_steps [of new_metrics cs] by (force simp: new_metrics_def metric_sum_def)

end
