(* ===== verification/Probe.thy ===== *)
theory Probe
  imports DialerNet Config Metrics Logging "HOL-Library.Multiset"
begin

section \<open>The reachability prober (internal/probe/probe.go)\<close>

text \<open>
  Grouping the phonebook into targets, one probe, and a cycle. The probes of a cycle run
  concurrently; each touches the entries of its own address only, so a cycle is a list of probes in
  some order, and the order does not matter. A probe takes the network, the time it took and the
  time it ended.
\<close>

definition maxConcurrent :: nat where "maxConcurrent = 8"

record probe_target =
  tg_host :: string
  tg_port :: int
  tg_address :: string
  tg_entries :: "string list"

record prober =
  pr_targets :: "probe_target list"
  pr_dialer :: dialer
  pr_interval :: duration
  pr_enabled :: bool
  pr_reachable :: "(string \<times> bool) list"

definition entry_address :: "phonebook_entry \<Rightarrow> string" where
  "entry_address e = join_host_port (pe_host e) (fmt_d (pe_port e))"

definition probed_entry :: "phonebook_entry \<Rightarrow> bool" where
  "probed_entry e \<longleftrightarrow> \<not> (pe_busy e \<or> pe_host e = [])"

definition entry_label :: "phonebook_entry \<Rightarrow> string" where
  "entry_label e = (if pe_name e = [] then entry_address e else pe_name e)"

text \<open>One round of the loop in \<open>New\<close>; \<open>byAddress\<close> finds the target of an address seen before.\<close>

definition add_entry_to :: "string \<Rightarrow> probe_target \<Rightarrow> probe_target" where
  "add_entry_to name t = t\<lparr>tg_entries := tg_entries t @ [name]\<rparr>"

definition add_target :: "probe_target list \<times> (string \<times> nat) list \<Rightarrow> phonebook_entry \<Rightarrow>
    probe_target list \<times> (string \<times> nat) list" where
  "add_target acc e =
     (case acc of (ts, byAddress) \<Rightarrow>
        if \<not> probed_entry e then acc
        else
          let address = entry_address e; name = entry_label e in
          (case map_of byAddress address of
             Some i \<Rightarrow> (ts[i := add_entry_to name (ts ! i)], byAddress)
           | None \<Rightarrow>
               (ts @ [\<lparr>tg_host = pe_host e, tg_port = pe_port e, tg_address = address, tg_entries = [name]\<rparr>],
                AList.update address (length ts) byAddress)))"

definition make_targets :: "phonebook_entry list \<Rightarrow> probe_target list" where
  "make_targets book = fst (foldl add_target ([], []) book)"

definition new_prober :: "config \<Rightarrow> prober" where
  "new_prober cfg =
     \<lparr>pr_targets = make_targets (cfg_phonebook cfg),
      pr_dialer = new_dialer (probe_get_timeout (cfg_probe cfg)) (dlc_parsed_networks (cfg_dialer cfg)),
      pr_interval = probe_get_interval (cfg_probe cfg),
      pr_enabled = pc_enabled (cfg_probe cfg), pr_reachable = []\<rparr>"

definition log_change :: "probe_target \<Rightarrow> string option \<Rightarrow> duration \<Rightarrow> prober \<Rightarrow> prober \<times> log_event list" where
  "log_change t err elapsed p =
     (let up = (err = None);
          known = map_of (pr_reachable p) (tg_address t);
          p' = p\<lparr>pr_reachable := AList.update (tg_address t) up (pr_reachable p)\<rparr>;
          fields = (\<lambda>e. ev_int ''duration_ms'' (elapsed div millisecond)
                      (ev_str ''entries'' (join_with '', '' (tg_entries t)) (ev_str ''address'' (tg_address t) e)))
      in if known = Some up then (p', [])
         else if up then (p', [fields (ev_str ''event'' ''probe_reachable'' (new_event InfoLevel))])
         else (p', [ev_err err (fields (ev_str ''event'' ''probe_unreachable'' (new_event WarnLevel)))]))"

text \<open>What \<open>err.Error()\<close> prints belongs to the network's errors and is a parameter.\<close>

definition probe_one ::
  "network \<Rightarrow> (dial_error \<Rightarrow> string) \<Rightarrow> duration \<Rightarrow> time \<Rightarrow> probe_target \<Rightarrow>
     prober \<times> metrics option \<Rightarrow> (prober \<times> metrics option) \<times> log_event list" where
  "probe_one net show_err elapsed now t pm =
     (let err = snd (probe_host net (pr_dialer (fst pm)) (tg_host t) (tg_port t));
          m' = foldl (\<lambda>m entry. bbs_probed entry (tg_address t) (err = None) elapsed now m) (snd pm) (tg_entries t);
          (p', evs) = log_change t (map_option show_err err) elapsed (fst pm)
      in ((p', m'), evs))"

fun run_cycle ::
  "network \<Rightarrow> (dial_error \<Rightarrow> string) \<Rightarrow> duration \<Rightarrow> time \<Rightarrow> probe_target list \<Rightarrow>
     prober \<times> metrics option \<Rightarrow> (prober \<times> metrics option) \<times> log_event list" where
  "run_cycle net show_err elapsed now [] pm = (pm, [])"
| "run_cycle net show_err elapsed now (t # ts) pm =
     (let (pm1, evs1) = probe_one net show_err elapsed now t pm;
          (pm2, evs2) = run_cycle net show_err elapsed now ts pm1
      in (pm2, evs1 @ evs2))"

subsection \<open>Facts: the targets\<close>

text \<open>The index map points at the target of its address, and every target is indexed.\<close>

definition indexed :: "probe_target list \<times> (string \<times> nat) list \<Rightarrow> bool" where
  "indexed acc \<longleftrightarrow> (\<forall>a i. map_of (snd acc) a = Some i \<longleftrightarrow> i < length (fst acc) \<and> tg_address (fst acc ! i) = a)"

lemma indexed_distinct:
  assumes "indexed acc"
  shows "distinct (map tg_address (fst acc))"
proof -
  have "i = j" if "i < length (fst acc)" "j < length (fst acc)"
    "tg_address (fst acc ! i) = tg_address (fst acc ! j)" for i j
    using that assms unfolding indexed_def by (metis option.inject)
  then show ?thesis by (auto simp: distinct_conv_nth)
qed

lemma indexed_add:
  assumes "indexed acc"
  shows "indexed (add_target acc e)"
proof -
  obtain ts ix where acc: "acc = (ts, ix)" by fastforce
  have i: "map_of ix a = Some i \<longleftrightarrow> i < length ts \<and> tg_address (ts ! i) = a" for a i
    using assms by (simp add: indexed_def acc)
  show ?thesis
  proof (cases "probed_entry e")
    case False
    then show ?thesis using assms by (simp add: add_target_def acc)
  next
    case True
    show ?thesis
    proof (cases "map_of ix (entry_address e)")
      case (Some k)
      then have "k < length ts" using i by blast
      moreover have "add_target acc e = (ts[k := add_entry_to (entry_label e) (ts ! k)], ix)"
        using True Some by (simp add: add_target_def acc Let_def)
      ultimately show ?thesis
        using i by (auto simp: indexed_def nth_list_update add_entry_to_def)
    next
      case None
      then have fresh: "tg_address (ts ! k) \<noteq> entry_address e" if "k < length ts" for k
        using that i by (metis option.distinct(1))
      have new: "add_target acc e =
          (ts @ [\<lparr>tg_host = pe_host e, tg_port = pe_port e, tg_address = entry_address e,
                  tg_entries = [entry_label e]\<rparr>], AList.update (entry_address e) (length ts) ix)"
        using True None by (simp add: add_target_def acc Let_def)
      show ?thesis
        using i fresh unfolding indexed_def new by (auto simp: nth_append less_Suc_eq)
    qed
  qed
qed

text \<open>The labels under an address are those of the entries that have it, in phonebook order.\<close>

definition labels_at :: "string \<Rightarrow> phonebook_entry list \<Rightarrow> string list" where
  "labels_at a book = map entry_label (filter (\<lambda>e. probed_entry e \<and> entry_address e = a) book)"

definition entries_at :: "string \<Rightarrow> probe_target list \<Rightarrow> string list" where
  "entries_at a ts = concat (map tg_entries (filter (\<lambda>t. tg_address t = a) ts))"

lemma filter_distinct_nth:
  assumes "distinct (map f xs)" and "k < length xs"
  shows "filter (\<lambda>x. f x = f (xs ! k)) xs = [xs ! k]"
  using assms
proof (induction xs arbitrary: k)
  case (Cons x xs)
  show ?case
  proof (cases k)
    case 0
    have "f x \<notin> f ` set xs" using Cons.prems(1) by simp
    then have "filter (\<lambda>y. f y = f x) xs = []" by (simp add: filter_empty_conv image_iff) metis
    then show ?thesis by (simp add: 0)
  next
    case (Suc j)
    then have "f x \<noteq> f (xs ! j)" using Cons.prems by (metis distinct.simps(2) imageI length_Cons
          list.set_map list.simps(9) not_less_eq nth_mem)
    with Suc Cons show ?thesis by simp
  qed
qed simp

lemma entries_at_add:
  assumes "indexed acc"
  shows "entries_at a (fst (add_target acc e)) =
    entries_at a (fst acc) @ (if probed_entry e \<and> entry_address e = a then [entry_label e] else [])"
proof -
  obtain ts ix where acc: "acc = (ts, ix)" by fastforce
  have i: "map_of ix a = Some i \<longleftrightarrow> i < length ts \<and> tg_address (ts ! i) = a" for a i
    using assms by (simp add: indexed_def acc)
  have d: "distinct (map tg_address ts)" using indexed_distinct [OF assms] by (simp add: acc)
  show ?thesis
  proof (cases "probed_entry e")
    case False
    then show ?thesis by (simp add: add_target_def acc)
  next
    case True
    show ?thesis
    proof (cases "map_of ix (entry_address e)")
      case None
      with True show ?thesis
        by (auto simp: add_target_def acc Let_def entries_at_def)
    next
      case (Some k)
      then have k: "k < length ts" "tg_address (ts ! k) = entry_address e" using i by blast+
      let ?u = "add_entry_to (entry_label e) (ts ! k)"
      let ?ts = "ts[k := ?u]"
      have addr: "map tg_address ?ts = map tg_address ts"
        using k by (simp add: map_update add_entry_to_def) (metis k(2) list_update_id map_update nth_map)
      have new: "fst (add_target acc e) = ?ts" using True Some by (simp add: add_target_def acc Let_def)
      show ?thesis
      proof (cases "entry_address e = a")
        case True
        have "filter (\<lambda>t. tg_address t = a) ts = [ts ! k]"
          using filter_distinct_nth [OF d k(1)] k(2) True by simp
        moreover have "filter (\<lambda>t. tg_address t = a) ?ts = [?u]"
          using filter_distinct_nth [of tg_address ?ts k] d addr k True by (simp add: add_entry_to_def)
        ultimately show ?thesis
          using True \<open>probed_entry e\<close> new by (simp add: entries_at_def acc add_entry_to_def)
      next
        case False
        have "filter (\<lambda>t. tg_address t = a) ?ts = filter (\<lambda>t. tg_address t = a) ts"
        proof -
          let ?P = "\<lambda>t. tg_address t = a"
          have "filter ?P ?ts = filter ?P (take k ts @ ?u # drop (Suc k) ts)"
            using k(1) by (simp only: upd_conv_take_nth_drop)
          also have "\<dots> = filter ?P (take k ts @ ts ! k # drop (Suc k) ts)"
            using k(2) False by (simp add: add_entry_to_def)
          also have "\<dots> = filter ?P ts" using k(1) by (simp only: id_take_nth_drop [symmetric])
          finally show ?thesis .
        qed
        then show ?thesis using False new by (simp add: entries_at_def acc)
      qed
    qed
  qed
qed

lemma foldl_targets:
  "indexed acc \<Longrightarrow> indexed (foldl add_target acc book)
     \<and> entries_at a (fst (foldl add_target acc book)) = entries_at a (fst acc) @ labels_at a book"
proof (induction book arbitrary: acc)
  case (Cons e book)
  then show ?case
    using Cons.IH [of "add_target acc e"] indexed_add [of acc e] entries_at_add [of acc a e]
    by (simp add: labels_at_def)
qed (simp add: labels_at_def)

lemma make_targets_facts:
  "distinct (map tg_address (make_targets book))" "entries_at a (make_targets book) = labels_at a book"
proof -
  have e: "indexed ([], [])" by (simp add: indexed_def)
  show "distinct (map tg_address (make_targets book))"
    using foldl_targets [OF e, of book] indexed_distinct by (simp add: make_targets_def)
  show "entries_at a (make_targets book) = labels_at a book"
    using foldl_targets [OF e, of book a] by (simp add: make_targets_def entries_at_def)
qed

subsection \<open>Facts: a cycle\<close>

definition answers :: "network \<Rightarrow> dialer \<Rightarrow> probe_target \<Rightarrow> bool" where
  "answers net d t \<longleftrightarrow> snd (probe_host net d (tg_host t) (tg_port t)) = None"

text \<open>What one target's probe logs, against the verdicts known before.\<close>

definition change_events ::
  "network \<Rightarrow> (dial_error \<Rightarrow> string) \<Rightarrow> duration \<Rightarrow> prober \<Rightarrow> probe_target \<Rightarrow> log_event list" where
  "change_events net show_err elapsed p t =
     snd (log_change t (map_option show_err (snd (probe_host net (pr_dialer p) (tg_host t) (tg_port t)))) elapsed p)"

lemma probe_one_frame:
  "pr_dialer (fst (fst (probe_one net show_err elapsed now t pm))) = pr_dialer (fst pm)"
  "map_of (pr_reachable (fst (fst (probe_one net show_err elapsed now t pm)))) =
     (map_of (pr_reachable (fst pm)))(tg_address t \<mapsto> answers net (pr_dialer (fst pm)) t)"
  "snd (probe_one net show_err elapsed now t pm) = change_events net show_err elapsed (fst pm) t"
  by (simp_all add: probe_one_def log_change_def change_events_def answers_def Let_def split_beta)

lemma change_events_local:
  "pr_dialer p = pr_dialer q \<Longrightarrow> map_of (pr_reachable p) (tg_address t) = map_of (pr_reachable q) (tg_address t) \<Longrightarrow>
     change_events net show_err elapsed p t = change_events net show_err elapsed q t"
  by (simp add: change_events_def log_change_def Let_def)

lemma change_events_iff:
  "change_events net show_err elapsed p t = [] \<longleftrightarrow>
     map_of (pr_reachable p) (tg_address t) = Some (answers net (pr_dialer p) t)"
  by (simp add: change_events_def log_change_def answers_def Let_def)

lemma run_cycle_facts:
  assumes "distinct (map tg_address ts)"
  shows "pr_dialer (fst (fst (run_cycle net show_err elapsed now ts pm))) = pr_dialer (fst pm)
    \<and> snd (run_cycle net show_err elapsed now ts pm)
        = concat (map (change_events net show_err elapsed (fst pm)) ts)
    \<and> (\<forall>a. map_of (pr_reachable (fst (fst (run_cycle net show_err elapsed now ts pm)))) a =
          (case find (\<lambda>t. tg_address t = a) ts of
             Some t \<Rightarrow> Some (answers net (pr_dialer (fst pm)) t)
           | None \<Rightarrow> map_of (pr_reachable (fst pm)) a))"
  using assms
proof (induction ts arbitrary: pm)
  case (Cons t ts)
  let ?pm1 = "fst (probe_one net show_err elapsed now t pm)"
  have d: "pr_dialer (fst ?pm1) = pr_dialer (fst pm)" by (rule probe_one_frame)
  have r: "map_of (pr_reachable (fst ?pm1)) =
      (map_of (pr_reachable (fst pm)))(tg_address t \<mapsto> answers net (pr_dialer (fst pm)) t)"
    by (rule probe_one_frame)
  have other: "tg_address u \<noteq> tg_address t" if "u \<in> set ts" for u
    using Cons.prems that by (auto simp: image_iff)
  have evs: "map (change_events net show_err elapsed (fst ?pm1)) ts
      = map (change_events net show_err elapsed (fst pm)) ts"
    using d r other by (intro map_cong change_events_local) simp_all
  have none: "find (\<lambda>u. tg_address u = tg_address t) ts = None"
    using other by (auto simp: find_None_iff)
  note ih = Cons.IH [of ?pm1]
  show ?case
    using ih Cons.prems d r evs none
    by (auto simp: Let_def split_beta probe_one_frame(3) split: option.splits)
qed simp

lemma find_perm:
  assumes "distinct (map f xs)" and "mset ys = mset xs"
  shows "find (\<lambda>x. f x = a) ys = find (\<lambda>x. f x = a) xs"
proof (cases "find (\<lambda>x. f x = a) xs")
  case None
  then show ?thesis using assms(2) by (metis find_None_iff set_mset_mset)
next
  case (Some x)
  then have x: "x \<in> set xs" "f x = a" by (auto simp: find_Some_iff)
  have "x \<in> set ys" using x(1) assms(2) by (metis set_mset_mset)
  then obtain y where y: "find (\<lambda>x. f x = a) ys = Some y"
    using x(2) by (metis (mono_tags, lifting) find_None_iff not_None_eq)
  then have "y \<in> set ys" "f y = a" by (auto simp: find_Some_iff)
  then have "y \<in> set xs" using assms(2) by (metis set_mset_mset)
  then have "y = x" using assms(1) x \<open>f y = a\<close> by (metis distinct_map inj_onD)
  with y Some show ?thesis by simp
qed

lemma find_own_address:
  "distinct (map f xs) \<Longrightarrow> x \<in> set xs \<Longrightarrow> find (\<lambda>y. f y = f x) xs = Some x"
proof (induction xs)
  case (Cons y xs)
  show ?case
  proof (cases "x = y")
    case False
    then have "x \<in> set xs" using Cons.prems(2) by simp
    moreover from this have "f y \<noteq> f x" using Cons.prems(1) by (auto simp: image_iff)
    ultimately show ?thesis using Cons by simp
  qed simp
qed simp

subsection \<open>Properties\<close>




end
