(* ===== verification/SessionIO.thy ===== *)
theory SessionIO
  imports Modem Telnet Config Logging Metrics DialerNet
begin

section \<open>A session and its line (internal/server/session.go, reading and writing)\<close>

text \<open>
  The session's state and the primitives everything else is made of: writing to the client, reading
  through the one buffered reader, the telnet filter between them, the line editor and the password
  prompt's editor.

  \<^item> Time is part of the state. The client's bytes are a list of arrivals with absolute times; a read
    waits for the next one or for its deadline, whichever is first, so idle time is modelled and not
    only the order of bytes. No arrival left means silence for ever.
  \<^item> \<open>s_buffered\<close> is what \<open>bufio.Reader\<close> has read ahead (4096 bytes at a time) and not handed out.
  \<^item> A write succeeds or fails as \<open>s_writes\<close> says (an exhausted list succeeds); a failed write
    delivers nothing. \<open>rand.Intn(n)\<close> takes the next of \<open>s_rand\<close> modulo \<open>n\<close> (an exhausted list is 0).
  \<^item> \<open>s_done\<close> is the channel \<open>Close\<close> closes together with the connection: from then on writes fail
    and reads find the connection closed.
  \<^item> Everything visible outside goes to \<open>s_trace\<close>, oldest first: bytes to the client, sleeps, log
    events, metric calls, effects on the network. \<open>Bridged\<close> is a write of the caller's data to the
    board, kept apart from the telnet replies, which are \<open>Network (SendTo _ _)\<close>.
\<close>

subsection \<open>State\<close>

datatype arrival = Arrive time bytes | HangUp time

datatype effect =
    ToClient bytes
  | LostWrite bytes
  | Slept duration
  | Logged log_event
  | Counted metric_call
  | Network net_effect
  | Bridged ip bytes
  | ClosedClient
  | Reports result_code

record session =
  s_config :: config
  s_modem :: modem
  s_filter :: telnet_filter
  s_banner :: bytes
  s_logger :: session_logger
  s_now :: time
  s_deadline :: time
  s_arrivals :: "arrival list"
  s_buffered :: bytes
  s_reader :: bool
  s_writes :: "bool list"
  s_rand :: "nat list"
  s_trace :: "effect list"
  s_last_input :: time
  s_last_dial :: time
  s_remote :: "ip option"
  s_dial_telnet :: string
  s_done :: bool

datatype read_error = ReadTimeout | ReadClosed | ReadTooLong | WriteBroken

definition emit :: "effect \<Rightarrow> session \<Rightarrow> session" where
  "emit e s = s\<lparr>s_trace := s_trace s @ [e]\<rparr>"

definition log_it :: "log_event \<Rightarrow> session \<Rightarrow> session" where
  "log_it e s = emit (Logged e) s"

definition count_it :: "metric_call \<Rightarrow> session \<Rightarrow> session" where
  "count_it c s = emit (Counted c) s"

definition sleep :: "duration \<Rightarrow> session \<Rightarrow> session" where
  "sleep d s = emit (Slept d) (s\<lparr>s_now := s_now s + max 0 d\<rparr>)"

definition rand_intn :: "nat \<Rightarrow> session \<Rightarrow> nat \<times> session" where
  "rand_intn n s = (case s_rand s of [] \<Rightarrow> (0, s) | r # rs \<Rightarrow> (r mod n, s\<lparr>s_rand := rs\<rparr>))"

definition write_client :: "bytes \<Rightarrow> session \<Rightarrow> bool \<times> session" where
  "write_client data s =
     (if s_done s then (False, emit (LostWrite data) s)
      else case s_writes s of
        [] \<Rightarrow> (True, emit (ToClient data) s)
      | ok # oks \<Rightarrow>
          if ok then (True, emit (ToClient data) (s\<lparr>s_writes := oks\<rparr>))
          else (False, emit (LostWrite data) (s\<lparr>s_writes := oks\<rparr>)))"

text \<open>\<open>Reports\<close> marks in the trace which result the write after it carries.\<close>

definition send_result :: "result_code \<Rightarrow> session \<Rightarrow> bool \<times> session" where
  "send_result code s =
     write_client (bytes_of (format_result_external (s_modem s) code)) (emit (Reports code) s)"

definition set_read_deadline :: "duration \<Rightarrow> session \<Rightarrow> session" where
  "set_read_deadline d s = s\<lparr>s_deadline := s_now s + d\<rparr>"

subsection \<open>Reading\<close>

text \<open>\<open>conn.Read(buf)\<close> with a buffer of \<open>k\<close> bytes; an empty arrival is no arrival.\<close>

fun next_arrival :: "nat \<Rightarrow> time \<Rightarrow> time \<Rightarrow> arrival list \<Rightarrow> (read_error + bytes) \<times> time \<times> arrival list" where
  "next_arrival k now deadline [] = (Inl ReadTimeout, max now deadline, [])"
| "next_arrival k now deadline (HangUp t # as) =
     (if deadline < max now t then (Inl ReadTimeout, max now deadline, HangUp t # as)
      else (Inl ReadClosed, max now t, HangUp t # as))"
| "next_arrival k now deadline (Arrive t bs # as) =
     (if bs = [] then next_arrival k now deadline as
      else if deadline < max now t then (Inl ReadTimeout, max now deadline, Arrive t bs # as)
      else (Inr (take k bs), max now t, if drop k bs = [] then as else Arrive t (drop k bs) # as))"

definition conn_read :: "nat \<Rightarrow> session \<Rightarrow> (read_error + bytes) \<times> session" where
  "conn_read k s =
     (if s_done s then (Inl ReadClosed, s)
      else case next_arrival k (s_now s) (s_deadline s) (s_arrivals s) of
        (res, now, as) \<Rightarrow> (res, s\<lparr>s_now := now, s_arrivals := as\<rparr>))"

text \<open>\<open>bufio.Reader.ReadByte\<close>\<close>

definition read_byte :: "session \<Rightarrow> (read_error + byte) \<times> session" where
  "read_byte s =
     (case s_buffered s of
        b # bs \<Rightarrow> (Inr b, s\<lparr>s_buffered := bs\<rparr>)
      | [] \<Rightarrow>
          (case conn_read 4096 s of
             (Inl err, s1) \<Rightarrow> (Inl err, s1)
           | (Inr bs, s1) \<Rightarrow> (Inr (hd bs), s1\<lparr>s_buffered := tl bs\<rparr>)))"

text \<open>How much input there still is: every byte handed out makes it smaller.\<close>

fun arrival_size :: "arrival \<Rightarrow> nat" where
  "arrival_size (Arrive t bs) = Suc (length bs)"
| "arrival_size (HangUp t) = 0"

definition pending :: "session \<Rightarrow> nat" where
  "pending s = length (s_buffered s) + sum_list (map arrival_size (s_arrivals s))"

lemma next_arrival_size:
  "next_arrival k now deadline as = (res, now', as') \<Longrightarrow> 0 < k \<Longrightarrow>
     (case res of
        Inl _ \<Rightarrow> sum_list (map arrival_size as') \<le> sum_list (map arrival_size as)
      | Inr bs \<Rightarrow> bs \<noteq> [] \<and> length bs + sum_list (map arrival_size as') \<le> sum_list (map arrival_size as))"
proof (induction k now deadline as rule: next_arrival.induct)
  case (3 k now deadline t bs as)
  show ?case
  proof (cases "bs = []")
    case True
    with 3 show ?thesis by (auto split: sum.splits)
  next
    case False
    with 3 show ?thesis
      by (auto simp: min_def split: if_splits)
  qed
qed (auto split: if_splits)

lemma conn_read_size:
  assumes "conn_read k s = (res, s')" and "0 < k"
  shows "case res of Inl _ \<Rightarrow> pending s' \<le> pending s
     | Inr bs \<Rightarrow> bs \<noteq> [] \<and> length bs + pending s' \<le> pending s \<and> s_buffered s' = s_buffered s"
  using assms next_arrival_size [of k "s_now s" "s_deadline s" "s_arrivals s"]
  by (auto simp: conn_read_def pending_def split: prod.splits sum.splits if_splits)

lemma read_byte_size:
  "read_byte s = (Inr b, s') \<Longrightarrow> pending s' < pending s"
proof (cases "s_buffered s")
  case (Cons c cs)
  assume "read_byte s = (Inr b, s')"
  with Cons show ?thesis by (auto simp: read_byte_def pending_def)
next
  case Nil
  assume r: "read_byte s = (Inr b, s')"
  obtain res s1 where c: "conn_read 4096 s = (res, s1)" by fastforce
  with r Nil obtain bs where bs: "res = Inr bs" "s' = s1\<lparr>s_buffered := tl bs\<rparr>"
    by (auto simp: read_byte_def split: sum.splits)
  then have "bs \<noteq> [] \<and> length bs + pending s1 \<le> pending s \<and> s_buffered s1 = []"
    using conn_read_size [OF c] Nil by simp
  then show ?thesis using bs by (cases bs) (auto simp: pending_def)
qed

lemma conn_read_Inr: "conn_read 512 s = (Inr bs, s') \<Longrightarrow> pending s' < pending s"
proof -
  assume "conn_read 512 s = (Inr bs, s')"
  from conn_read_size [OF this] show ?thesis by (cases bs) auto
qed

lemma emit_pending [simp]: "pending (emit e s) = pending s"
  by (simp add: emit_def pending_def)

lemma write_client_pending [simp]: "pending (snd (write_client data s)) = pending s"
  by (auto simp: write_client_def pending_def emit_def split: list.splits if_splits)

lemma write_client_pending': "write_client data s = (ok, s') \<Longrightarrow> pending s' = pending s"
  by (metis snd_conv write_client_pending)

text \<open>One byte through the filter, with the filter's answer written to the client.\<close>

definition filter_one :: "byte \<Rightarrow> session \<Rightarrow> bytes \<times> session" where
  "filter_one b s =
     (case filter_bytes (s_filter s) [b] of
        (f, filtered, responses) \<Rightarrow>
          let s1 = s\<lparr>s_filter := f\<rparr>
          in (filtered, if responses \<noteq> [] then snd (write_client responses s1) else s1))"

lemma pending_filter [simp]: "pending (s\<lparr>s_filter := f\<rparr>) = pending s"
  by (simp add: pending_def)

lemma filter_one_pending: "filter_one b s = (fs, s') \<Longrightarrow> pending s' = pending s"
  by (auto simp: filter_one_def Let_def split: prod.splits if_splits)

function read_filtered_byte :: "session \<Rightarrow> (read_error + byte) \<times> session" where
  "read_filtered_byte s =
     (case read_byte s of
        (Inl err, s1) \<Rightarrow> (Inl err, s1)
      | (Inr b, s1) \<Rightarrow>
          (case filter_one b s1 of
             (filtered, s2) \<Rightarrow>
               if filtered \<noteq> [] then (Inr (hd filtered), s2) else read_filtered_byte s2))"
  by auto
termination
  by (relation "measure pending")
    (auto dest!: read_byte_size [OF sym] filter_one_pending [OF sym])

declare read_filtered_byte.simps [simp del]

lemma read_filtered_byte_size:
  "read_filtered_byte s = (Inr b, s') \<Longrightarrow> pending s' < pending s"
proof (induction s rule: read_filtered_byte.induct)
  case (1 s)
  obtain r s1 where r: "read_byte s = (r, s1)" by fastforce
  show ?case
  proof (cases r)
    case (Inl err)
    then show ?thesis using 1 r by (simp add: read_filtered_byte.simps)
  next
    case (Inr c)
    obtain fs s2 where f: "filter_one c s1 = (fs, s2)" by fastforce
    have lt: "pending s2 < pending s" using read_byte_size filter_one_pending r f Inr by metis
    show ?thesis
    proof (cases "fs = []")
      case False
      then show ?thesis using 1 r f Inr lt by (simp add: read_filtered_byte.simps)
    next
      case True
      then have "read_filtered_byte s2 = (Inr b, s')"
        using 1 r f Inr by (simp add: read_filtered_byte.simps [of s])
      then show ?thesis using 1 r f Inr True lt by fastforce
    qed
  qed
qed

subsection \<open>The line editor\<close>

definition maxLineLength :: nat where "maxLineLength = 1024"
definition commandTimeout :: duration where "commandTimeout = 300 * second"

text \<open>\<open>reader.Buffered() > 0\<close>, \<open>Peek(1)\<close>, \<open>ReadByte\<close>: a buffered line feed after a carriage return.\<close>

definition drop_paired_lf :: "byte \<Rightarrow> byte \<Rightarrow> byte \<Rightarrow> session \<Rightarrow> session" where
  "drop_paired_lf b cr lf s =
     (if b = cr then
        (case s_buffered s of c # bs \<Rightarrow> if c = lf then s\<lparr>s_buffered := bs\<rparr> else s | [] \<Rightarrow> s)
      else s)"

text \<open>\<open>s.writeClient(data)\<close> when \<open>cond\<close>; an error aborts.\<close>

definition echo_if :: "bool \<Rightarrow> bytes \<Rightarrow> session \<Rightarrow> bool \<times> session" where
  "echo_if cond data s = (if cond then write_client data s else (True, s))"

lemma echo_if_pending [simp]: "pending (snd (echo_if cond data s)) = pending s"
  by (simp add: echo_if_def)

lemma echo_if_pending': "echo_if c data s = (ok, s') \<Longrightarrow> pending s' = pending s"
  by (metis snd_conv echo_if_pending)

text \<open>One round of an editor's loop: it returns, or goes round again with the line so far.\<close>

datatype edit_round = Return "read_error + bytes" | Again bytes

definition read_line_round :: "byte \<Rightarrow> byte \<Rightarrow> byte \<Rightarrow> bytes \<Rightarrow> session \<Rightarrow> edit_round \<times> session" where
  "read_line_round cr lf bs line s =
     (case read_filtered_byte s of
        (Inl err, s1) \<Rightarrow> (Return (Inl err), s1)
      | (Inr b, s1) \<Rightarrow>
          if b = cr \<or> b = lf then
            (case echo_if (echo (s_modem s1)) [cr, lf] (drop_paired_lf b cr lf s1) of
               (ok, s2) \<Rightarrow> (Return (if ok then Inr line else Inl WriteBroken), s2))
          else if b = bs \<or> b = 0x7F then
            (if line \<noteq> [] then
               (case echo_if (echo (s_modem s1)) [bs, 32, bs] s1 of
                  (ok, s2) \<Rightarrow> (if ok then Again (butlast line) else Return (Inl WriteBroken), s2))
             else (Again line, s1))
          else
            (case echo_if (echo (s_modem s1)) [b] s1 of
               (ok, s2) \<Rightarrow>
                 (if \<not> ok then Return (Inl WriteBroken)
                  else if length line \<ge> maxLineLength then Return (Inl ReadTooLong)
                  else Again (line @ [b]), s2)))"

lemma read_line_round_size:
  assumes "read_line_round cr lf bs line s = (Again line', s')"
  shows "pending s' < pending s"
proof -
  obtain r s1 where r: "read_filtered_byte s = (r, s1)" by fastforce
  show ?thesis
  proof (cases r)
    case (Inr b)
    then have "pending s' = pending s1"
      using assms r
      by (auto simp: read_line_round_def dest!: echo_if_pending' split: prod.splits if_splits)
    then show ?thesis using read_filtered_byte_size r Inr by simp
  qed (use assms r in \<open>simp add: read_line_round_def\<close>)
qed

function read_line_loop ::
  "byte \<Rightarrow> byte \<Rightarrow> byte \<Rightarrow> bytes \<Rightarrow> session \<Rightarrow> (read_error + bytes) \<times> session" where
  "read_line_loop cr lf bs line s =
     (case read_line_round cr lf bs line s of
        (Return r, s1) \<Rightarrow> (r, s1)
      | (Again line', s1) \<Rightarrow> read_line_loop cr lf bs line' s1)"
  by auto
termination
  by (relation "measure (\<lambda>(cr, lf, bs, line, s). pending s)")
    (auto dest: read_line_round_size [OF sym])

declare read_line_loop.simps [simp del]

definition read_line :: "session \<Rightarrow> (read_error + bytes) \<times> session" where
  "read_line s =
     (let regs = sregs (s_modem s)
      in read_line_loop (get_cr regs) (get_lf regs) (get_backspace regs) [] (set_read_deadline commandTimeout s))"

subsection \<open>The password prompt\<close>

definition read_password_round :: "byte \<Rightarrow> byte \<Rightarrow> byte \<Rightarrow> bytes \<Rightarrow> session \<Rightarrow> edit_round \<times> session" where
  "read_password_round cr lf bs line s =
     (case read_filtered_byte s of
        (Inl err, s1) \<Rightarrow> (Return (Inl err), s1)
      | (Inr b, s1) \<Rightarrow>
          if b = cr \<or> b = lf then
            (case write_client [cr, lf] s1 of
               (ok, s2) \<Rightarrow> (Return (if ok then Inr line else Inl WriteBroken), s2))
          else if b = bs \<or> b = 0x7F then
            (if line \<noteq> [] then
               (case write_client [bs, 32, bs] s1 of
                  (ok, s2) \<Rightarrow> (if ok then Again (butlast line) else Return (Inl WriteBroken), s2))
             else (Again line, s1))
          else if b < 0x20 then (Again line, s1)
          else if length line \<ge> maxLineLength then (Return (Inl ReadTooLong), s1)
          else
            (case write_client [42] s1 of
               (ok, s2) \<Rightarrow> (if ok then Again (line @ [b]) else Return (Inl WriteBroken), s2)))"

lemma read_password_round_size:
  assumes "read_password_round cr lf bs line s = (Again line', s')"
  shows "pending s' < pending s"
proof -
  obtain r s1 where r: "read_filtered_byte s = (r, s1)" by fastforce
  show ?thesis
  proof (cases r)
    case (Inr b)
    then have "pending s' = pending s1"
      using assms r
      by (auto simp: read_password_round_def dest!: write_client_pending' split: prod.splits if_splits)
    then show ?thesis using read_filtered_byte_size r Inr by simp
  qed (use assms r in \<open>simp add: read_password_round_def\<close>)
qed

function read_password_loop ::
  "byte \<Rightarrow> byte \<Rightarrow> byte \<Rightarrow> bytes \<Rightarrow> session \<Rightarrow> (read_error + bytes) \<times> session" where
  "read_password_loop cr lf bs line s =
     (case read_password_round cr lf bs line s of
        (Return r, s1) \<Rightarrow> (r, s1)
      | (Again line', s1) \<Rightarrow> read_password_loop cr lf bs line' s1)"
  by auto
termination
  by (relation "measure (\<lambda>(cr, lf, bs, line, s). pending s)")
    (auto dest: read_password_round_size [OF sym])

declare read_password_loop.simps [simp del]

definition read_password :: "session \<Rightarrow> (read_error + bytes) \<times> session" where
  "read_password s =
     (let regs = sregs (s_modem s)
      in read_password_loop (get_cr regs) (get_lf regs) (get_backspace regs) []
           (set_read_deadline commandTimeout s))"

subsection \<open>Draining the negotiation\<close>

text \<open>\<open>drainClientTelnet\<close>: reads of 512 bytes until one fails, filtered bytes discarded.\<close>

function drain_loop :: "session \<Rightarrow> session" where
  "drain_loop s =
     (case conn_read 512 s of
        (Inl err, s1) \<Rightarrow> s1
      | (Inr bs, s1) \<Rightarrow>
          (case filter_bytes (s_filter s1) bs of
             (f, filtered, responses) \<Rightarrow>
               let s2 = s1\<lparr>s_filter := f\<rparr> in
               if responses \<noteq> [] then
                 (case write_client responses s2 of (ok, s3) \<Rightarrow> if ok then drain_loop s3 else s3)
               else drain_loop s2))"
  by auto
termination
  by (relation "measure pending")
    (auto dest!: conn_read_Inr [OF sym] write_client_pending' [OF sym])

declare drain_loop.simps [simp del]

definition drain_client_telnet :: "session \<Rightarrow> session" where
  "drain_client_telnet s = drain_loop (set_read_deadline (200 * millisecond) s)"

subsection \<open>Facts: what reading leaves alone\<close>

text \<open>Two states that differ in the line only: clock, arrivals, buffer, filter, writes, trace.\<close>

definition same_call :: "session \<Rightarrow> session \<Rightarrow> bool" where
  "same_call s s' \<longleftrightarrow> s_config s' = s_config s \<and> s_modem s' = s_modem s \<and> s_banner s' = s_banner s
     \<and> s_logger s' = s_logger s \<and> s_reader s' = s_reader s \<and> s_rand s' = s_rand s
     \<and> s_last_input s' = s_last_input s \<and> s_last_dial s' = s_last_dial s \<and> s_remote s' = s_remote s
     \<and> s_dial_telnet s' = s_dial_telnet s \<and> s_done s' = s_done s"

fun written_by :: "(bytes \<Rightarrow> bool) \<Rightarrow> effect \<Rightarrow> bool" where
  "written_by P (ToClient d) = P d"
| "written_by P (LostWrite d) = P d"
| "written_by P _ = False"

text \<open>The trace grows by writes to the client only, all of them satisfying \<open>P\<close>.\<close>

definition only_writes :: "(bytes \<Rightarrow> bool) \<Rightarrow> session \<Rightarrow> session \<Rightarrow> bool" where
  "only_writes P s s' \<longleftrightarrow> same_call s s' \<and> (\<exists>es. s_trace s' = s_trace s @ es \<and> list_all (written_by P) es)"

lemma only_writes_refl [simp]: "only_writes P s s"
  by (simp add: only_writes_def same_call_def)

lemma only_writes_trans:
  "only_writes P s s1 \<Longrightarrow> only_writes P s1 s2 \<Longrightarrow> only_writes P s s2"
  by (fastforce simp: only_writes_def same_call_def)

lemma only_writes_same: "only_writes P s s' \<Longrightarrow> same_call s s'"
  by (simp add: only_writes_def)

lemma write_client_only: "P data \<Longrightarrow> write_client data s = (ok, s') \<Longrightarrow> only_writes P s s'"
  by (auto simp: write_client_def emit_def only_writes_def same_call_def split: list.splits if_splits)

lemma conn_read_only: "conn_read k s = (r, s') \<Longrightarrow> only_writes P s s'"
  by (auto simp: conn_read_def only_writes_def same_call_def split: prod.splits if_splits)

lemma read_byte_only: "read_byte s = (r, s') \<Longrightarrow> only_writes P s s'"
  using conn_read_only [of 4096 s]
  by (auto simp: read_byte_def only_writes_def same_call_def split: list.splits prod.splits sum.splits)

text \<open>The telnet replies a single byte can cause.\<close>

definition telnet_replies :: "bytes \<Rightarrow> bool" where
  "telnet_replies d \<longleftrightarrow> (\<exists>rs. d = concat rs \<and> list_all is_reply rs)"

lemma filter_one_only:
  assumes "\<And>d. telnet_replies d \<Longrightarrow> P d" and "filter_one b s = (fs, s')"
  shows "only_writes P s s'"
proof -
  obtain f out resp where f: "filter_bytes (s_filter s) [b] = (f, out, resp)" by (metis prod_cases3)
  have "telnet_replies resp"
    using filter_bytes_replies [of "s_filter s" "[b]"] f by (auto simp: telnet_replies_def)
  then have P: "P resp" by (rule assms(1))
  have "only_writes P s (s\<lparr>s_filter := f\<rparr>)" by (simp add: only_writes_def same_call_def)
  moreover have "only_writes P (s\<lparr>s_filter := f\<rparr>) (snd (write_client resp (s\<lparr>s_filter := f\<rparr>)))"
    using write_client_only [of P resp, OF P] by (metis prod.collapse)
  ultimately show ?thesis
    using assms(2) f by (auto simp: filter_one_def Let_def intro: only_writes_trans split: if_splits)
qed

lemma read_filtered_byte_only:
  assumes "\<And>d. telnet_replies d \<Longrightarrow> P d"
  shows "read_filtered_byte s = (r, s') \<Longrightarrow> only_writes P s s'"
proof (induction s rule: read_filtered_byte.induct)
  case (1 s)
  obtain res s1 where r: "read_byte s = (res, s1)" by fastforce
  have o1: "only_writes P s s1" using r by (rule read_byte_only)
  show ?case
  proof (cases res)
    case (Inl err)
    then show ?thesis using 1 r o1 by (simp add: read_filtered_byte.simps)
  next
    case (Inr c)
    obtain fs s2 where f: "filter_one c s1 = (fs, s2)" by fastforce
    have o2: "only_writes P s s2" by (rule only_writes_trans [OF o1 filter_one_only [OF assms f]])
    show ?thesis
    proof (cases "fs = []")
      case False
      then show ?thesis using 1 r f Inr o2 by (simp add: read_filtered_byte.simps)
    next
      case True
      then have "read_filtered_byte s2 = (r, s')"
        using 1 r f Inr by (simp add: read_filtered_byte.simps [of s])
      then have "only_writes P s2 s'" using "1.IH" [OF r [symmetric] Inr f [symmetric]] True by simp
      with o2 show ?thesis by (rule only_writes_trans)
    qed
  qed
qed

lemma echo_if_only: "P data \<Longrightarrow> echo_if c data s = (ok, s') \<Longrightarrow> only_writes P s s'"
  by (auto simp: echo_if_def intro: write_client_only split: if_splits)

lemma drop_paired_lf_only: "only_writes P s (drop_paired_lf b cr lf s)"
  by (auto simp: drop_paired_lf_def only_writes_def same_call_def split: list.splits)

lemma read_line_round_only:
  assumes "read_line_round cr lf bs line s = (r, s')"
  shows "only_writes (\<lambda>_. True) s s'"
proof -
  obtain res s1 where r: "read_filtered_byte s = (res, s1)" by fastforce
  have o1: "only_writes (\<lambda>_. True) s s1" using read_filtered_byte_only [OF TrueI r] .
  have "only_writes (\<lambda>_. True) s1 s'"
  proof (cases res)
    case (Inl err)
    then show ?thesis using assms r by (simp add: read_line_round_def)
  next
    case (Inr b)
    have "only_writes (\<lambda>_. True) s1 t" if "echo_if c d (drop_paired_lf b cr lf s1) = (ok, t)" for c d ok t
      using only_writes_trans [OF drop_paired_lf_only echo_if_only [OF TrueI that]] .
    moreover have "only_writes (\<lambda>_. True) s1 t" if "echo_if c d s1 = (ok, t)" for c d ok t
      using echo_if_only [OF TrueI that] .
    ultimately show ?thesis
      using assms r Inr by (auto simp: read_line_round_def split: prod.splits if_splits)
  qed
  with o1 show ?thesis by (rule only_writes_trans)
qed

lemma read_line_loop_only: "read_line_loop cr lf bs line s = (r, s') \<Longrightarrow> only_writes (\<lambda>_. True) s s'"
proof (induction cr lf bs line s rule: read_line_loop.induct)
  case (1 cr lf bs line s)
  obtain rd s1 where rd: "read_line_round cr lf bs line s = (rd, s1)" by fastforce
  note o = read_line_round_only [OF rd]
  show ?case
  proof (cases rd)
    case (Again line')
    then have "read_line_loop cr lf bs line' s1 = (r, s')"
      using "1.prems" rd by (simp add: read_line_loop.simps [of cr lf bs line])
    then show ?thesis using "1.IH" [OF rd [symmetric] Again] only_writes_trans [OF o] by blast
  qed (use "1.prems" rd o in \<open>simp add: read_line_loop.simps\<close>)
qed

text \<open>Writes of the password prompt: an asterisk, a rub-out, an end of line, or telnet replies.\<close>

definition prompt_write :: "byte \<Rightarrow> byte \<Rightarrow> byte \<Rightarrow> bytes \<Rightarrow> bool" where
  "prompt_write cr lf bs d \<longleftrightarrow> d = [42] \<or> d = [bs, 32, bs] \<or> d = [cr, lf] \<or> telnet_replies d"

lemma read_password_round_only:
  assumes "read_password_round cr lf bs line s = (r, s')"
  shows "only_writes (prompt_write cr lf bs) s s'"
proof -
  let ?P = "prompt_write cr lf bs"
  obtain res s1 where r: "read_filtered_byte s = (res, s1)" by fastforce
  have o1: "only_writes ?P s s1" using read_filtered_byte_only [OF _ r] by (simp add: prompt_write_def)
  have w: "only_writes ?P s1 t" if "write_client d s1 = (ok, t)" "?P d" for d ok t
    using write_client_only that by blast
  have "only_writes ?P s1 s'"
  proof (cases res)
    case (Inl err)
    then show ?thesis using assms r by (simp add: read_password_round_def)
  next
    case (Inr b)
    then show ?thesis
      using assms r w
      by (auto simp: read_password_round_def prompt_write_def split: prod.splits if_splits)
  qed
  with o1 show ?thesis by (rule only_writes_trans)
qed

lemma read_password_loop_only:
  "read_password_loop cr lf bs line s = (r, s') \<Longrightarrow> only_writes (prompt_write cr lf bs) s s'"
proof (induction cr lf bs line s rule: read_password_loop.induct)
  case (1 cr lf bs line s)
  obtain rd s1 where rd: "read_password_round cr lf bs line s = (rd, s1)" by fastforce
  note o = read_password_round_only [OF rd]
  show ?case
  proof (cases rd)
    case (Again line')
    then have "read_password_loop cr lf bs line' s1 = (r, s')"
      using "1.prems" rd by (simp add: read_password_loop.simps [of cr lf bs line])
    then show ?thesis using "1.IH" [OF rd [symmetric] Again] only_writes_trans [OF o] by blast
  qed (use "1.prems" rd o in \<open>simp add: read_password_loop.simps\<close>)
qed

lemma set_read_deadline_only: "only_writes P s (set_read_deadline d s)"
  by (simp add: set_read_deadline_def only_writes_def same_call_def)

lemma read_line_only: "read_line s = (r, s') \<Longrightarrow> only_writes (\<lambda>_. True) s s'"
  unfolding read_line_def Let_def
  by (rule only_writes_trans [OF set_read_deadline_only read_line_loop_only])

lemma read_password_only:
  assumes "read_password s = (r, s')"
  shows "only_writes (prompt_write (get_cr (sregs (s_modem s))) (get_lf (sregs (s_modem s)))
     (get_backspace (sregs (s_modem s)))) s s'"
  using assms unfolding read_password_def Let_def
  by (rule only_writes_trans [OF set_read_deadline_only read_password_loop_only])

subsection \<open>Facts: what the line editor returns\<close>

text \<open>The line the keystrokes spell: rub-outs take back the character before them.\<close>

fun edited :: "byte \<Rightarrow> bytes \<Rightarrow> bytes \<Rightarrow> bytes" where
  "edited bs line [] = line"
| "edited bs line (b # keys) =
     (if b = bs \<or> b = 0x7F then edited bs (butlast line) keys else edited bs (line @ [b]) keys)"

lemma edited_length: "length (edited bs line keys) \<le> length line + length keys"
proof (induction bs line keys rule: edited.induct)
  case (2 bs line b keys)
  then show ?case by (auto simp: butlast_conv_take) 
qed simp

text \<open>A client filter at rest passes an ordinary byte and stays at rest.\<close>

definition filter_at_rest :: "telnet_filter \<Rightarrow> bool" where
  "filter_at_rest f \<longleftrightarrow> fstate f = StData \<and> \<not> learnPeer f"

lemma filter_one_plain:
  "filter_at_rest (s_filter s) \<Longrightarrow> b \<noteq> IAC \<Longrightarrow> filter_one b s = ([b], s)"
  by (simp add: filter_one_def filter_at_rest_def filter_byte_def note_data_byte_def Let_def)

lemma read_filtered_byte_plain:
  "filter_at_rest (s_filter s) \<Longrightarrow> b \<noteq> IAC \<Longrightarrow> s_buffered s = b # rest \<Longrightarrow>
     read_filtered_byte s = (Inr b, s\<lparr>s_buffered := rest\<rparr>)"
  by (simp add: read_filtered_byte.simps read_byte_def filter_one_plain)

definition after_eol :: "byte \<Rightarrow> byte \<Rightarrow> byte \<Rightarrow> bytes \<Rightarrow> bytes" where
  "after_eol t cr lf rest =
     (if t = cr then (case rest of c # cs \<Rightarrow> if c = lf then cs else rest | [] \<Rightarrow> rest) else rest)"

text \<open>The echo of a write that cannot fail.\<close>

lemma echo_if_ok:
  "s_writes s = [] \<Longrightarrow> \<not> s_done s \<Longrightarrow> echo_if c data s = (True, if c then emit (ToClient data) s else s)"
  by (simp add: echo_if_def write_client_def)

lemma emit_fields [simp]:
  "s_buffered (emit e s) = s_buffered s" "s_filter (emit e s) = s_filter s"
  "s_writes (emit e s) = s_writes s" "s_modem (emit e s) = s_modem s" "s_done (emit e s) = s_done s"
  by (simp_all add: emit_def)

lemma read_line_loop_edits:
  assumes "filter_at_rest (s_filter s)" and "s_writes s = []" and "\<not> s_done s"
    and "s_buffered s = keys @ t # rest" and "t \<in> {cr, lf}"
    and "set (t # keys) \<inter> {IAC} = {}" and "set keys \<inter> {cr, lf} = {}"
    and "length line + length keys \<le> maxLineLength"
  shows "\<exists>s'. read_line_loop cr lf bs line s = (Inr (edited bs line keys), s')
     \<and> s_buffered s' = after_eol t cr lf rest \<and> filter_at_rest (s_filter s')"
  using assms
proof (induction keys arbitrary: line s)
  case Nil
  let ?s1 = "s\<lparr>s_buffered := rest\<rparr>"
  have "read_filtered_byte s = (Inr t, ?s1)" using Nil by (intro read_filtered_byte_plain) auto
  moreover have "s_buffered (drop_paired_lf t cr lf ?s1) = after_eol t cr lf rest"
    and "s_writes (drop_paired_lf t cr lf ?s1) = []" and "\<not> s_done (drop_paired_lf t cr lf ?s1)"
    and "s_filter (drop_paired_lf t cr lf ?s1) = s_filter s"
    using Nil by (auto simp: drop_paired_lf_def after_eol_def split: list.splits)
  ultimately show ?case
    using Nil by (auto simp: read_line_loop.simps read_line_round_def echo_if_ok)
next
  case (Cons b keys)
  let ?s1 = "s\<lparr>s_buffered := keys @ t # rest\<rparr>"
  have r: "read_filtered_byte s = (Inr b, ?s1)" using Cons.prems by (intro read_filtered_byte_plain) auto
  have ncr: "\<not> (b = cr \<or> b = lf)" using Cons.prems(7) by auto
  let ?line' = "if b = bs \<or> b = 0x7F then butlast line else line @ [b]"
  obtain s2 where s2: "read_line_round cr lf bs line s = (Again ?line', s2)"
    "s_buffered s2 = keys @ t # rest" "s_writes s2 = []" "\<not> s_done s2" "filter_at_rest (s_filter s2)"
  proof (cases "b = bs \<or> b = 0x7F")
    case True
    then show ?thesis
      using that r ncr Cons.prems
      by (cases "line = []") (auto simp: read_line_round_def echo_if_ok)
  next
    case False
    then show ?thesis
      using that r ncr Cons.prems by (auto simp: read_line_round_def echo_if_ok)
  qed
  have "length ?line' + length keys \<le> maxLineLength" using Cons.prems(8) by auto
  then obtain s' where "read_line_loop cr lf bs ?line' s2 = (Inr (edited bs ?line' keys), s')"
    "s_buffered s' = after_eol t cr lf rest" "filter_at_rest (s_filter s')"
    using Cons.IH [of s2 ?line'] s2 Cons.prems by auto
  then show ?case using s2(1) by (auto simp: read_line_loop.simps [of cr lf bs line s])
qed

subsection \<open>Properties\<close>

text \<open>C26: The line editor returns the line the caller spelled: of buffered keystrokes up to a
  terminator (with no telnet command among them and at most \<open>maxLineLength\<close> long) it returns what the
  rub-outs leave, consumes a line feed paired with a carriage return, and leaves the rest of the
  buffer for the next read.\<close>

theorem read_line_edits:
  assumes "filter_at_rest (s_filter s)" and "s_writes s = []" and "\<not> s_done s"
    and "s_buffered s = keys @ t # rest"
    and "t \<in> {get_cr (sregs (s_modem s)), get_lf (sregs (s_modem s))}"
    and "IAC \<notin> set (t # keys)"
    and "get_cr (sregs (s_modem s)) \<notin> set keys" and "get_lf (sregs (s_modem s)) \<notin> set keys"
    and "length keys \<le> maxLineLength"
  shows "\<exists>s'. read_line s = (Inr (edited (get_backspace (sregs (s_modem s))) [] keys), s')
     \<and> s_buffered s' = after_eol t (get_cr (sregs (s_modem s))) (get_lf (sregs (s_modem s))) rest
     \<and> s_modem s' = s_modem s"
proof -
  let ?s0 = "set_read_deadline commandTimeout s" and ?r = "sregs (s_modem s)"
  have "\<exists>s'. read_line_loop (get_cr ?r) (get_lf ?r) (get_backspace ?r) [] ?s0
        = (Inr (edited (get_backspace ?r) [] keys), s')
      \<and> s_buffered s' = after_eol t (get_cr ?r) (get_lf ?r) rest \<and> filter_at_rest (s_filter s')"
    using assms by (intro read_line_loop_edits) (auto simp: set_read_deadline_def)
  then obtain s' where s': "read_line s = (Inr (edited (get_backspace ?r) [] keys), s')"
    "s_buffered s' = after_eol t (get_cr ?r) (get_lf ?r) rest"
    unfolding read_line_def Let_def by auto
  moreover have "s_modem s' = s_modem s"
    using only_writes_same [OF read_line_only [OF s'(1)]] by (simp add: same_call_def)
  ultimately show ?thesis by blast
qed

definition example_session :: session where
  "example_session =
     \<lparr>s_config = default_config, s_modem = new_modem ''1.0.0'', s_filter = new_telnet_filter,
      s_banner = [], s_logger = \<lparr>sl_session_id = ''0a1b2c3d'', sl_source_ip = ''10.0.0.1''\<rparr>,
      s_now = 0, s_deadline = 0, s_arrivals = [], s_buffered = [], s_reader = True, s_writes = [],
      s_rand = [], s_trace = [], s_last_input = zero_time, s_last_dial = zero_time, s_remote = None,
      s_dial_telnet = [], s_done = False\<rparr>"

lemma example_regs:
  "get_cr (sregs (s_modem example_session)) = 13" "get_lf (sregs (s_modem example_session)) = 10"
  "get_backspace (sregs (s_modem example_session)) = 8"
  by code_simp+

theorem read_line_edits_witness:
  "\<exists>s'. read_line (example_session\<lparr>s_buffered := bytes_of ''ATX'' @ [8] @ bytes_of ''I'' @ [13, 10, 65]\<rparr>)
      = (Inr (bytes_of ''ATI''), s') \<and> s_buffered s' = [65]"
proof -
  let ?s = "example_session\<lparr>s_buffered := bytes_of ''ATX'' @ [8] @ bytes_of ''I'' @ [13, 10, 65]\<rparr>"
  let ?keys = "bytes_of ''ATX'' @ [8] @ bytes_of ''I''"
  have regs: "get_cr (sregs (s_modem ?s)) = 13" "get_lf (sregs (s_modem ?s)) = 10"
    "get_backspace (sregs (s_modem ?s)) = 8" by (simp_all add: example_regs)
  have k: "filter_at_rest (s_filter ?s)" "s_writes ?s = []" "\<not> s_done ?s" "s_buffered ?s = ?keys @ 13 # [10, 65]"
    by (simp_all add: example_session_def filter_at_rest_def new_telnet_filter_def)
  have "\<exists>s'. read_line ?s = (Inr (edited (get_backspace (sregs (s_modem ?s))) [] ?keys), s')
     \<and> s_buffered s' = after_eol 13 (get_cr (sregs (s_modem ?s))) (get_lf (sregs (s_modem ?s))) [10, 65]
     \<and> s_modem s' = s_modem ?s"
    using k by (rule read_line_edits) (simp_all add: example_regs bytes_of_def maxLineLength_def)
  moreover have "edited 8 [] ?keys = bytes_of ''ATI''" by code_simp
  ultimately show ?thesis unfolding regs by (auto simp: after_eol_def)
qed

text \<open>C27: Nothing typed at the password prompt is shown: whatever the caller sends and however the
  prompt ends, all that is written to the terminal is an asterisk per character, the rub-out
  sequence, an end of line, and telnet option replies.\<close>

theorem password_never_echoed:
  assumes "read_password s = (r, s')"
  shows "\<exists>es. s_trace s' = s_trace s @ es \<and>
     list_all (written_by (prompt_write (get_cr (sregs (s_modem s))) (get_lf (sregs (s_modem s)))
       (get_backspace (sregs (s_modem s))))) es"
  using read_password_only [OF assms] by (simp add: only_writes_def)

theorem password_never_echoed_witness:
  "\<exists>es. s_trace (snd (read_password (example_session\<lparr>s_buffered := bytes_of ''s3cret'' @ [13]\<rparr>))) = [] @ es
     \<and> list_all (written_by (prompt_write 13 10 8)) es"
proof -
  let ?s = "example_session\<lparr>s_buffered := bytes_of ''s3cret'' @ [13]\<rparr>"
  have regs: "get_cr (sregs (s_modem ?s)) = 13" "get_lf (sregs (s_modem ?s)) = 10"
    "get_backspace (sregs (s_modem ?s)) = 8" by (simp_all add: example_regs)
  from password_never_echoed [OF surjective_pairing, of ?s] show ?thesis
    unfolding regs by (simp add: example_session_def)
qed

end
