(* ===== verification/Dial.thy ===== *)
theory Dial
  imports SessionIO
begin

section \<open>Placing a call (internal/server/dial.go)\<close>

text \<open>
  \<open>handleDial\<close> and everything it calls, as functions from session to session. The dial the code runs
  in a goroutine starts at a known time and takes \<open>de_latency\<close>; a \<open>select\<close> on its channel and a timer
  is settled by which of the two comes first. The effects of that dial on the network are entered
  in the trace when it is started. \<open>crypto/rand\<close> bytes come from the same draws as \<open>math/rand\<close>.
\<close>

record dial_env =
  de_net :: network
  de_latency :: duration

definition dialCooldown :: duration where "dialCooldown = 3 * second"

subsection \<open>Pauses and results\<close>

definition random_ms :: "nat \<Rightarrow> nat \<Rightarrow> session \<Rightarrow> session" where
  "random_ms base spread s =
     (case rand_intn spread s of (r, s1) \<Rightarrow> sleep (int (base + r) * millisecond) s1)"

definition modem_handshake_pause :: "session \<Rightarrow> session" where
  "modem_handshake_pause s =
     (case rand_intn 3000 s of
        (r, s1) \<Rightarrow>
          sleep (get_carrier_detect_time (sregs (s_modem s)) * millisecond + int (2000 + r) * millisecond) s1)"

definition call_setup_pause :: "session \<Rightarrow> session" where
  "call_setup_pause s = random_ms 1200 800 s"

definition connectSpeeds :: "int list" where
  "connectSpeeds = [56000, 56000, 56000, 56000, 56000, 33600, 33600, 31200, 28800, 24000]"

definition pick_connect_speed :: "session \<Rightarrow> int \<times> session" where
  "pick_connect_speed s = (case rand_intn (length connectSpeeds) s of (r, s1) \<Rightarrow> (connectSpeeds ! r, s1))"

definition send_connect_speed :: "int \<Rightarrow> session \<Rightarrow> session" where
  "send_connect_speed speed s =
     snd (write_client (bytes_of (format_connect_result (s_modem s) speed)) (emit (Reports ResultConnect) s))"

definition send_connect :: "int \<Rightarrow> session \<Rightarrow> session" where
  "send_connect fixedSpeed s =
     (if fixedSpeed > 0 then send_connect_speed fixedSpeed s
      else if baud (s_modem s) > 0 then send_connect_speed (baud (s_modem s)) s
      else case pick_connect_speed s of (speed, s1) \<Rightarrow> send_connect_speed speed s1)"

fun ring_times :: "nat \<Rightarrow> session \<Rightarrow> session" where
  "ring_times 0 s = s"
| "ring_times (Suc n) s = ring_times n (random_ms 2500 1000 (snd (send_result ResultRing s)))"

definition send_rings :: "session \<Rightarrow> session" where
  "send_rings s = (case rand_intn 3 s of (r, s1) \<Rightarrow> ring_times (1 + r) s1)"

definition send_no_answer :: "session \<Rightarrow> session" where
  "send_no_answer s =
     (case rand_intn 5 s of (r, s1) \<Rightarrow> snd (send_result ResultNoAnswer (ring_times (4 + r) s1)))"

definition send_busy :: "session \<Rightarrow> session" where
  "send_busy s = snd (send_result ResultBusy (call_setup_pause s))"

definition send_intercept :: "session \<Rightarrow> session" where
  "send_intercept s = snd (send_result ResultNoCarrier (random_ms 2000 1500 s))"

fun random_bytes :: "nat \<Rightarrow> session \<Rightarrow> bytes \<times> session" where
  "random_bytes 0 s = ([], s)"
| "random_bytes (Suc n) s =
     (case rand_intn 256 s of (r, s1) \<Rightarrow>
        case random_bytes n s1 of (bs, s2) \<Rightarrow> (of_nat r # bs, s2))"

fun garbage_bursts :: "nat \<Rightarrow> session \<Rightarrow> session" where
  "garbage_bursts 0 s = s"
| "garbage_bursts (Suc n) s =
     (case rand_intn 25 s of (r, s1) \<Rightarrow>
        case random_bytes (8 + r) s1 of (buf, s2) \<Rightarrow>
          garbage_bursts n (random_ms 100 300 (snd (write_client buf s2))))"

definition send_garbage_connect :: "session \<Rightarrow> session" where
  "send_garbage_connect s =
     (let cr = get_cr (sregs (s_modem s)); lf = get_lf (sregs (s_modem s)) in
      case pick_connect_speed s of (speed, s1) \<Rightarrow>
        case rand_intn 4 (send_connect_speed speed s1) of (r, s2) \<Rightarrow>
          snd (send_result ResultNoCarrier (snd (write_client [cr, lf] (garbage_bursts (2 + r) s2)))))"

definition is_connection_refused :: "dial_error \<Rightarrow> bool" where
  "is_connection_refused err \<longleftrightarrow> err = ConnectError ConnRefused"

subsection \<open>Settings and password\<close>

definition missing :: "string \<Rightarrow> string \<Rightarrow> string \<Rightarrow> session \<Rightarrow> session" where
  "missing number setting detail s = log_it (missing_settings_event (s_logger s) number setting detail) s"

definition show_bool :: "bool \<Rightarrow> string" where
  "show_bool b = (if b then ''true'' else ''false'')"

definition check_required_settings :: "string \<Rightarrow> phonebook_entry \<Rightarrow> session \<Rightarrow> bool \<times> session" where
  "check_required_settings number e s =
     (let rs = pe_required e;
          m = s_modem s;
          ok1 = \<not> (rs_init rs \<noteq> [] \<and> \<not> has_sent_init m (rs_init rs));
          s1 = (if ok1 then s else missing number ''init'' (rs_init rs) s);
          ok2 = \<not> (rs_baud rs \<noteq> 0 \<and> baud m \<noteq> rs_baud rs);
          s2 = (if ok2 then s1 else
                  missing number ''baud'' (fmt_d (rs_baud rs) @ '' (modem: '' @ fmt_d (baud m) @ '')'') s1);
          haveEC = (errorCorrection m = 5);
          ok3 = (case rs_error_correction rs of None \<Rightarrow> True | Some want \<Rightarrow> want = haveEC);
          s3 = (if ok3 then s2 else missing number ''error_correction''
                  (''want '' @ show_bool (\<not> haveEC) @ '', have '' @ show_bool haveEC) s2);
          haveComp = compression m;
          ok4 = (case rs_compression rs of None \<Rightarrow> True | Some want \<Rightarrow> want = haveComp);
          s4 = (if ok4 then s3 else missing number ''compression''
                  (''want '' @ show_bool (\<not> haveComp) @ '', have '' @ show_bool haveComp) s3)
      in (ok1 \<and> ok2 \<and> ok3 \<and> ok4, s4))"

definition prompt_password :: "string \<Rightarrow> string \<Rightarrow> session \<Rightarrow> bool \<times> session" where
  "prompt_password number want s =
     (let cr = get_cr (sregs (s_modem s)); lf = get_lf (sregs (s_modem s)) in
      case write_client (bytes_of (fmt_c cr @ fmt_c lf @ ''PASSWORD: '')) s of
        (False, s1) \<Rightarrow> (False, s1)
      | (True, s1) \<Rightarrow>
          if \<not> s_reader s1 then (False, snd (send_result ResultNoCarrier s1))
          else
            case read_password s1 of
              (Inl err, s2) \<Rightarrow> (False, snd (send_result ResultNoCarrier s2))
            | (Inr got, s2) \<Rightarrow>
                if text_of got \<noteq> want then
                  (False, snd (send_result ResultNoCarrier
                     (log_it (connection_attempt_event (s_logger s2) number ''auth_failed'') s2)))
                else (True, s2))"

subsection \<open>Connecting\<close>

definition log_attempt :: "string \<Rightarrow> string \<Rightarrow> session \<Rightarrow> session" where
  "log_attempt number result s = log_it (connection_attempt_event (s_logger s) number result) s"

definition session_dialer :: "session \<Rightarrow> dialer" where
  "session_dialer s =
     new_dialer (seconds (get_connection_timeout (sregs (s_modem s)))) (dlc_parsed_networks (cfg_dialer (s_config s)))"

text \<open>The outbound dial: its effects on the network, and its result.\<close>

definition place_call :: "dial_env \<Rightarrow> phonebook_entry \<Rightarrow> session \<Rightarrow> (dial_error + ip) \<times> session" where
  "place_call env e s =
     (case dial (de_net env) (session_dialer s) (pe_host e) (pe_port e) of
        (effs, res) \<Rightarrow> (res, s\<lparr>s_trace := s_trace s @ map Network effs\<rparr>))"

definition go_online :: "ip \<Rightarrow> session \<Rightarrow> session" where
  "go_online peer s = s\<lparr>s_remote := Some peer\<rparr>"

definition set_data_mode :: "session \<Rightarrow> session" where
  "set_data_mode s = s\<lparr>s_modem := set_state StateData (s_modem s)\<rparr>"

definition gated_connect :: "dial_env \<Rightarrow> string \<Rightarrow> phonebook_entry \<Rightarrow> session \<Rightarrow> dial_outcome \<times> session" where
  "gated_connect env number e s =
     (let s1 = random_ms 400 800 (send_connect (rs_baud (pe_required e)) s) in
      case prompt_password number (pe_password e) s1 of
        (False, s2) \<Rightarrow> (OutcomeAuthFailed, s2)
      | (True, s2) \<Rightarrow>
          case place_call env e (log_attempt number ''attempting'' s2) of
            (Inl err, s3) \<Rightarrow>
              (OutcomeNoCarrier,
               snd (send_result ResultNoCarrier (log_attempt number ''failed'' (sleep (de_latency env) s3))))
          | (Inr peer, s3) \<Rightarrow>
              (OutcomeSuccess,
               log_attempt number ''success'' (set_data_mode (go_online peer (sleep (de_latency env) s3)))))"

text \<open>
  The extra rings: \<open>ready\<close> is when the dial's result arrives. \<open>True\<close> means it arrived during a ring.
\<close>

fun extra_rings :: "time \<Rightarrow> nat \<Rightarrow> session \<Rightarrow> bool \<times> session" where
  "extra_rings ready 0 s = (False, s)"
| "extra_rings ready (Suc n) s =
     (case rand_intn 1000 (snd (send_result ResultRing s)) of
        (r, s1) \<Rightarrow>
          let d = int (2500 + r) * millisecond in
          if ready \<le> s_now s1 + d then (True, sleep (ready - s_now s1) s1)
          else extra_rings ready n (sleep d s1))"

text \<open>What follows the ringing, with the dial's result.\<close>

definition answer_call :: "string \<Rightarrow> phonebook_entry \<Rightarrow> dial_error + ip \<Rightarrow> session \<Rightarrow> dial_outcome \<times> session" where
  "answer_call number e res s =
     (case res of
        Inl err \<Rightarrow>
          (OutcomeNoCarrier, snd (send_result ResultNoCarrier (log_attempt number ''failed'' s)))
      | Inr peer \<Rightarrow>
          (OutcomeSuccess,
           send_connect (rs_baud (pe_required e))
             (log_attempt number ''success'' (set_data_mode (modem_handshake_pause (go_online peer s))))))"

definition connect_ringing :: "dial_env \<Rightarrow> string \<Rightarrow> phonebook_entry \<Rightarrow> session \<Rightarrow> dial_outcome \<times> session" where
  "connect_ringing env number e s =
     (let timeout = seconds (get_connection_timeout (sregs (s_modem s)));
          s1 = log_attempt number ''attempting'' s;
          ready = s_now s1 + de_latency env in
      case place_call env e s1 of (res, s2) \<Rightarrow>
        let s3 = call_setup_pause s2;
            resolved = (ready \<le> s_now s3)
        in if resolved \<and> (case res of Inl err \<Rightarrow> is_connection_refused err | Inr _ \<Rightarrow> False) then
             (OutcomeBusy, snd (send_result ResultBusy (log_attempt number ''failed'' s3)))
           else
             case rand_intn 2 s3 of (r, s4) \<Rightarrow>
               case rand_intn 3 (ring_times (1 + r) s4) of (extra, s5) \<Rightarrow>
                 case (if resolved then (True, s5) else extra_rings ready extra s5) of
                   (True, s6) \<Rightarrow> answer_call number e res s6
                 | (False, s6) \<Rightarrow>
                     if ready \<le> s_now s6 + (timeout + 5 * second)
                     then answer_call number e res (sleep (ready - s_now s6) s6)
                     else
                       (OutcomeTimeout,
                        snd (send_result ResultNoCarrier
                          (log_attempt number ''failed'' (sleep (timeout + 5 * second) s6)))))"

subsection \<open>The dial command\<close>

text \<open>\<open>handleDial\<close> between \<open>beginDial\<close> and the deferred \<open>finish\<close>: the tracker's entry and outcome.\<close>

definition dial_body :: "dial_env \<Rightarrow> string \<Rightarrow> session \<Rightarrow> string \<times> dial_outcome \<times> session" where
  "dial_body env number s =
     (if time_sub (s_now s) (s_last_dial s) < dialCooldown then
        (''unknown'', OutcomeBlocked, snd (send_result ResultError s))
      else
        let s1 = s\<lparr>s_last_dial := s_now s\<rparr>;
            dialToneWait = seconds (get_dial_tone_wait (sregs (s_modem s1)));
            s2 = (if dialToneWait > 0 then sleep dialToneWait s1 else s1) in
        case lookup_number (cfg_phonebook (s_config s2)) number of
          None \<Rightarrow>
            (''unknown'', OutcomeUnknownNumber,
             send_intercept (log_it (invalid_number_event (s_logger s2) number) s2))
        | Some e \<Rightarrow>
            let s3 = s2\<lparr>s_dial_telnet := telnet_mode e\<rparr> in
            if pe_busy e then
              (pe_name e, OutcomeBusy, send_busy (log_attempt number ''busy'' s3))
            else
              case check_required_settings number e s3 of
                (False, s4) \<Rightarrow> (pe_name e, OutcomeSettingsMismatch, send_garbage_connect (send_rings s4))
              | (True, s4) \<Rightarrow>
                  if pe_password e \<noteq> [] then
                    (pe_name e, gated_connect env number e (modem_handshake_pause (send_rings s4)))
                  else (pe_name e, connect_ringing env number e s4))"

definition handle_dial :: "dial_env \<Rightarrow> string \<Rightarrow> session \<Rightarrow> session" where
  "handle_dial env number s =
     (let s1 = count_it DialStarted s; started = s_now s1 in
      case dial_body env number s1 of
        (entry, outcome, s2) \<Rightarrow>
          count_it (DialCompleted entry outcome (time_sub (s_now s2) started)) s2)"

end
