(* ===== verification/DialFacts.thy ===== *)
theory DialFacts
  imports Dial
begin

section \<open>What a call does and does not do\<close>

text \<open>
  Each helper of \<open>handleDial\<close> extends the trace and leaves the session's core alone. \<open>grows P s t\<close>
  says so for effects that all satisfy \<open>P\<close>; its introduction rules are shaped so that a composed
  operation is proved by running over its definition.
\<close>

definition same_core :: "session \<Rightarrow> session \<Rightarrow> bool" where
  "same_core s s' \<longleftrightarrow> s_config s' = s_config s \<and> s_modem s' = s_modem s \<and> s_banner s' = s_banner s
     \<and> s_logger s' = s_logger s \<and> s_reader s' = s_reader s
     \<and> s_last_input s' = s_last_input s \<and> s_last_dial s' = s_last_dial s \<and> s_remote s' = s_remote s
     \<and> s_dial_telnet s' = s_dial_telnet s \<and> s_done s' = s_done s"

definition extends :: "(effect \<Rightarrow> bool) \<Rightarrow> session \<Rightarrow> session \<Rightarrow> bool" where
  "extends P s s' \<longleftrightarrow> (\<exists>es. s_trace s' = s_trace s @ es \<and> list_all P es)"

definition grows :: "(effect \<Rightarrow> bool) \<Rightarrow> session \<Rightarrow> session \<Rightarrow> bool" where
  "grows P s s' \<longleftrightarrow> same_core s s' \<and> extends P s s'"

fun quiet_effect :: "effect \<Rightarrow> bool" where
  "quiet_effect (ToClient d) = True"
| "quiet_effect (LostWrite d) = True"
| "quiet_effect (Slept d) = True"
| "quiet_effect (Logged e) = True"
| "quiet_effect _ = False"

text \<open>A property of effects that sleeping, writing and logging cannot break.\<close>

definition lax :: "(effect \<Rightarrow> bool) \<Rightarrow> bool" where
  "lax P \<longleftrightarrow> (\<forall>e. quiet_effect e \<longrightarrow> P e)"

named_theorems grow_intros \<open>what extends the trace\<close>

lemma extends_refl [simp]: "extends P s s"
  by (simp add: extends_def)

lemma extends_trans: "extends P s s1 \<Longrightarrow> extends P s1 s2 \<Longrightarrow> extends P s s2"
  by (fastforce simp: extends_def)

lemma extends_mono: "extends P s s' \<Longrightarrow> (\<And>e. P e \<Longrightarrow> Q e) \<Longrightarrow> extends Q s s'"
  unfolding extends_def using list.pred_mono_strong by metis

lemma grows_refl [grow_intros, simp]: "grows P s s"
  by (simp add: grows_def same_core_def)

lemma grows_trans: "grows P s s1 \<Longrightarrow> grows P s1 s2 \<Longrightarrow> grows P s s2"
  by (auto simp: grows_def same_core_def intro: extends_trans)

lemma grows_extends: "grows P s s' \<Longrightarrow> extends P s s'"
  by (simp add: grows_def)

lemma grows_core: "grows P s s' \<Longrightarrow> same_core s s'"
  by (simp add: grows_def)

lemma grows_step: "grows P s t \<Longrightarrow> (\<And>u. grows P u (f u)) \<Longrightarrow> grows P s (f t)"
  using grows_trans by blast

lemma emit_grows: "P e \<Longrightarrow> grows P s (emit e s)"
  by (simp add: grows_def same_core_def extends_def emit_def)

lemma grows_emit [grow_intros]: "P e \<Longrightarrow> grows P s t \<Longrightarrow> grows P s (emit e t)"
  using emit_grows grows_trans by blast

lemma grows_sleep [grow_intros]: "lax P \<Longrightarrow> grows P s t \<Longrightarrow> grows P s (sleep d t)"
  by (rule grows_trans, assumption)
    (simp add: sleep_def emit_def grows_def same_core_def extends_def lax_def)

lemma grows_rand [grow_intros]: "grows P s t \<Longrightarrow> grows P s (snd (rand_intn n t))"
  by (rule grows_trans, assumption)
    (simp add: rand_intn_def grows_def same_core_def extends_def split: list.split)

lemma grows_log [grow_intros]: "lax P \<Longrightarrow> grows P s t \<Longrightarrow> grows P s (log_it e t)"
  unfolding log_it_def by (rule grows_emit) (simp_all add: lax_def)

lemma grows_write [grow_intros]: "lax P \<Longrightarrow> grows P s t \<Longrightarrow> grows P s (snd (write_client d t))"
proof (rule grows_trans, assumption)
  assume "lax P"
  then show "grows P t (snd (write_client d t))"
    by (auto simp: write_client_def emit_def grows_def same_core_def extends_def lax_def split: list.split)
qed

lemma grows_result [grow_intros]:
  "lax P \<Longrightarrow> P (Reports c) \<Longrightarrow> grows P s t \<Longrightarrow> grows P s (snd (send_result c t))"
  unfolding send_result_def by (intro grow_intros)

lemma grows_random_ms [grow_intros]: "lax P \<Longrightarrow> grows P s t \<Longrightarrow> grows P s (random_ms b n t)"
  unfolding random_ms_def split_beta by (intro grow_intros)

lemma grows_handshake [grow_intros]: "lax P \<Longrightarrow> grows P s t \<Longrightarrow> grows P s (modem_handshake_pause t)"
  unfolding modem_handshake_pause_def split_beta by (intro grow_intros)

lemma grows_setup [grow_intros]: "lax P \<Longrightarrow> grows P s t \<Longrightarrow> grows P s (call_setup_pause t)"
  unfolding call_setup_pause_def by (intro grow_intros)

lemma grows_speed [grow_intros]:
  "lax P \<Longrightarrow> P (Reports ResultConnect) \<Longrightarrow> grows P s t \<Longrightarrow> grows P s (send_connect_speed speed t)"
  unfolding send_connect_speed_def by (intro grow_intros)

lemma grows_connect [grow_intros]:
  "lax P \<Longrightarrow> P (Reports ResultConnect) \<Longrightarrow> grows P s t \<Longrightarrow> grows P s (send_connect n t)"
  by (simp add: send_connect_def pick_connect_speed_def split_beta grow_intros)

lemma grows_ring_times [grow_intros]:
  "lax P \<Longrightarrow> P (Reports ResultRing) \<Longrightarrow> grows P s t \<Longrightarrow> grows P s (ring_times n t)"
  by (induction n arbitrary: t) (simp_all add: grow_intros)

lemma grows_rings [grow_intros]:
  "lax P \<Longrightarrow> P (Reports ResultRing) \<Longrightarrow> grows P s t \<Longrightarrow> grows P s (send_rings t)"
  unfolding send_rings_def split_beta by (intro grow_intros)

lemma grows_busy [grow_intros]:
  "lax P \<Longrightarrow> P (Reports ResultBusy) \<Longrightarrow> grows P s t \<Longrightarrow> grows P s (send_busy t)"
  unfolding send_busy_def by (intro grow_intros)

lemma grows_intercept [grow_intros]:
  "lax P \<Longrightarrow> P (Reports ResultNoCarrier) \<Longrightarrow> grows P s t \<Longrightarrow> grows P s (send_intercept t)"
  unfolding send_intercept_def by (intro grow_intros)

lemma grows_random_bytes [grow_intros]: "grows P s t \<Longrightarrow> grows P s (snd (random_bytes n t))"
  by (induction n arbitrary: t) (simp_all add: split_beta grow_intros)

lemma grows_bursts [grow_intros]: "lax P \<Longrightarrow> grows P s t \<Longrightarrow> grows P s (garbage_bursts n t)"
  by (induction n arbitrary: t) (simp_all add: split_beta grow_intros)

lemma grows_garbage [grow_intros]:
  "lax P \<Longrightarrow> P (Reports ResultConnect) \<Longrightarrow> P (Reports ResultNoCarrier) \<Longrightarrow> grows P s t \<Longrightarrow>
     grows P s (send_garbage_connect t)"
  unfolding send_garbage_connect_def pick_connect_speed_def split_beta Let_def prod.sel
  by (intro grow_intros)

lemma grows_missing [grow_intros]: "lax P \<Longrightarrow> grows P s t \<Longrightarrow> grows P s (missing n f d t)"
  unfolding missing_def by (intro grow_intros)

lemma grows_settings [grow_intros]:
  "lax P \<Longrightarrow> grows P s t \<Longrightarrow> grows P s (snd (check_required_settings n e t))"
  by (simp add: check_required_settings_def Let_def grow_intros)

lemma grows_attempt [grow_intros]: "lax P \<Longrightarrow> grows P s t \<Longrightarrow> grows P s (log_attempt n r t)"
  unfolding log_attempt_def by (intro grow_intros)

lemma written_quiet: "written_by Q e \<Longrightarrow> quiet_effect e"
  by (cases e) simp_all

lemma grows_password [grow_intros]: "lax P \<Longrightarrow> grows P s t \<Longrightarrow> grows P s (snd (read_password t))"
proof (rule grows_trans, assumption)
  assume "lax P"
  obtain r t' where r: "read_password t = (r, t')" by fastforce
  obtain Q where o: "only_writes Q t t'" using read_password_only [OF r] by blast
  then obtain es where es: "s_trace t' = s_trace t @ es" "list_all (written_by Q) es"
    by (auto simp: only_writes_def)
  have "list_all P es"
    using es(2) \<open>lax P\<close> written_quiet by (auto simp: list_all_iff lax_def)
  with o es r show "grows P t (snd (read_password t))"
    by (auto simp: grows_def extends_def only_writes_def same_call_def same_core_def)
qed

lemma grows_prompt [grow_intros]:
  "lax P \<Longrightarrow> P (Reports ResultNoCarrier) \<Longrightarrow> grows P s t \<Longrightarrow> grows P s (snd (prompt_password n w t))"
proof -
  assume a: "lax P" "P (Reports ResultNoCarrier)" "grows P s t"
  let ?p = "bytes_of (fmt_c (get_cr (sregs (s_modem t))) @ fmt_c (get_lf (sregs (s_modem t))) @ ''PASSWORD: '')"
  obtain ok t1 where w: "write_client ?p t = (ok, t1)" by fastforce
  have g1: "grows P s t1" using grows_write [of P s t ?p] a w by simp
  obtain r t2 where r: "read_password t1 = (r, t2)" by fastforce
  have g2: "grows P s t2" using grows_password [of P s t1] a g1 r by simp
  show ?thesis
    using a g1 g2 w r
    by (auto simp: prompt_password_def Let_def split: bool.split sum.split intro!: grow_intros)
qed

lemma grows_extra_rings [grow_intros]:
  "lax P \<Longrightarrow> P (Reports ResultRing) \<Longrightarrow> grows P s t \<Longrightarrow> grows P s (snd (extra_rings ready n t))"
  by (induction n arbitrary: t) (simp_all add: split_beta Let_def grow_intros)

text \<open>What a call to an entry may put on the network, under the networks its configuration allows.\<close>

definition call_effect :: "dial_env \<Rightarrow> config \<Rightarrow> phonebook_entry \<Rightarrow> net_effect \<Rightarrow> bool" where
  "call_effect env cfg e eff \<longleftrightarrow>
     (\<exists>timeout. eff \<in> set (fst (dial (de_net env) (new_dialer timeout (dlc_parsed_networks (cfg_dialer cfg)))
        (pe_host e) (pe_port e))))"

lemma grows_call:
  assumes "\<And>eff. call_effect env (s_config s) e eff \<Longrightarrow> P (Network eff)" and "grows P s t"
  shows "grows P s (snd (place_call env e t))"
proof -
  have "s_config t = s_config s" using grows_core [OF assms(2)] by (simp add: same_core_def)
  then have "P (Network eff)"
    if "eff \<in> set (fst (dial (de_net env) (session_dialer t) (pe_host e) (pe_port e)))" for eff
    using that assms(1) unfolding call_effect_def session_dialer_def by metis
  then have "grows P t (snd (place_call env e t))"
    by (simp add: place_call_def grows_def same_core_def extends_def list_all_iff split_beta)
  then show ?thesis using assms(2) grows_trans by blast
qed

text \<open>The same for the steps that do change the core.\<close>

lemma extends_grows: "extends P s t \<Longrightarrow> grows P t u \<Longrightarrow> extends P s u"
  using extends_trans grows_extends by blast

lemma extends_online: "extends P s t \<Longrightarrow> extends P s (set_data_mode (go_online peer t))"
  by (simp add: extends_def set_data_mode_def go_online_def)

subsection \<open>The outcome decides the line\<close>

text \<open>On success the session holds a connection and is in data mode, on anything else nothing changed.\<close>

definition line_matches :: "dial_outcome \<Rightarrow> session \<Rightarrow> session \<Rightarrow> bool" where
  "line_matches outcome s s' \<longleftrightarrow>
     s_config s' = s_config s \<and> s_reader s' = s_reader s \<and> s_done s' = s_done s \<and>
     (if outcome = OutcomeSuccess
      then s_remote s' \<noteq> None \<and> s_modem s' = set_state StateData (s_modem s)
      else s_remote s' = s_remote s \<and> s_modem s' = s_modem s)"

lemma line_matches_grows: "grows P s s' \<Longrightarrow> outcome \<noteq> OutcomeSuccess \<Longrightarrow> line_matches outcome s s'"
  by (simp add: line_matches_def grows_def same_core_def)

lemma line_matches_trans: "same_core s t \<Longrightarrow> line_matches outcome t u \<Longrightarrow> line_matches outcome s u"
  by (auto simp: line_matches_def same_core_def)

lemma any_lax [simp]: "lax (\<lambda>_. True)"
  by (simp add: lax_def)

lemma online_line:
  assumes "same_core s t" and "\<And>P. lax P \<Longrightarrow> P (Reports ResultConnect) \<Longrightarrow> grows P (set_data_mode (go_online peer t)) u"
  shows "line_matches OutcomeSuccess s u"
  using assms(1) assms(2) [of "\<lambda>_. True"]
  by (auto simp: line_matches_def grows_def same_core_def set_data_mode_def go_online_def)

lemma handshake_online:
  "modem_handshake_pause (go_online peer t) = go_online peer (modem_handshake_pause t)"
  by (simp add: modem_handshake_pause_def go_online_def rand_intn_def sleep_def emit_def
      split: list.split prod.split)

lemma answer_call_facts:
  assumes "lax P" and "P (Reports ResultNoCarrier)" and "P (Reports ResultConnect)"
  shows "extends P t (snd (answer_call n e res t)) \<and> line_matches (fst (answer_call n e res t)) t (snd (answer_call n e res t))
    \<and> fst (answer_call n e res t) \<in> {OutcomeSuccess, OutcomeNoCarrier}"
proof (cases res)
  case (Inl err)
  have "grows P t (snd (answer_call n e res t))"
    using assms by (simp add: answer_call_def Inl) (intro grow_intros)
  then show ?thesis
    using line_matches_grows [of P t _ OutcomeNoCarrier] grows_extends by (simp add: answer_call_def Inl)
next
  case (Inr peer)
  let ?h = "modem_handshake_pause t"
  have h: "grows P t ?h" using assms by (intro grow_intros)
  have u: "grows Q (set_data_mode (go_online peer ?h)) (snd (answer_call n e res t))"
    if "lax Q" "Q (Reports ResultConnect)" for Q
    using that by (simp add: answer_call_def Inr handshake_online) (intro grow_intros)
  have "extends P t (set_data_mode (go_online peer ?h))" using h by (intro extends_online grows_extends)
  then have "extends P t (snd (answer_call n e res t))" using extends_grows u assms(1,3) by blast
  moreover have "line_matches OutcomeSuccess t (snd (answer_call n e res t))"
    using online_line [OF grows_core [OF h], of peer "snd (answer_call n e res t)"] u by blast
  ultimately show ?thesis by (simp add: answer_call_def Inr)
qed

text \<open>A call placed while ringing: a busy outcome comes before any ring, every other one without BUSY.\<close>

lemma connect_ringing_facts:
  assumes "lax P" and "\<And>eff. call_effect env (s_config s) e eff \<Longrightarrow> P (Network eff)" and "P (Reports ResultNoCarrier)" and "P (Reports ResultConnect)"
    and "fst (connect_ringing env n e s) = OutcomeBusy \<Longrightarrow> P (Reports ResultBusy)"
    and "fst (connect_ringing env n e s) \<noteq> OutcomeBusy \<Longrightarrow> P (Reports ResultRing)"
  shows "extends P s (snd (connect_ringing env n e s))
    \<and> line_matches (fst (connect_ringing env n e s)) s (snd (connect_ringing env n e s))
    \<and> fst (connect_ringing env n e s) \<in> {OutcomeSuccess, OutcomeNoCarrier, OutcomeBusy, OutcomeTimeout}"
proof -
  define timeout where "timeout = seconds (get_connection_timeout (sregs (s_modem s)))"
  define s1 where "s1 = log_attempt n ''attempting'' s"
  define ready where "ready = s_now s1 + de_latency env"
  obtain res s2 where c: "place_call env e s1 = (res, s2)" by fastforce
  define s3 where "s3 = call_setup_pause s2"
  define resolved where "resolved = (ready \<le> s_now s3)"
  obtain r s4 where r: "rand_intn 2 s3 = (r, s4)" by fastforce
  obtain x s5 where x: "rand_intn 3 (ring_times (1 + r) s4) = (x, s5)" by fastforce
  obtain got s6 where g: "(if resolved then (True, s5) else extra_rings ready x s5) = (got, s6)" by fastforce
  have unf: "connect_ringing env n e s =
      (if resolved \<and> (case res of Inl err \<Rightarrow> is_connection_refused err | Inr _ \<Rightarrow> False)
       then (OutcomeBusy, snd (send_result ResultBusy (log_attempt n ''failed'' s3)))
       else if got then answer_call n e res s6
       else if ready \<le> s_now s6 + (timeout + 5 * second)
         then answer_call n e res (sleep (ready - s_now s6) s6)
       else (OutcomeTimeout, snd (send_result ResultNoCarrier
              (log_attempt n ''failed'' (sleep (timeout + 5 * second) s6)))))"
    unfolding connect_ringing_def Let_def timeout_def [symmetric] s1_def [symmetric]
      ready_def [symmetric] c prod.case s3_def [symmetric] resolved_def [symmetric] r x g
    by (cases got) simp_all
  have g1: "grows P s s1" using assms(1) unfolding s1_def by (intro grow_intros)
  have g2: "grows P s s2" using grows_call [where env = env and e = e and P = P, OF assms(2) g1] c by simp
  have g3: "grows P s s3" using assms(1) g2 unfolding s3_def by (intro grow_intros)
  show ?thesis
  proof (cases "resolved \<and> (case res of Inl err \<Rightarrow> is_connection_refused err | Inr _ \<Rightarrow> False)")
    case True
    then have o: "connect_ringing env n e s = (OutcomeBusy, snd (send_result ResultBusy (log_attempt n ''failed'' s3)))"
      by (simp add: unf)
    then have "grows P s (snd (connect_ringing env n e s))"
      using assms(1,5) g3 by (simp del: split_paired_All) (intro grow_intros)
    then show ?thesis using o line_matches_grows [of P s _ OutcomeBusy] grows_extends by simp
  next
    case False
    have ring: "P (Reports ResultRing)"
    proof (rule assms(6))
      have "fst (answer_call n e res u) \<noteq> OutcomeBusy" for u
        using answer_call_facts [of "\<lambda>_. True" u n e res] by auto
      then show "fst (connect_ringing env n e s) \<noteq> OutcomeBusy" using False by (simp add: unf)
    qed
    have g4: "grows P s s4" using grows_rand [OF g3, of 2] r by simp
    have g5: "grows P s s5"
      using grows_rand [OF grows_ring_times [OF assms(1) ring g4], of 3 "1 + r"] x by simp
    have g6: "grows P s s6"
      using g5 g grows_extra_rings [OF assms(1) ring g5, of ready x] by (auto split: if_splits)
    have a: "extends P s (snd (answer_call n e res u)) \<and> line_matches (fst (answer_call n e res u)) s (snd (answer_call n e res u))
        \<and> fst (answer_call n e res u) \<in> {OutcomeSuccess, OutcomeNoCarrier}" if "grows P s u" for u
      using answer_call_facts [OF assms(1,3,4), of u n e res] that
        extends_trans [OF grows_extends] line_matches_trans [OF grows_core] by blast
    have s: "grows P s (sleep d s6)" for d using assms(1) g6 by (intro grow_intros)
    have t: "grows P s (snd (send_result ResultNoCarrier (log_attempt n ''failed'' (sleep d s6))))" for d
      using assms(1,3) g6 by (intro grow_intros)
    consider (now) "connect_ringing env n e s = answer_call n e res s6"
      | (later) "connect_ringing env n e s = answer_call n e res (sleep (ready - s_now s6) s6)"
      | (never) "connect_ringing env n e s = (OutcomeTimeout, snd (send_result ResultNoCarrier
              (log_attempt n ''failed'' (sleep (timeout + 5 * second) s6))))"
      unfolding unf if_not_P [OF False]
      by (cases got; cases "ready \<le> s_now s6 + (timeout + 5 * second)") simp_all
    then show ?thesis
    proof cases
      case now
      then show ?thesis using a [OF g6] by auto
    next
      case later
      then show ?thesis using a [OF s] by auto
    next
      case never
      then show ?thesis using line_matches_grows [OF t, of OutcomeTimeout] grows_extends [OF t] by simp
    qed
  qed
qed

text \<open>What the call put on the network stays in the trace, however the ringing ends.\<close>

lemma connect_ringing_calls:
  "extends (\<lambda>_. True) (snd (place_call env e (log_attempt n ''attempting'' s))) (snd (connect_ringing env n e s))"
proof -
  let ?P = "\<lambda>_ :: effect. True"
  obtain res s2 where c: "place_call env e (log_attempt n ''attempting'' s) = (res, s2)" by fastforce
  define s3 where "s3 = call_setup_pause s2"
  obtain r s4 where r: "rand_intn 2 s3 = (r, s4)" by fastforce
  obtain x s5 where x: "rand_intn 3 (ring_times (Suc r) s4) = (x, s5)" by fastforce
  have g3: "grows ?P s2 s3" unfolding s3_def by (intro grow_intros) simp_all
  then have g4: "grows ?P s2 s4" using grows_rand [OF g3, of 2] r by simp
  have g5: "grows ?P s2 s5" using grows_rand [OF grows_ring_times [OF _ _ g4], of 3 "Suc r"] x by simp
  have g6: "grows ?P s2 s6" if "extra_rings ready x s5 = (got, s6)" for ready got s6
    using grows_extra_rings [OF _ _ g5, of ready x] that by simp
  have a: "extends ?P s2 (snd (answer_call n e res u))" if "grows ?P s2 u" for u
    using answer_call_facts [of ?P u n e res] extends_trans [OF grows_extends [OF that]] by simp
  have f: "extends ?P s2 (snd (send_result code (log_attempt n ''failed'' u)))" if "grows ?P s2 u" for u code
    by (rule grows_extends) (use that in \<open>intro grow_intros; simp\<close>)
  have w: "grows ?P s2 (sleep d u)" if "grows ?P s2 u" for d u using that by (intro grow_intros) simp_all
  show ?thesis
    by (auto simp del: ring_times.simps simp: connect_ringing_def Let_def c s3_def [symmetric] r x
        intro!: f g3 a w g5 split: prod.split bool.split dest!: g6)
qed

text \<open>A gated call: nothing reaches the network unless the password was typed.\<close>

lemma gated_connect_facts:
  assumes "lax P"
    and "\<And>eff. fst (gated_connect env n e s) \<noteq> OutcomeAuthFailed \<Longrightarrow> call_effect env (s_config s) e eff \<Longrightarrow> P (Network eff)"
    and "P (Reports ResultNoCarrier)" and "P (Reports ResultConnect)"
  shows "extends P s (snd (gated_connect env n e s))
    \<and> line_matches (fst (gated_connect env n e s)) s (snd (gated_connect env n e s))
    \<and> fst (gated_connect env n e s) \<in> {OutcomeSuccess, OutcomeNoCarrier, OutcomeAuthFailed}"
proof -
  define s1 where "s1 = random_ms 400 800 (send_connect (rs_baud (pe_required e)) s)"
  have g1: "grows P s s1" using assms(1,4) unfolding s1_def by (intro grow_intros)
  obtain ok s2 where p: "prompt_password n (pe_password e) s1 = (ok, s2)" by fastforce
  have g2: "grows P s s2" using grows_prompt [OF assms(1,3) g1, of n "pe_password e"] p by simp
  show ?thesis
  proof (cases ok)
    case False
    then have "gated_connect env n e s = (OutcomeAuthFailed, s2)"
      using p by (simp add: gated_connect_def s1_def [symmetric] Let_def)
    then show ?thesis using g2 line_matches_grows [of P s s2 OutcomeAuthFailed] grows_extends by simp
  next
    case True
    obtain res s3 where c: "place_call env e (log_attempt n ''attempting'' s2) = (res, s3)" by fastforce
    have unf: "gated_connect env n e s =
        (case res of
           Inl err \<Rightarrow> (OutcomeNoCarrier,
             snd (send_result ResultNoCarrier (log_attempt n ''failed'' (sleep (de_latency env) s3))))
         | Inr peer \<Rightarrow> (OutcomeSuccess,
             log_attempt n ''success'' (set_data_mode (go_online peer (sleep (de_latency env) s3)))))"
      using p True c by (auto simp: gated_connect_def s1_def [symmetric] Let_def split: sum.split)
    then have net: "\<And>eff. call_effect env (s_config s) e eff \<Longrightarrow> P (Network eff)" using assms(2) by (auto split: sum.splits)
    have "grows P s (log_attempt n ''attempting'' s2)" using assms(1) g2 by (intro grow_intros)
    from grows_call [where env = env and e = e and P = P, OF net this] have g3: "grows P s s3" by (simp add: c)
    have g4: "grows P s (sleep (de_latency env) s3)" using assms(1) g3 by (intro grow_intros)
    show ?thesis
    proof (cases res)
      case (Inl err)
      have "grows P s (snd (send_result ResultNoCarrier (log_attempt n ''failed'' (sleep (de_latency env) s3))))"
        using assms(1,3) g3 by (intro grow_intros)
      then show ?thesis
        using line_matches_grows [of P s _ OutcomeNoCarrier] grows_extends by (simp add: unf Inl)
    next
      case (Inr peer)
      have u: "grows Q (set_data_mode (go_online peer (sleep (de_latency env) s3))) (snd (gated_connect env n e s))"
        if "lax Q" for Q
        using that by (simp add: unf Inr) (intro grow_intros)
      have "extends P s (set_data_mode (go_online peer (sleep (de_latency env) s3)))"
        using g4 by (intro extends_online grows_extends)
      then have "extends P s (snd (gated_connect env n e s))" using extends_grows u assms(1) by blast
      moreover have "line_matches OutcomeSuccess s (snd (gated_connect env n e s))"
        using online_line [OF grows_core [OF g4], of peer "snd (gated_connect env n e s)"] u by blast
      ultimately show ?thesis by (simp add: unf Inr)
    qed
  qed
qed

subsection \<open>The whole command\<close>

text \<open>What a board asks of the modem, as one predicate.\<close>

definition settings_ok :: "modem \<Rightarrow> phonebook_entry \<Rightarrow> bool" where
  "settings_ok m e \<longleftrightarrow>
     (let rs = pe_required e in
      (rs_init rs = [] \<or> has_sent_init m (rs_init rs))
      \<and> (rs_baud rs = 0 \<or> baud m = rs_baud rs)
      \<and> (\<forall>want. rs_error_correction rs = Some want \<longrightarrow> want = (errorCorrection m = 5))
      \<and> (\<forall>want. rs_compression rs = Some want \<longrightarrow> want = compression m))"

lemma check_required_settings_iff:
  "fst (check_required_settings n e s) \<longleftrightarrow> settings_ok (s_modem s) e"
  by (auto simp: check_required_settings_def settings_ok_def Let_def split: option.splits)

definition line_core :: "session \<Rightarrow> session \<Rightarrow> bool" where
  "line_core s t \<longleftrightarrow> s_config t = s_config s \<and> s_modem t = s_modem s \<and> s_remote t = s_remote s
     \<and> s_reader t = s_reader s \<and> s_done t = s_done s"

lemma line_core_trans: "line_core s t \<Longrightarrow> line_matches outcome t u \<Longrightarrow> line_matches outcome s u"
  by (auto simp: line_matches_def line_core_def)

lemma line_core_same: "line_core s t \<Longrightarrow> same_core t u \<Longrightarrow> line_core s u"
  by (simp add: line_core_def same_core_def)

text \<open>The session after the dial tone, with the entry's telnet policy noted.\<close>

definition after_tone :: "session \<Rightarrow> session" where
  "after_tone s =
     (let s1 = s\<lparr>s_last_dial := s_now s\<rparr>;
          dialToneWait = seconds (get_dial_tone_wait (sregs (s_modem s1)))
      in if dialToneWait > 0 then sleep dialToneWait s1 else s1)"

lemma after_tone_facts:
  "line_core s (after_tone s)" "lax P \<Longrightarrow> extends P s (after_tone s)"
  by (auto simp: after_tone_def Let_def line_core_def extends_def sleep_def emit_def lax_def)

lemma dial_body_eq:
  "dial_body env number s =
     (if time_sub (s_now s) (s_last_dial s) < dialCooldown then
        (''unknown'', OutcomeBlocked, snd (send_result ResultError s))
      else
        case lookup_number (cfg_phonebook (s_config s)) number of
          None \<Rightarrow>
            (''unknown'', OutcomeUnknownNumber,
             send_intercept (log_it (invalid_number_event (s_logger s) number) (after_tone s)))
        | Some e \<Rightarrow>
            let s3 = (after_tone s)\<lparr>s_dial_telnet := telnet_mode e\<rparr> in
            if pe_busy e then (pe_name e, OutcomeBusy, send_busy (log_attempt number ''busy'' s3))
            else
              let s4 = snd (check_required_settings number e s3) in
              if \<not> settings_ok (s_modem s) e
              then (pe_name e, OutcomeSettingsMismatch, send_garbage_connect (send_rings s4))
              else if pe_password e \<noteq> []
              then (pe_name e, gated_connect env number e (modem_handshake_pause (send_rings s4)))
              else (pe_name e, connect_ringing env number e s4))"
proof -
  have t: "s_config (after_tone s) = s_config s" "s_logger (after_tone s) = s_logger s"
    "s_modem (after_tone s) = s_modem s"
    by (simp_all add: after_tone_def Let_def sleep_def emit_def)
  have body: "dial_body env number s =
     (if time_sub (s_now s) (s_last_dial s) < dialCooldown then
        (''unknown'', OutcomeBlocked, snd (send_result ResultError s))
      else
        case lookup_number (cfg_phonebook (s_config (after_tone s))) number of
          None \<Rightarrow>
            (''unknown'', OutcomeUnknownNumber,
             send_intercept (log_it (invalid_number_event (s_logger (after_tone s)) number) (after_tone s)))
        | Some e \<Rightarrow>
            let s3 = (after_tone s)\<lparr>s_dial_telnet := telnet_mode e\<rparr> in
            if pe_busy e then
              (pe_name e, OutcomeBusy, send_busy (log_attempt number ''busy'' s3))
            else
              case check_required_settings number e s3 of
                (False, s4) \<Rightarrow> (pe_name e, OutcomeSettingsMismatch, send_garbage_connect (send_rings s4))
              | (True, s4) \<Rightarrow>
                  if pe_password e \<noteq> [] then
                    (pe_name e, gated_connect env number e (modem_handshake_pause (send_rings s4)))
                  else (pe_name e, connect_ringing env number e s4))"
    unfolding dial_body_def after_tone_def Let_def by (rule refl)
  have chk: "(case check_required_settings number e ((after_tone s)\<lparr>s_dial_telnet := m\<rparr>) of
        (False, s4) \<Rightarrow> f s4 | (True, s4) \<Rightarrow> g s4) =
      (if settings_ok (s_modem s) e
       then g (snd (check_required_settings number e ((after_tone s)\<lparr>s_dial_telnet := m\<rparr>)))
       else f (snd (check_required_settings number e ((after_tone s)\<lparr>s_dial_telnet := m\<rparr>))))"
    for e m and f g :: "session \<Rightarrow> string \<times> dial_outcome \<times> session"
    using check_required_settings_iff [of number e "(after_tone s)\<lparr>s_dial_telnet := m\<rparr>"] t(3)
    by (cases "check_required_settings number e ((after_tone s)\<lparr>s_dial_telnet := m\<rparr>)") auto
  show ?thesis unfolding body t Let_def chk by (simp split: option.split)
qed

text \<open>When a command may touch the network at all.\<close>

definition may_call :: "session \<Rightarrow> string \<Rightarrow> dial_outcome \<Rightarrow> bool" where
  "may_call s number outcome \<longleftrightarrow>
     outcome \<notin> {OutcomeBlocked, OutcomeUnknownNumber, OutcomeSettingsMismatch, OutcomeAuthFailed}
     \<and> (\<exists>e. lookup_number (cfg_phonebook (s_config s)) number = Some e \<and> \<not> pe_busy e \<and> settings_ok (s_modem s) e)"

lemma dial_body_facts:
  assumes "lax P" and "P (Reports ResultNoCarrier)" and "P (Reports ResultConnect)" and "P (Reports ResultError)"
    and busy: "fst (snd (dial_body env number s)) = OutcomeBusy \<Longrightarrow> P (Reports ResultBusy)"
    and ring: "fst (snd (dial_body env number s)) \<noteq> OutcomeBusy \<Longrightarrow> P (Reports ResultRing)"
    and net: "\<And>e eff. may_call s number (fst (snd (dial_body env number s))) \<Longrightarrow>
        e \<in> set (cfg_phonebook (s_config s)) \<Longrightarrow> \<not> pe_busy e \<Longrightarrow> call_effect env (s_config s) e eff \<Longrightarrow> P (Network eff)"
  shows "extends P s (snd (snd (dial_body env number s)))
    \<and> line_matches (fst (snd (dial_body env number s))) s (snd (snd (dial_body env number s)))"
proof (cases "time_sub (s_now s) (s_last_dial s) < dialCooldown")
  case True
  then have o: "dial_body env number s = (''unknown'', OutcomeBlocked, snd (send_result ResultError s))"
    by (simp add: dial_body_eq)
  have "grows P s (snd (send_result ResultError s))" using assms(1,4) by (intro grow_intros)
  then show ?thesis using o line_matches_grows grows_extends by simp
next
  case False
  note tone = after_tone_facts(1) [of s] after_tone_facts(2) [OF assms(1), of s]
  have fin: "extends P s u \<and> line_matches outcome s u"
    if "grows P t u" "extends P s t" "line_core s t" "outcome \<noteq> OutcomeSuccess" for t u outcome
    using that extends_grows line_core_trans line_matches_grows by blast
  show ?thesis
  proof (cases "lookup_number (cfg_phonebook (s_config s)) number")
    case None
    let ?u = "send_intercept (log_it (invalid_number_event (s_logger s) number) (after_tone s))"
    have o: "dial_body env number s = (''unknown'', OutcomeUnknownNumber, ?u)"
      using False None by (simp add: dial_body_eq)
    have g: "grows P (after_tone s) ?u" using assms(1,2) by (intro grow_intros)
    show ?thesis unfolding o fst_conv snd_conv by (rule fin [OF g tone(2) tone(1)]) simp
  next
    case (Some e)
    define s3 where "s3 = (after_tone s)\<lparr>s_dial_telnet := telnet_mode e\<rparr>"
    define s4 where "s4 = snd (check_required_settings number e s3)"
    have t3: "extends P s s3" "line_core s s3"
      using tone by (simp_all add: s3_def extends_def line_core_def)
    have g4: "grows P s3 s4" using assms(1) unfolding s4_def by (intro grow_intros)
    have e: "e \<in> set (cfg_phonebook (s_config s))" using lookup_number_listed [OF Some] .
    have c4: "s_config s4 = s_config s" using line_core_same [OF t3(2) grows_core [OF g4]] by (simp add: line_core_def)
    have unf: "dial_body env number s =
        (if pe_busy e then (pe_name e, OutcomeBusy, send_busy (log_attempt number ''busy'' s3))
         else if \<not> settings_ok (s_modem s) e
         then (pe_name e, OutcomeSettingsMismatch, send_garbage_connect (send_rings s4))
         else if pe_password e \<noteq> []
         then (pe_name e, gated_connect env number e (modem_handshake_pause (send_rings s4)))
         else (pe_name e, connect_ringing env number e s4))"
      using False Some by (simp add: dial_body_eq s3_def s4_def Let_def)
    consider (a) "pe_busy e" | (b) "\<not> pe_busy e" "\<not> settings_ok (s_modem s) e"
      | (c) "\<not> pe_busy e" "settings_ok (s_modem s) e" "pe_password e \<noteq> []"
      | (d) "\<not> pe_busy e" "settings_ok (s_modem s) e" "pe_password e = []" by blast
    then show ?thesis
    proof cases
      case a
      then have o: "dial_body env number s = (pe_name e, OutcomeBusy, send_busy (log_attempt number ''busy'' s3))"
        by (simp add: unf)
      have g: "grows P s3 (send_busy (log_attempt number ''busy'' s3))"
        using assms(1) busy o by (intro grow_intros) auto
      show ?thesis unfolding o fst_conv snd_conv by (rule fin [OF g t3]) simp
    next
      case b
      then have o: "dial_body env number s = (pe_name e, OutcomeSettingsMismatch, send_garbage_connect (send_rings s4))"
        by (simp add: unf)
      have r: "P (Reports ResultRing)" using ring o by simp
      have g: "grows P s3 (send_garbage_connect (send_rings s4))"
        using assms(1-3) r g4 by (intro grow_intros)
      show ?thesis unfolding o fst_conv snd_conv by (rule fin [OF g t3]) simp
    next
      case c
      define s5 where "s5 = modem_handshake_pause (send_rings s4)"
      have o: "dial_body env number s = (pe_name e, gated_connect env number e s5)"
        using c by (simp add: unf s5_def)
      have out: "fst (gated_connect env number e s5) \<in> {OutcomeSuccess, OutcomeNoCarrier, OutcomeAuthFailed}"
        using gated_connect_facts [of "\<lambda>_. True" env number e s5] by simp
      then have r: "P (Reports ResultRing)" using ring o by auto
      have g5: "grows P s3 s5" using assms(1) r g4 unfolding s5_def by (intro grow_intros)
      have c5: "s_config s5 = s_config s"
        using line_core_same [OF t3(2) grows_core [OF g5]] by (simp add: line_core_def)
      have n: "P (Network eff)"
        if "fst (gated_connect env number e s5) \<noteq> OutcomeAuthFailed" "call_effect env (s_config s5) e eff" for eff
        using net [OF _ e c(1), of eff] that out o c Some c5 by (auto simp: may_call_def)
      have "extends P s5 (snd (gated_connect env number e s5))
          \<and> line_matches (fst (gated_connect env number e s5)) s5 (snd (gated_connect env number e s5))"
        using gated_connect_facts [OF assms(1) n assms(2,3)] by blast
      then show ?thesis
        using o t3 g5 extends_trans [OF t3(1)] extends_trans [OF grows_extends [OF g5]]
          line_core_trans [OF line_core_same [OF t3(2) grows_core [OF g5]]] by simp
    next
      case d
      have o: "dial_body env number s = (pe_name e, connect_ringing env number e s4)"
        using d by (simp add: unf)
      have out: "fst (connect_ringing env number e s4) \<in> {OutcomeSuccess, OutcomeNoCarrier, OutcomeBusy, OutcomeTimeout}"
        using connect_ringing_facts [where P = "\<lambda>_. True" and env = env and n = number and e = e and s = s4] by simp
      have n: "P (Network eff)" if "call_effect env (s_config s4) e eff" for eff
        using net [OF _ e d(1), of eff] out o d Some that c4 by (auto simp: may_call_def)
      have "extends P s4 (snd (connect_ringing env number e s4))
          \<and> line_matches (fst (connect_ringing env number e s4)) s4 (snd (connect_ringing env number e s4))"
        using connect_ringing_facts [OF assms(1) n assms(2,3)] busy ring o by simp
      then show ?thesis
        using o t3 g4 extends_trans [OF t3(1)] extends_trans [OF grows_extends [OF g4]]
          line_core_trans [OF line_core_same [OF t3(2) grows_core [OF g4]]] by simp
    qed
  qed
qed

text \<open>The effects a dial command adds, and its outcome as the tracker reports it.\<close>

definition dial_effects :: "dial_env \<Rightarrow> string \<Rightarrow> session \<Rightarrow> effect list" where
  "dial_effects env number s = drop (length (s_trace s)) (s_trace (handle_dial env number s))"

definition dial_result :: "dial_env \<Rightarrow> string \<Rightarrow> session \<Rightarrow> dial_outcome" where
  "dial_result env number s = fst (snd (dial_body env number (count_it DialStarted s)))"

lemma handle_dial_eq:
  "handle_dial env number s =
     (let b = dial_body env number (count_it DialStarted s) in
      count_it (DialCompleted (fst b) (fst (snd b)) (time_sub (s_now (snd (snd b))) (s_now s))) (snd (snd b)))"
  by (simp add: handle_dial_def Let_def split_beta count_it_def emit_def)

lemma dial_effects_extend:
  assumes "extends P (count_it DialStarted s) (snd (snd (dial_body env number (count_it DialStarted s))))"
  shows "\<exists>es entry d. dial_effects env number s =
      Counted DialStarted # es @ [Counted (DialCompleted entry (dial_result env number s) d)] \<and> list_all P es"
  using assms
  by (auto simp: dial_effects_def handle_dial_eq Let_def extends_def count_it_def emit_def dial_result_def)

lemma count_it_core: "line_core s (count_it c s)"
  by (simp add: count_it_def emit_def line_core_def)

lemma may_call_count [simp]: "may_call (count_it c s) number outcome = may_call s number outcome"
  by (simp add: may_call_def count_it_def emit_def)

lemma handle_dial_line:
  "line_matches (dial_result env number s) s (handle_dial env number s)"
proof -
  have "line_matches (dial_result env number s) (count_it DialStarted s)
      (snd (snd (dial_body env number (count_it DialStarted s))))"
    unfolding dial_result_def by (rule dial_body_facts [where P = "\<lambda>_. True", THEN conjunct2]) simp_all
  then show ?thesis
    by (simp add: handle_dial_eq Let_def line_matches_def count_it_def emit_def)
qed

text \<open>A command that ends in the safety timeout got as far as ringing a board.\<close>

lemma timeout_rang:
  assumes "fst (snd (dial_body env number s)) = OutcomeTimeout"
  obtains e s4 where "lookup_number (cfg_phonebook (s_config s)) number = Some e" "extends (\<lambda>_. True) s s4"
    "line_core s s4" "dial_body env number s = (pe_name e, connect_ringing env number e s4)"
proof (cases "lookup_number (cfg_phonebook (s_config s)) number")
  case None
  then show ?thesis using assms by (auto simp: dial_body_eq split: if_splits)
next
  case (Some e)
  define s3 where "s3 = (after_tone s)\<lparr>s_dial_telnet := telnet_mode e\<rparr>"
  define s4 where "s4 = snd (check_required_settings number e s3)"
  have t3: "extends (\<lambda>_. True) s s3" "line_core s s3"
    using after_tone_facts(1) [of s] after_tone_facts(2) [of "\<lambda>_. True" s] by (simp_all add: s3_def extends_def line_core_def)
  have g4: "grows (\<lambda>_. True) s3 s4" unfolding s4_def by (intro grow_intros) simp_all
  have gated: "fst (gated_connect env number e t) \<noteq> OutcomeTimeout" for t
    using gated_connect_facts [of "\<lambda>_. True" env number e t] by auto
  then have "dial_body env number s = (pe_name e, connect_ringing env number e s4)"
    using assms Some by (auto simp: dial_body_eq s3_def s4_def Let_def split: if_splits)
  then show ?thesis
    using that [OF Some extends_grows [OF t3(1) g4] line_core_same [OF t3(2) grows_core [OF g4]]] by blast
qed

lemma call_effect_opens: "\<not> call_effect env cfg e (CloseConn p)"
  by (auto simp: call_effect_def dial_def Let_def gate_check_def check_allowed_def negotiate_def
      split: prod.splits option.splits sum.splits if_splits)

lemma dial_negotiates: "snd (dial net d host port) = Inr peer \<Longrightarrow> SendTo peer negotiation_options \<in> set (fst (dial net d host port))"
  by (auto simp: dial_def Let_def negotiate_def split: prod.splits option.splits sum.splits)

subsection \<open>Example states\<close>

definition example_entry :: phonebook_entry where
  "example_entry =
     \<lparr>pe_number = ''555-1234'', pe_host = ''192.0.2.7'', pe_port = 23, pe_name = ''Test BBS'',
      pe_password = [], pe_busy = False, pe_telnet = [], pe_required_init = [],
      pe_required = \<lparr>rs_init = [], rs_baud = 0, rs_error_correction = Some True, rs_compression = Some True\<rparr>\<rparr>"

definition example_caller :: session where
  "example_caller = example_session\<lparr>s_config := default_config\<lparr>cfg_phonebook := [example_entry]\<rparr>\<rparr>"

text \<open>A board that is engaged: the connect is refused at once.\<close>

definition engaged_env :: dial_env where
  "engaged_env =
     \<lparr>de_net = \<lparr>lookup_host = \<lambda>h. Inl TimedOut, tcp_connect = \<lambda>a t. Inl ConnRefused\<rparr>, de_latency = 0\<rparr>"

lemma gated_prompted:
  "fst (prompt_password n (pe_password e) (random_ms 400 800 (send_connect (rs_baud (pe_required e)) s))) \<Longrightarrow>
     fst (gated_connect env n e s) \<noteq> OutcomeAuthFailed"
  by (auto simp: gated_connect_def Let_def split: prod.split sum.split bool.split)

subsection \<open>Properties\<close>

text \<open>C12: Every dial command is counted exactly once: it begins with \<open>DialStarted\<close>, ends with the one
  \<open>DialCompleted\<close> that carries its outcome, and makes no other metric call, on every one of the exit
  paths of \<open>handleDial\<close>.\<close>

theorem dial_counted_once:
  "\<exists>es entry d. dial_effects env number s =
      Counted DialStarted # es @ [Counted (DialCompleted entry (dial_result env number s) d)]
    \<and> list_all (\<lambda>e. \<forall>c. e \<noteq> Counted c) es"
  by (rule dial_effects_extend, rule dial_body_facts [THEN conjunct1]) (auto simp: lax_def)

text \<open>A call that rang is never reported busy: in the effects of one dial command BUSY and RING do
  not both occur, whatever the network answers and however long it takes.\<close>

theorem busy_never_rings:
  "\<not> (Reports ResultBusy \<in> set (dial_effects env number s) \<and> Reports ResultRing \<in> set (dial_effects env number s))"
proof (cases "dial_result env number s = OutcomeBusy")
  case True
  have "\<exists>es entry d. dial_effects env number s =
      Counted DialStarted # es @ [Counted (DialCompleted entry (dial_result env number s) d)]
      \<and> list_all (\<lambda>e. e \<noteq> Reports ResultRing) es"
    using True by (intro dial_effects_extend dial_body_facts [THEN conjunct1])
      (auto simp: lax_def dial_result_def)
  then show ?thesis by (auto simp: list_all_iff)
next
  case False
  have "\<exists>es entry d. dial_effects env number s =
      Counted DialStarted # es @ [Counted (DialCompleted entry (dial_result env number s) d)]
      \<and> list_all (\<lambda>e. e \<noteq> Reports ResultBusy) es"
    using False by (intro dial_effects_extend dial_body_facts [THEN conjunct1])
      (auto simp: lax_def dial_result_def)
  then show ?thesis by (auto simp: list_all_iff)
qed



text \<open>C10: The outcome of a dial command is what happened to the line: on success the session holds a
  connection and is in data mode, on every other outcome the connection it held and the whole modem
  state are what they were.\<close>

theorem dial_outcome_matches_line:
  "if dial_result env number s = OutcomeSuccess
   then s_remote (handle_dial env number s) \<noteq> None
     \<and> s_modem (handle_dial env number s) = set_state StateData (s_modem s)
   else s_remote (handle_dial env number s) = s_remote s \<and> s_modem (handle_dial env number s) = s_modem s"
  using handle_dial_line [of env number s] by (simp add: line_matches_def)



text \<open>
  With allowed networks configured a board's name is first resolved for the check, which the dial's
  timeout does not bound. Here the resolver takes its time, the connection is made after two minutes,
  and the caller has long been told NO CARRIER.
\<close>

definition slow_entry :: phonebook_entry where
  "slow_entry = example_entry\<lparr>pe_host := ''bbs.test''\<rparr>"

definition slow_caller :: session where
  "slow_caller = example_caller\<lparr>s_config := default_config\<lparr>cfg_phonebook := [slow_entry],
     cfg_dialer := \<lparr>dlc_allowed_networks = [''192.0.2.0/24''],
       dlc_parsed_networks = [\<lparr>net_ip = [192, 0, 2, 0], net_mask = [255, 255, 255, 0]\<rparr>]\<rparr>\<rparr>\<rparr>"

definition slow_env :: dial_env where
  "slow_env =
     \<lparr>de_net = \<lparr>lookup_host = \<lambda>h. Inr [''192.0.2.7''], tcp_connect = \<lambda>a t. Inr [192, 0, 2, 7]\<rparr>,
      de_latency = 120 * second\<rparr>"

lemma late_answer_example:
  "dial_result slow_env ''5551234'' slow_caller = OutcomeTimeout
   \<and> snd (dial (de_net slow_env) (session_dialer slow_caller) (pe_host slow_entry) (pe_port slow_entry)) = Inr [192, 0, 2, 7]
   \<and> lookup_number (cfg_phonebook (s_config slow_caller)) ''5551234'' = Some slow_entry"
  by code_simp

text \<open>C37: A call that ends in the safety timeout leaks its connection: if the board answers in the end, it
  has been connected to and sent the telnet negotiation, but the session does not hold the connection,
  and nothing in the command closes it.\<close>

theorem timed_out_call_leaks:
  assumes "dial_result env number s = OutcomeTimeout"
  shows "s_remote (handle_dial env number s) = s_remote s
    \<and> (\<exists>e. lookup_number (cfg_phonebook (s_config s)) number = Some e
         \<and> (\<forall>peer. snd (dial (de_net env) (session_dialer s) (pe_host e) (pe_port e)) = Inr peer \<longrightarrow>
              Network (SendTo peer negotiation_options) \<in> set (dial_effects env number s)))
    \<and> (\<forall>p. Network (CloseConn p) \<notin> set (dial_effects env number s))"
proof (intro conjI)
  show "s_remote (handle_dial env number s) = s_remote s"
    using handle_dial_line [of env number s] assms by (simp add: line_matches_def)
  have "\<exists>es entry d. dial_effects env number s =
      Counted DialStarted # es @ [Counted (DialCompleted entry (dial_result env number s) d)]
      \<and> list_all (\<lambda>e. \<forall>p. e \<noteq> Network (CloseConn p)) es"
    by (intro dial_effects_extend dial_body_facts [THEN conjunct1]) (auto simp: lax_def call_effect_opens)
  then show "\<forall>p. Network (CloseConn p) \<notin> set (dial_effects env number s)" by (auto simp: list_all_iff)
  let ?s = "count_it DialStarted s"
  obtain e s4 where e: "lookup_number (cfg_phonebook (s_config ?s)) number = Some e" "extends (\<lambda>_. True) ?s s4"
    "line_core ?s s4" "dial_body env number ?s = (pe_name e, connect_ringing env number e s4)"
    using timeout_rang [of env number ?s] assms unfolding dial_result_def by blast
  have core: "s_config ?s = s_config s" "s_modem ?s = s_modem s" "s_trace ?s = s_trace s @ [Counted DialStarted]"
    by (simp_all add: count_it_def emit_def)
  let ?t = "log_attempt number ''attempting'' s4" and ?d = "session_dialer s"
  have "grows (\<lambda>_. True) s4 ?t" by (intro grow_intros) simp_all
  then have t: "same_core s4 ?t" "extends (\<lambda>_. True) ?s ?t" using grows_core extends_grows [OF e(2)] by blast+
  have "session_dialer ?t = ?d" using e(3) t(1) core by (simp add: session_dialer_def line_core_def same_core_def)
  then have "s_trace (snd (place_call env e ?t)) = s_trace ?t @ map Network (fst (dial (de_net env) ?d (pe_host e) (pe_port e)))"
    by (simp add: place_call_def split_beta)
  moreover obtain xs where "s_trace ?t = s_trace s @ xs" using t(2) core by (auto simp: extends_def)
  moreover obtain ys where "s_trace (snd (connect_ringing env number e s4)) = s_trace (snd (place_call env e ?t)) @ ys"
    using connect_ringing_calls [of env e number s4] by (auto simp: extends_def)
  ultimately have "s_trace (snd (connect_ringing env number e s4))
      = s_trace s @ xs @ map Network (fst (dial (de_net env) ?d (pe_host e) (pe_port e))) @ ys" by simp
  moreover have traced: "s_trace (count_it c t) = s_trace t @ [Counted c]" for c t by (simp add: count_it_def emit_def)
  ultimately have "set (map Network (fst (dial (de_net env) ?d (pe_host e) (pe_port e)))) \<subseteq> set (dial_effects env number s)"
    by (auto simp: dial_effects_def handle_dial_eq Let_def e(4) traced)
  then have "\<forall>peer. snd (dial (de_net env) ?d (pe_host e) (pe_port e)) = Inr peer \<longrightarrow>
      Network (SendTo peer negotiation_options) \<in> set (dial_effects env number s)"
    using dial_negotiates by fastforce
  then show "\<exists>e. lookup_number (cfg_phonebook (s_config s)) number = Some e
      \<and> (\<forall>peer. snd (dial (de_net env) ?d (pe_host e) (pe_port e)) = Inr peer \<longrightarrow>
            Network (SendTo peer negotiation_options) \<in> set (dial_effects env number s))"
    using e(1) core by auto
qed

theorem timed_out_call_leaks_witness:
  "Network (SendTo [192, 0, 2, 7] negotiation_options) \<in> set (dial_effects slow_env ''5551234'' slow_caller)
   \<and> Network (CloseConn [192, 0, 2, 7]) \<notin> set (dial_effects slow_env ''5551234'' slow_caller)"
  using timed_out_call_leaks [OF late_answer_example [THEN conjunct1]] late_answer_example by auto

end
