(* ===== verification/DataLoop.thy ===== *)
theory DataLoop
  imports SessionIO
begin

section \<open>Data mode (internal/server/session.go, dataLoop)\<close>

text \<open>
  The bridge between the caller and the board. Two goroutines share it: the session's own, which
  reads the caller and watches for the escape sequence, and a reader for the board. The state
  \<open>data_loop\<close> holds the session and the locals of \<open>dataLoop\<close>; a \<open>turn\<close> is one action of one of the
  two, and a run is any sequence of turns, so every interleaving is covered down to single bytes of a
  chunk in hand. What the scheduler and the network decide is the turn's argument: how much time passed
  before it, whether a write to the board succeeds, what a read from the board returns. What the caller
  sends is in the session's arrivals, as in command mode.
\<close>

subsection \<open>Escape detection, one byte\<close>

definition bulkChunk :: nat where "bulkChunk = 64"
definition bulkQuiet :: duration where "bulkQuiet = 5 * second"

text \<open>
  One round of the loop over the filtered bytes. \<open>n\<close> is \<open>escapeCount\<close>, \<open>le\<close> is \<open>lastEscapeTime\<close>, \<open>li\<close> is
  \<open>s.lastInput\<close>; the bytes returned are those given to \<open>appendRemote\<close>, in order.
\<close>

definition escape_byte ::
  "byte \<Rightarrow> duration \<Rightarrow> time \<Rightarrow> time \<Rightarrow> byte \<Rightarrow> nat \<times> time \<times> time \<Rightarrow> (nat \<times> time \<times> time) \<times> bytes" where
  "escape_byte escapeChar guardTime lastBulk now b st =
     (case st of (n, le, li) \<Rightarrow>
        if b = escapeChar \<and> bulkQuiet \<le> time_sub now lastBulk then
          if n = 0 then
            if guardTime < time_sub now li then ((1, now, now), [])
            else ((0, le, now), [b])
          else if time_sub now le < guardTime then ((n + 1, now, now), [])
          else ((1, now, now), [])
        else ((0, le, now), replicate n escapeChar @ [b]))"

subsection \<open>State\<close>

text \<open>
  Where the session's goroutine is: at the head of the loop, inside the loop over a chunk (the bytes
  left and what is queued for the board), waiting for the reader in the deferred function, or back in
  \<open>commandLoop\<close>.
\<close>

datatype control = Looping | Handling bytes bytes | Closing | Returned

record data_loop =
  dl_session :: session
  dl_peer :: ip
  dl_filter :: telnet_filter
  dl_escape_char :: byte
  dl_guard :: duration
  dl_escapes :: nat
  dl_last_escape :: time
  dl_last_bulk :: time
  dl_logged_iac :: bool
  dl_remote_gone :: bool
  dl_reader :: bool
  dl_control :: control

definition on_session :: "(session \<Rightarrow> session) \<Rightarrow> data_loop \<Rightarrow> data_loop" where
  "on_session f d = d\<lparr>dl_session := f (dl_session d)\<rparr>"

definition set_modem_state :: "modem_state \<Rightarrow> session \<Rightarrow> session" where
  "set_modem_state st s = s\<lparr>s_modem := set_state st (s_modem s)\<rparr>"

definition hangup :: "session \<Rightarrow> session" where
  "hangup s =
     set_modem_state StateCommand
       (case s_remote s of
          None \<Rightarrow> s
        | Some peer \<Rightarrow> (emit (Network (CloseConn peer)) s)\<lparr>s_remote := None\<rparr>)"

text \<open>The start of \<open>dataLoop\<close>: without a connection it reports and returns at once.\<close>

definition start_data_loop :: "ip \<Rightarrow> session \<Rightarrow> data_loop" where
  "start_data_loop peer s =
     \<lparr>dl_session = s, dl_peer = peer, dl_filter = new_remote_telnet_filter,
      dl_escape_char = get_escape_char (sregs (s_modem s)),
      dl_guard = get_escape_guard_time (sregs (s_modem s)) * millisecond,
      dl_escapes = 0, dl_last_escape = zero_time, dl_last_bulk = zero_time,
      dl_logged_iac = False, dl_remote_gone = False, dl_reader = True, dl_control = Looping\<rparr>"

definition enter_data_loop :: "session \<Rightarrow> session + data_loop" where
  "enter_data_loop s =
     (case s_remote s of
        None \<Rightarrow> Inl (snd (send_result ResultNoCarrier (set_modem_state StateCommand s)))
      | Some peer \<Rightarrow> Inr (start_data_loop peer s))"

subsection \<open>Towards the board\<close>

definition telnet_mode_or_auto :: "string \<Rightarrow> string" where
  "telnet_mode_or_auto mode = (if mode = [] then ''auto'' else mode)"

definition double_now :: "string \<Rightarrow> telnet_filter \<Rightarrow> bool" where
  "double_now mode f =
     (if mode = ''yes'' then True else if mode = ''no'' then False else peer_speaks_telnet f)"

definition format_bool :: "bool \<Rightarrow> string" where
  "format_bool b = (if b then ''true'' else ''false'')"

definition outbound_iac_event :: "string \<Rightarrow> telnet_filter \<Rightarrow> log_event" where
  "outbound_iac_event mode f =
     ev_str ''doubled'' (format_bool (double_now mode f))
       (ev_str ''peer_speaks_telnet'' (format_bool (peer_speaks_telnet f))
         (ev_str ''telnet_mode'' (telnet_mode_or_auto mode)
           (ev_str ''event'' ''outbound_iac'' (new_event InfoLevel))))"

definition append_remote :: "byte \<Rightarrow> data_loop \<times> bytes \<Rightarrow> data_loop \<times> bytes" where
  "append_remote b acc =
     (case acc of (d, out) \<Rightarrow>
        if b \<noteq> IAC then (d, out @ [b])
        else
          let mode = s_dial_telnet (dl_session d);
              d1 = (if dl_logged_iac d then d
                    else (on_session (log_it (outbound_iac_event mode (dl_filter d))) d)\<lparr>dl_logged_iac := True\<rparr>)
          in (d1, out @ (if double_now mode (dl_filter d) then [IAC, IAC] else [b])))"

definition append_all :: "bytes \<Rightarrow> data_loop \<times> bytes \<Rightarrow> data_loop \<times> bytes" where
  "append_all bs acc = foldl (\<lambda>acc b. append_remote b acc) acc bs"

text \<open>\<open>remote.Write\<close>: \<open>ok\<close> says whether it succeeds.\<close>

definition bridge_write :: "bytes \<Rightarrow> data_loop \<Rightarrow> data_loop" where
  "bridge_write data d = on_session (emit (Bridged (dl_peer d) data)) d"

text \<open>
  A return: the deferred function closes the connection and waits for the reader, which is gone
  already or has yet to notice.
\<close>

definition leave :: "data_loop \<Rightarrow> data_loop" where
  "leave d =
     (on_session (emit (Network (CloseConn (dl_peer d)))) d)
       \<lparr>dl_control := (if dl_reader d then Closing else Returned)\<rparr>"

definition drop_carrier :: "data_loop \<Rightarrow> data_loop" where
  "drop_carrier d = leave (on_session (\<lambda>s. snd (send_result ResultNoCarrier (hangup s))) d)"

subsection \<open>The session's goroutine\<close>

text \<open>A read that timed out: the escape is complete, the withheld bytes are data after all, or neither.\<close>

definition escape_timeout :: "bool \<Rightarrow> data_loop \<Rightarrow> data_loop" where
  "escape_timeout ok d =
     (if dl_escapes d > 0 \<and> dl_guard d < time_sub (s_now (dl_session d)) (dl_last_escape d) then
        if dl_escapes d \<ge> 3 then
          leave (on_session (\<lambda>s. snd (send_result ResultOK (set_modem_state StateCommand s))) d)
        else
          (case append_all (replicate (dl_escapes d) (dl_escape_char d)) (d, []) of
             (d1, held) \<Rightarrow>
               let d2 = d1\<lparr>dl_escapes := 0\<rparr>
               in if ok then bridge_write held d2 else drop_carrier d2)
      else d)"

text \<open>A chunk that arrived, through the caller's filter.\<close>

definition take_chunk :: "bytes \<Rightarrow> data_loop \<Rightarrow> data_loop" where
  "take_chunk chunk d =
     (case filter_bytes (s_filter (dl_session d)) chunk of
        (f, filtered, responses) \<Rightarrow>
          let d1 = on_session (\<lambda>s. s\<lparr>s_filter := f\<rparr>) d;
              d2 = (if bulkChunk \<le> length filtered then d1\<lparr>dl_last_bulk := s_now (dl_session d1)\<rparr> else d1);
              d3 = (if responses \<noteq> [] then on_session (\<lambda>s. snd (write_client responses s)) d2 else d2)
          in d3\<lparr>dl_control := Handling filtered []\<rparr>)"

definition poll_client :: "bool \<Rightarrow> data_loop \<Rightarrow> data_loop" where
  "poll_client ok d =
     (case conn_read 256 (set_read_deadline (100 * millisecond) (dl_session d)) of
        (Inr chunk, s) \<Rightarrow> take_chunk chunk (d\<lparr>dl_session := s\<rparr>)
      | (Inl ReadTimeout, s) \<Rightarrow> escape_timeout ok (d\<lparr>dl_session := s\<rparr>)
      | (Inl _, s) \<Rightarrow> leave (d\<lparr>dl_session := hangup s\<rparr>))"

text \<open>The next byte of the chunk in hand.\<close>

definition handle_byte :: "byte \<Rightarrow> bytes \<Rightarrow> bytes \<Rightarrow> data_loop \<Rightarrow> data_loop" where
  "handle_byte b rest out d =
     (let s = dl_session d in
      case escape_byte (dl_escape_char d) (dl_guard d) (dl_last_bulk d) (s_now s) b
             (dl_escapes d, dl_last_escape d, s_last_input s) of
        ((n, le, li), data) \<Rightarrow>
          (case append_all data (d, out) of
             (d1, out1) \<Rightarrow>
               (on_session (\<lambda>s. s\<lparr>s_last_input := li\<rparr>) d1)
                 \<lparr>dl_escapes := n, dl_last_escape := le, dl_control := Handling rest out1\<rparr>))"

text \<open>The write at the end of a chunk.\<close>

definition flush_out :: "bool \<Rightarrow> bytes \<Rightarrow> data_loop \<Rightarrow> data_loop" where
  "flush_out ok out d =
     (if out = [] then d\<lparr>dl_control := Looping\<rparr>
      else if ok then
        (on_session (count_it (Bytes DirectionToRemote (int (length out)))) (bridge_write out d))
          \<lparr>dl_control := Looping\<rparr>
      else drop_carrier d)"

text \<open>\<open>done_first\<close> is the choice of a \<open>select\<close> with both channels closed.\<close>

definition client_turn :: "bool \<Rightarrow> bool \<Rightarrow> data_loop \<Rightarrow> data_loop" where
  "client_turn ok done_first d =
     (case dl_control d of
        Looping \<Rightarrow>
          if s_done (dl_session d) \<and> (done_first \<or> \<not> dl_remote_gone d) then leave d
          else if dl_remote_gone d then drop_carrier d
          else poll_client ok d
      | Handling [] out \<Rightarrow> flush_out ok out d
      | Handling (b # rest) out \<Rightarrow> handle_byte b rest out d
      | Closing \<Rightarrow> d
      | Returned \<Rightarrow> d)"

subsection \<open>The reader\<close>

datatype remote_read = RemoteData bytes | RemoteEOF | RemoteError string

text \<open>The reader closes \<open>remoteGone\<close> and \<open>readerDone\<close> and ends.\<close>

definition reader_ends :: "data_loop \<Rightarrow> data_loop" where
  "reader_ends d =
     d\<lparr>dl_remote_gone := True, dl_reader := False,
       dl_control := (if dl_control d = Closing then Returned else dl_control d)\<rparr>"

definition remote_read_error_event :: "string \<Rightarrow> log_event" where
  "remote_read_error_event err = ev_err (Some err) (ev_str ''event'' ''remote_read_error'' (new_event DebugLevel))"

definition reply_remote :: "bytes \<Rightarrow> data_loop \<Rightarrow> data_loop" where
  "reply_remote responses d =
     (if responses \<noteq> [] then on_session (emit (Network (SendTo (dl_peer d) responses))) d else d)"

definition remote_turn :: "bool \<Rightarrow> remote_read \<Rightarrow> data_loop \<Rightarrow> data_loop" where
  "remote_turn ok r d =
     (if \<not> dl_reader d then d
      else case r of
        RemoteEOF \<Rightarrow> reader_ends d
      | RemoteError err \<Rightarrow> reader_ends (on_session (log_it (remote_read_error_event err)) d)
      | RemoteData data \<Rightarrow>
          (case filter_bytes (dl_filter d) data of
             (f, filtered, responses) \<Rightarrow>
               let d1 = d\<lparr>dl_filter := f\<rparr> in
               if responses \<noteq> [] \<and> \<not> ok then reader_ends d1
               else
                 let d2 = reply_remote responses d1 in
                 if filtered = [] then d2
                 else
                   case write_client filtered (dl_session d2) of
                     (False, s) \<Rightarrow> reader_ends (d2\<lparr>dl_session := s\<rparr>)
                   | (True, s) \<Rightarrow>
                       d2\<lparr>dl_session :=
                         count_it (Bytes DirectionToClient (int (length filtered))) s\<rparr>))"

subsection \<open>Turns\<close>

text \<open>\<open>StopTurn\<close> is \<open>Session.Close\<close>, called by \<open>Server.Stop\<close> from outside.\<close>

definition session_close :: "session \<Rightarrow> session" where
  "session_close s = hangup (emit ClosedClient (s\<lparr>s_done := True\<rparr>))"

datatype turn =
    ClientTurn duration bool bool
  | RemoteTurn duration bool remote_read
  | StopTurn

definition pass_time :: "duration \<Rightarrow> session \<Rightarrow> session" where
  "pass_time dt s = s\<lparr>s_now := s_now s + max 0 dt\<rparr>"

fun take_turn :: "data_loop \<Rightarrow> turn \<Rightarrow> data_loop" where
  "take_turn d (ClientTurn dt ok done_first) = client_turn ok done_first (on_session (pass_time dt) d)"
| "take_turn d (RemoteTurn dt ok r) = remote_turn ok r (on_session (pass_time dt) d)"
| "take_turn d StopTurn = on_session session_close d"

definition take_turns :: "data_loop \<Rightarrow> turn list \<Rightarrow> data_loop" where
  "take_turns d ts = foldl take_turn d ts"

text \<open>The turns as a step relation, and the states a call can reach.\<close>

inductive bridge_step :: "data_loop \<Rightarrow> turn \<Rightarrow> data_loop \<Rightarrow> bool" where
  client: "dl_control d \<notin> {Closing, Returned} \<Longrightarrow>
     bridge_step d (ClientTurn dt ok first) (client_turn ok first (on_session (pass_time dt) d))"
| remote: "dl_reader d \<Longrightarrow>
     bridge_step d (RemoteTurn dt ok r) (remote_turn ok r (on_session (pass_time dt) d))"
| stop: "\<not> s_done (dl_session d) \<Longrightarrow> bridge_step d StopTurn (on_session session_close d)"

inductive reaches :: "data_loop \<Rightarrow> turn list \<Rightarrow> data_loop \<Rightarrow> bool" where
  here: "reaches d [] d"
| step: "reaches d ts d1 \<Longrightarrow> bridge_step d1 t d2 \<Longrightarrow> reaches d (ts @ [t]) d2"

inductive_cases bridge_clientE: "bridge_step d (ClientTurn dt ok first) d'"
inductive_cases bridge_remoteE: "bridge_step d (RemoteTurn dt ok r) d'"
inductive_cases bridge_stopE: "bridge_step d StopTurn d'"
lemmas bridge_cases = bridge_clientE bridge_remoteE bridge_stopE
inductive_simps reaches_Nil: "reaches d [] d'"

end
