(* ===== verification/Session.thy ===== *)
theory Session
  imports DialFacts DataLoop BannerArt
begin

section \<open>A session from connect to disconnect (internal/server/session.go)\<close>

text \<open>
  \<open>NewSession\<close>, \<open>Run\<close>, \<open>processCommand\<close> and \<open>commandLoop\<close>. A session is at its prompt, in a call, or
  gone; \<open>session_step\<close> is one round of \<open>commandLoop\<close> at the prompt (a whole command line, the dial it
  may place included) and one turn of the bridge in a call. What the environment contributes is the
  label: how the network answers a dial, or a turn.
\<close>

subsection \<open>Creation\<close>

definition hex_pair :: "byte \<Rightarrow> string" where
  "hex_pair b = [hex_digit (unat b div 16), hex_digit (unat b mod 16)]"

text \<open>\<open>generateSessionID\<close>, with the four bytes \<open>crypto/rand\<close> gives.\<close>

definition generate_session_id :: "bytes \<Rightarrow> string" where
  "generate_session_id bs = concat (map hex_pair bs)"

text \<open>What a new connection brings: its address, the caller's arrivals, and the draws of the session.\<close>

record connection =
  cn_addr :: string
  cn_arrivals :: "arrival list"
  cn_writes :: "bool list"
  cn_rand :: "nat list"
  cn_id :: bytes
  cn_art :: nat

definition new_session :: "connection \<Rightarrow> time \<Rightarrow> art_files \<Rightarrow> string option \<Rightarrow> config \<Rightarrow> session" where
  "new_session conn now fs art cfg =
     \<lparr>s_config = cfg, s_modem = new_modem (cfg_version cfg), s_filter = new_telnet_filter,
      s_banner = banner_for fs (cn_art conn) art (cfg_version cfg),
      s_logger = \<lparr>sl_session_id = generate_session_id (cn_id conn), sl_source_ip = peer_host (cn_addr conn)\<rparr>,
      s_now = now, s_deadline = now, s_arrivals = cn_arrivals conn, s_buffered = [], s_reader = False,
      s_writes = cn_writes conn, s_rand = cn_rand conn, s_trace = [], s_last_input = zero_time,
      s_last_dial = zero_time, s_remote = None, s_dial_telnet = [], s_done = False\<rparr>"

text \<open>\<open>time.Duration(cfg.Server.IdleTimeout) * time.Second\<close>, 300 s when zero.\<close>

definition idle_timeout :: "config \<Rightarrow> duration" where
  "idle_timeout cfg = (let t = seconds (srv_idle_timeout (cfg_server cfg)) in if t = 0 then 300 * second else t)"

subsection \<open>A command line\<close>

text \<open>\<open>flushInfo\<close>: the payloads collected so far, and whether writing them worked.\<close>

definition flush_info :: "string \<Rightarrow> session \<Rightarrow> bool \<times> session" where
  "flush_info info s = (if info = [] then (True, s) else write_client (bytes_of info) s)"

definition go_back_online :: "session \<Rightarrow> session" where
  "go_back_online s =
     (if s_remote s \<noteq> None then snd (send_result ResultConnect (set_modem_state StateData s))
      else snd (send_result ResultNoCarrier s))"

text \<open>\<open>Execute\<close> on the session's modem, with the text to report.\<close>

definition execute_on :: "command \<Rightarrow> session \<Rightarrow> string \<times> session" where
  "execute_on cmd s =
     (case execute (s_modem s) cmd of (m, response, _, _) \<Rightarrow> (response, s\<lparr>s_modem := m\<rparr>))"

definition ok_suffix :: "session \<Rightarrow> string" where
  "ok_suffix s = format_result_external (s_modem s) ResultOK"

fun run_commands :: "dial_env \<Rightarrow> string \<Rightarrow> string \<Rightarrow> command list \<Rightarrow> session \<Rightarrow> session" where
  "run_commands env input info [] s = s"
| "run_commands env input info (cmd # rest) s =
     (case cmd_type cmd of
        CmdUnknown \<Rightarrow>
          snd (send_result ResultError (snd (flush_info info (log_it (invalid_command_event (s_logger s) input) s))))
      | CmdDial \<Rightarrow>
          (case flush_info info s of
             (False, s1) \<Rightarrow> s1
           | (True, s1) \<Rightarrow> handle_dial env (cmd_number cmd) s1)
      | CmdClear \<Rightarrow>
          (case flush_info info s of
             (False, s1) \<Rightarrow> s1
           | (True, s1) \<Rightarrow>
               (case write_client (s_banner s1) s1 of
                  (False, s2) \<Rightarrow> s2
                | (True, s2) \<Rightarrow>
                    if rest = [] then snd (send_result ResultOK s2)
                    else run_commands env input [] rest s2))
      | CmdOnline \<Rightarrow>
          (case flush_info info s of
             (False, s1) \<Rightarrow> s1
           | (True, s1) \<Rightarrow> go_back_online s1)
      | _ \<Rightarrow>
          (case execute_on cmd s of
             (response, s1) \<Rightarrow>
               if response = [] then run_commands env input info rest s1
               else if rest = [] then
                 (case flush_info info s1 of
                    (False, s2) \<Rightarrow> s2
                  | (True, s2) \<Rightarrow> snd (write_client (bytes_of response) s2))
               else run_commands env input (info @ trim_suffix response (ok_suffix s1)) rest s1))"

text \<open>A parse that indexes out of range would be \<open>None\<close>; \<open>parse_line_total\<close> shows there is none.\<close>

definition process_command :: "dial_env \<Rightarrow> string \<Rightarrow> session \<Rightarrow> session" where
  "process_command env input s =
     (if input = [] then s
      else case parse_command_line input of
        None \<Rightarrow> s
      | Some cs \<Rightarrow> run_commands env input [] cs s)"

subsection \<open>The loop\<close>

datatype phase = AtPrompt session | InCall data_loop | Gone session

text \<open>The deferred \<open>cleanup\<close> of \<open>Run\<close>.\<close>

definition cleanup_session :: "session \<Rightarrow> session" where
  "cleanup_session s = emit ClosedClient (hangup s)"

definition finish_session :: "session \<Rightarrow> phase" where
  "finish_session s = Gone (cleanup_session s)"

definition prompt_step :: "dial_env \<Rightarrow> session \<Rightarrow> phase" where
  "prompt_step env s =
     (if s_done s then finish_session s
      else
        let s1 = set_read_deadline (idle_timeout (s_config s)) s in
        case state (s_modem s1) of
          StateCommand \<Rightarrow>
            (case read_line s1 of
               (Inl ReadTimeout, s2) \<Rightarrow> finish_session (log_it (idle_timeout_event (s_logger s2)) s2)
             | (Inl _, s2) \<Rightarrow> finish_session s2
             | (Inr line, s2) \<Rightarrow> AtPrompt (process_command env (trim_space (text_of line)) s2))
        | StateData \<Rightarrow>
            (case enter_data_loop s1 of
               Inl s2 \<Rightarrow> AtPrompt s2
             | Inr d \<Rightarrow> InCall d))"

datatype label = Prompt dial_env | Bridge turn | Stop

definition call_step :: "turn \<Rightarrow> data_loop \<Rightarrow> phase" where
  "call_step t d =
     (let d' = take_turn d t in if dl_control d' = Returned then AtPrompt (dl_session d') else InCall d')"

fun session_step :: "phase \<Rightarrow> label \<Rightarrow> phase" where
  "session_step (AtPrompt s) (Prompt env) = prompt_step env s"
| "session_step (AtPrompt s) Stop = AtPrompt (session_close s)"
| "session_step (InCall d) (Bridge t) = call_step t d"
| "session_step (InCall d) Stop = call_step StopTurn d"
| "session_step p _ = p"

definition session_run :: "phase \<Rightarrow> label list \<Rightarrow> phase" where
  "session_run p ls = foldl session_step p ls"

text \<open>\<open>Run\<close> up to the loop: negotiation, the pause, the drain, the banner, the first OK.\<close>

definition client_negotiation :: bytes where
  "client_negotiation = [IAC, WILL, ECHO, IAC, WILL, SUPPRESS_GO_AHEAD, IAC, DO, SUPPRESS_GO_AHEAD]"

definition begin_session :: "session \<Rightarrow> phase" where
  "begin_session s =
     (case write_client client_negotiation s of
        (False, s1) \<Rightarrow> finish_session s1
      | (True, s1) \<Rightarrow>
          (case write_client (s_banner s1) (drain_client_telnet (sleep (100 * millisecond) s1)) of
             (False, s2) \<Rightarrow> finish_session s2
           | (True, s2) \<Rightarrow>
               (case send_result ResultOK s2 of
                  (False, s3) \<Rightarrow> finish_session s3
                | (True, s3) \<Rightarrow> AtPrompt (s3\<lparr>s_reader := True\<rparr>))))"

end
