(* ===== verification/DataLoopFacts.thy ===== *)
theory DataLoopFacts
  imports DataLoop DialFacts "HOL-Library.Sublist"
begin

section \<open>What the bridge keeps\<close>

subsection \<open>Accessors\<close>

lemma on_session_fields [simp]:
  "dl_session (on_session f d) = f (dl_session d)" "dl_peer (on_session f d) = dl_peer d"
  "dl_filter (on_session f d) = dl_filter d" "dl_escape_char (on_session f d) = dl_escape_char d"
  "dl_guard (on_session f d) = dl_guard d" "dl_escapes (on_session f d) = dl_escapes d"
  "dl_last_escape (on_session f d) = dl_last_escape d" "dl_last_bulk (on_session f d) = dl_last_bulk d"
  "dl_logged_iac (on_session f d) = dl_logged_iac d" "dl_remote_gone (on_session f d) = dl_remote_gone d"
  "dl_reader (on_session f d) = dl_reader d" "dl_control (on_session f d) = dl_control d"
  by (simp_all add: on_session_def)

interpretation bridge_runs: run_system take_turn take_turns
  by unfold_locales (simp_all add: take_turns_def)

lemmas take_turns_simps [simp] = bridge_runs.run_Nil bridge_runs.run_snoc

text \<open>Appending for the board writes a log line at most; the bytes are those of \<open>outbound\<close>.\<close>

definition outbound :: "string \<Rightarrow> telnet_filter \<Rightarrow> byte \<Rightarrow> bytes" where
  "outbound mode f b = (if b \<noteq> IAC then [b] else if double_now mode f then [IAC, IAC] else [IAC])"

definition is_logged :: "effect \<Rightarrow> bool" where
  "is_logged e \<longleftrightarrow> (\<exists>ev. e = Logged ev)"

text \<open>\<open>d'\<close> is \<open>d\<close> but for log lines and the flag that remembers them.\<close>

definition logs_only :: "data_loop \<Rightarrow> data_loop \<Rightarrow> bool" where
  "logs_only d d' \<longleftrightarrow>
     (\<exists>es l. list_all is_logged es
        \<and> d' = d\<lparr>dl_session := (dl_session d)\<lparr>s_trace := s_trace (dl_session d) @ es\<rparr>, dl_logged_iac := l\<rparr>)"

lemma logs_only_refl [simp]: "logs_only d d"
  unfolding logs_only_def by (intro exI [of _ "[]"] exI [of _ "dl_logged_iac d"]) simp

lemma logs_only_trans: "logs_only d d1 \<Longrightarrow> logs_only d1 d2 \<Longrightarrow> logs_only d d2"
  unfolding logs_only_def
proof clarsimp
  fix es es' l l'
  assume "list_all is_logged es" "list_all is_logged es'"
  then show "\<exists>esa. list_all is_logged esa \<and>
      (\<exists>la. d\<lparr>dl_session := (dl_session d)\<lparr>s_trace := s_trace (dl_session d) @ es @ es'\<rparr>, dl_logged_iac := l'\<rparr> =
         d\<lparr>dl_session := (dl_session d)\<lparr>s_trace := s_trace (dl_session d) @ esa\<rparr>, dl_logged_iac := la\<rparr>)"
    by (intro exI [of _ "es @ es'"]) auto
qed

lemma logs_only_fields:
  assumes "logs_only d d'"
  shows "dl_peer d' = dl_peer d" "dl_filter d' = dl_filter d" "dl_escape_char d' = dl_escape_char d"
    "dl_guard d' = dl_guard d" "dl_escapes d' = dl_escapes d" "dl_last_escape d' = dl_last_escape d"
    "dl_last_bulk d' = dl_last_bulk d" "dl_remote_gone d' = dl_remote_gone d" "dl_reader d' = dl_reader d"
    "dl_control d' = dl_control d"
    and "s_dial_telnet (dl_session d') = s_dial_telnet (dl_session d)"
    "s_filter (dl_session d') = s_filter (dl_session d)" "s_arrivals (dl_session d') = s_arrivals (dl_session d)"
    "s_now (dl_session d') = s_now (dl_session d)" "s_last_input (dl_session d') = s_last_input (dl_session d)"
    "s_remote (dl_session d') = s_remote (dl_session d)" "s_modem (dl_session d') = s_modem (dl_session d)"
    and "\<exists>es. s_trace (dl_session d') = s_trace (dl_session d) @ es \<and> list_all is_logged es"
  using assms by (auto simp: logs_only_def)

lemma append_remote_logs:
  assumes "append_remote b (d, out) = (d', out')"
  shows "logs_only d d' \<and> out' = out @ outbound (s_dial_telnet (dl_session d)) (dl_filter d) b"
proof (cases "b = IAC \<and> \<not> dl_logged_iac d")
  case True
  let ?e = "Logged (outbound_iac_event (s_dial_telnet (dl_session d)) (dl_filter d))"
  have "d' = d\<lparr>dl_session := (dl_session d)\<lparr>s_trace := s_trace (dl_session d) @ [?e]\<rparr>, dl_logged_iac := True\<rparr>"
    using True assms by (auto simp: append_remote_def Let_def on_session_def log_it_def emit_def)
  then have "logs_only d d'"
    unfolding logs_only_def by (intro exI [of _ "[?e]"] exI [of _ True]) (simp add: is_logged_def)
  then show ?thesis using True assms by (auto simp: append_remote_def outbound_def Let_def)
next
  case False
  then show ?thesis using assms by (auto simp: append_remote_def outbound_def Let_def split: if_splits)
qed

lemma append_all_logs:
  "append_all bs (d, out) = (d', out') \<Longrightarrow>
     logs_only d d' \<and> out' = out @ concat (map (outbound (s_dial_telnet (dl_session d)) (dl_filter d)) bs)"
proof (induction bs arbitrary: d out)
  case (Cons b bs)
  obtain d1 out1 where a: "append_remote b (d, out) = (d1, out1)" by fastforce
  then have "append_all bs (d1, out1) = (d', out')" using Cons.prems by (simp add: append_all_def)
  from Cons.IH [OF this] append_remote_logs [OF a] show ?case
    using logs_only_trans logs_only_fields(2,11) [of d d1] by auto
qed (simp add: append_all_def)

subsection \<open>What reaches the board\<close>

text \<open>The data written to the board, and how data may be spelled on the wire under each mode.\<close>

fun bridged :: "effect \<Rightarrow> bytes" where
  "bridged (Bridged peer data) = data"
| "bridged _ = []"

definition sent :: "session \<Rightarrow> bytes" where
  "sent s = concat (map bridged (s_trace s))"

definition spelled :: "string \<Rightarrow> byte \<Rightarrow> bytes \<Rightarrow> bool" where
  "spelled mode b p \<longleftrightarrow>
     p = [b] \<and> (b = IAC \<longrightarrow> mode \<noteq> ''yes'') \<or> b = IAC \<and> p = [IAC, IAC] \<and> mode \<noteq> ''no''"

definition carries :: "string \<Rightarrow> bytes \<Rightarrow> bytes \<Rightarrow> bool" where
  "carries mode data out \<longleftrightarrow> (\<exists>ps. out = concat ps \<and> list_all2 (spelled mode) data ps)"

lemma carries_Nil [simp]: "carries mode [] []"
  by (auto simp: carries_def)

lemma carries_append: "carries mode xs out1 \<Longrightarrow> carries mode ys out2 \<Longrightarrow> carries mode (xs @ ys) (out1 @ out2)"
  unfolding carries_def by (metis concat_append list_all2_appendI)

lemma carries_outbound: "carries mode bs (concat (map (outbound mode f) bs))"
  unfolding carries_def
  by (rule exI [of _ "map (outbound mode f) bs"])
    (auto simp: list_all2_conv_all_nth spelled_def outbound_def double_now_def)

lemma carries_yes:
  assumes "carries ''yes'' data out"
  shows "out = double_iac data"
proof -
  obtain ps where "out = concat ps" "list_all2 (spelled ''yes'') data ps"
    using assms by (auto simp: carries_def)
  from this(2) have "concat ps = double_iac data"
    by (induction rule: list_all2_induct) (auto simp: spelled_def)
  with \<open>out = concat ps\<close> show ?thesis by simp
qed

lemma carries_no:
  assumes "carries ''no'' data out"
  shows "out = data"
proof -
  obtain ps where "out = concat ps" "list_all2 (spelled ''no'') data ps"
    using assms by (auto simp: carries_def)
  from this(2) have "concat ps = data"
    by (induction rule: list_all2_induct) (auto simp: spelled_def)
  with \<open>out = concat ps\<close> show ?thesis by simp
qed

text \<open>\<open>xs\<close> is \<open>ys\<close> but for lost escape characters.\<close>

definition thinned :: "byte \<Rightarrow> bytes \<Rightarrow> bytes \<Rightarrow> bool" where
  "thinned esc xs ys \<longleftrightarrow> subseq xs ys \<and> filter (\<lambda>b. b \<noteq> esc) xs = filter (\<lambda>b. b \<noteq> esc) ys"

lemma thinned_refl [simp]: "thinned esc xs xs"
  by (simp add: thinned_def)

lemma thinned_trans: "thinned esc xs ys \<Longrightarrow> thinned esc ys zs \<Longrightarrow> thinned esc xs zs"
  by (auto simp: thinned_def intro: subseq_order.trans)

lemma thinned_context: "thinned esc xs ys \<Longrightarrow> thinned esc (as @ xs @ bs) (as @ ys @ bs)"
  by (auto simp: thinned_def intro: list_emb_append_mono)

lemma escape_byte_thins:
  assumes "escape_byte esc guard bulk now b (n, le, li) = ((n', le', li'), data)"
  shows "thinned esc (data @ replicate n' esc) (replicate n esc @ [b])"
  using assms
  by (auto simp: escape_byte_def thinned_def replicate_append_same [symmetric] split: if_splits)

subsection \<open>Conservation\<close>

fun arrival_bytes :: "arrival list \<Rightarrow> bytes" where
  "arrival_bytes [] = []"
| "arrival_bytes (Arrive t bs # as) = bs @ arrival_bytes as"
| "arrival_bytes (HangUp t # as) = []"

lemma next_arrival_bytes:
  "next_arrival k now deadline as = (res, now', as') \<Longrightarrow>
     arrival_bytes as = (case res of Inr chunk \<Rightarrow> chunk | Inl _ \<Rightarrow> []) @ arrival_bytes as'"
  by (induction k now deadline as rule: next_arrival.induct) (auto split: if_splits)

lemma conn_read_fields:
  assumes "conn_read k s = (res, s')"
  shows "arrival_bytes (s_arrivals s) = (case res of Inr chunk \<Rightarrow> chunk | Inl _ \<Rightarrow> []) @ arrival_bytes (s_arrivals s')"
    and "s_trace s' = s_trace s" "s_filter s' = s_filter s" "s_dial_telnet s' = s_dial_telnet s"
    "s_last_input s' = s_last_input s" "s_modem s' = s_modem s" "s_remote s' = s_remote s" "s_done s' = s_done s"
    "s_buffered s' = s_buffered s" "s_config s' = s_config s"
  using assms next_arrival_bytes [of k "s_now s" "s_deadline s" "s_arrivals s"]
  by (auto simp: conn_read_def split: prod.splits if_splits)

text \<open>What the caller sends from now on, as the filter passes it.\<close>

definition incoming :: "session \<Rightarrow> bytes" where
  "incoming s = fst (snd (filter_bytes (s_filter s) (arrival_bytes (s_arrivals s))))"

fun held :: "control \<Rightarrow> bytes" where
  "held (Handling rest out) = rest"
| "held _ = []"

fun unsent :: "control \<Rightarrow> bytes" where
  "unsent (Handling rest out) = out"
| "unsent _ = []"

definition in_flight :: "data_loop \<Rightarrow> bytes" where
  "in_flight d =
     replicate (dl_escapes d) (dl_escape_char d) @ held (dl_control d) @ incoming (dl_session d)"

definition ended :: "data_loop \<Rightarrow> bool" where
  "ended d \<longleftrightarrow> dl_control d \<in> {Closing, Returned}"

text \<open>Of the bytes \<open>due\<close>, some have been written, some are queued, the others are in flight.\<close>

definition conserves :: "string \<Rightarrow> byte \<Rightarrow> bytes \<Rightarrow> bytes \<Rightarrow> data_loop \<Rightarrow> bool" where
  "conserves mode esc sent0 due d \<longleftrightarrow>
     s_dial_telnet (dl_session d) = mode \<and> dl_escape_char d = esc
     \<and> (\<exists>data1 data2 out. sent (dl_session d) = sent0 @ out \<and> carries mode data1 out
          \<and> carries mode data2 (unsent (dl_control d))
          \<and> (if ended d then \<exists>r. thinned esc (data1 @ r) due
             else thinned esc (data1 @ data2 @ in_flight d) due))"

text \<open>The part of a session conservation looks at.\<close>

definition flow :: "session \<Rightarrow> bytes \<times> bytes \<times> string" where
  "flow s = (sent s, incoming s, s_dial_telnet s)"

lemma conserves_cong:
  assumes "conserves mode esc sent0 due d"
    and "flow (dl_session d') = flow (dl_session d)" and "dl_control d' = dl_control d"
    and "dl_escapes d' = dl_escapes d" and "dl_escape_char d' = dl_escape_char d"
  shows "conserves mode esc sent0 due d'"
proof -
  have "in_flight d' = in_flight d" "ended d' = ended d"
    using assms(2-5) by (simp_all add: flow_def in_flight_def ended_def)
  then show ?thesis using assms by (simp only: conserves_def flow_def prod.inject)
qed

lemma conserves_ended:
  assumes "conserves mode esc sent0 due d" and "ended d'"
    and "sent (dl_session d') = sent (dl_session d)"
    and "s_dial_telnet (dl_session d') = s_dial_telnet (dl_session d)"
    and "dl_escape_char d' = dl_escape_char d"
  shows "conserves mode esc sent0 due d'"
proof -
  have u: "unsent (dl_control d') = []" using assms(2) by (auto simp: ended_def)
  obtain data1 data2 out where d: "sent (dl_session d) = sent0 @ out" "carries mode data1 out"
    "if ended d then \<exists>r. thinned esc (data1 @ r) due else thinned esc (data1 @ data2 @ in_flight d) due"
    using assms(1) by (auto simp: conserves_def)
  then have "\<exists>r. thinned esc (data1 @ r) due" by (auto split: if_splits)
  then show ?thesis
    using assms d u unfolding conserves_def
    by (intro conjI exI [of _ data1] exI [of _ "[]"] exI [of _ out]) (auto simp: conserves_def)
qed

subsection \<open>Every turn conserves\<close>

lemma sent_emit [simp]: "sent (emit e s) = sent s @ bridged e"
  by (simp add: sent_def emit_def)

lemma flow_emit: "bridged e = [] \<Longrightarrow> flow (emit e s) = flow s"
  by (simp add: flow_def) (simp add: emit_def incoming_def)

lemma flow_updates [simp]:
  "flow (s\<lparr>s_now := t\<rparr>) = flow s" "flow (s\<lparr>s_deadline := t\<rparr>) = flow s"
  "flow (s\<lparr>s_modem := m\<rparr>) = flow s" "flow (s\<lparr>s_remote := r\<rparr>) = flow s"
  "flow (s\<lparr>s_done := x\<rparr>) = flow s" "flow (s\<lparr>s_last_input := t\<rparr>) = flow s"
  "flow (s\<lparr>s_writes := ws\<rparr>) = flow s"
  by (simp_all add: flow_def sent_def incoming_def)

lemma flow_write_client [simp]: "flow (snd (write_client data s)) = flow s"
  by (simp add: write_client_def flow_emit split: list.split)

lemma flow_write: "write_client data s = (ok, s') \<Longrightarrow> flow s' = flow s"
  by (metis flow_write_client snd_conv)

lemma flow_ops [simp]:
  "flow (count_it c s) = flow s" "flow (log_it e s) = flow s"
  "flow (snd (send_result code s)) = flow s" "flow (set_modem_state st s) = flow s"
  "flow (pass_time dt s) = flow s" "flow (set_read_deadline t s) = flow s"
  by (simp_all add: count_it_def log_it_def send_result_def set_modem_state_def pass_time_def
      set_read_deadline_def flow_emit)

lemma flow_hangup [simp]: "flow (hangup s) = flow s"
  by (simp add: hangup_def flow_emit split: option.split)

lemma flow_close [simp]: "flow (session_close s) = flow s"
  by (simp add: session_close_def flow_emit)

lemma sent_logged: "list_all is_logged es \<Longrightarrow> concat (map bridged es) = []"
  by (induction es) (auto simp: is_logged_def)

lemma flow_logs_only: "logs_only d d' \<Longrightarrow> flow (dl_session d') = flow (dl_session d)"
  by (auto simp: logs_only_def flow_def sent_def incoming_def sent_logged)

lemma sent_flow: "flow s' = flow s \<Longrightarrow> sent s' = sent s \<and> s_dial_telnet s' = s_dial_telnet s"
  by (simp add: flow_def)

lemma ended_leave [simp]: "ended (leave d)"
  by (simp add: leave_def ended_def)

lemma conserves_leave:
  assumes "conserves mode esc sent0 due d"
    and "flow (f (dl_session d)) = flow (dl_session d)"
  shows "conserves mode esc sent0 due (leave (on_session f d))"
  using assms(1) ended_leave
proof (rule conserves_ended)
  have "flow (dl_session (leave (on_session f d))) = flow (dl_session d)"
    using assms(2) by (simp add: leave_def flow_emit)
  then show "sent (dl_session (leave (on_session f d))) = sent (dl_session d)"
    and "s_dial_telnet (dl_session (leave (on_session f d))) = s_dial_telnet (dl_session d)"
    by (simp_all add: flow_def)
qed (simp add: leave_def)

lemma conserves_drop: "conserves mode esc sent0 due d \<Longrightarrow> conserves mode esc sent0 due (drop_carrier d)"
  unfolding drop_carrier_def by (rule conserves_leave) simp_all

text \<open>Handing bytes to the board: the data moves from in flight to the queue.\<close>

lemma conserves_append:
  assumes "conserves mode esc sent0 due d" and "append_all data (d, unsent (dl_control d)) = (d1, out1)"
    and "\<not> ended d" and "\<not> ended d'"
    and "flow (dl_session d') = flow (dl_session d1)" and "dl_escape_char d' = dl_escape_char d"
    and "unsent (dl_control d') = out1"
    and "thinned esc (data @ replicate (dl_escapes d') esc @ held (dl_control d'))
           (replicate (dl_escapes d) esc @ held (dl_control d))"
  shows "conserves mode esc sent0 due d'"
proof -
  note l = append_all_logs [OF assms(2)]
  have fl: "flow (dl_session d') = flow (dl_session d)" using flow_logs_only l assms(5) by metis
  obtain data1 data2 out where d: "s_dial_telnet (dl_session d) = mode" "dl_escape_char d = esc"
    "sent (dl_session d) = sent0 @ out" "carries mode data1 out"
    "carries mode data2 (unsent (dl_control d))" "thinned esc (data1 @ data2 @ in_flight d) due"
    using assms(1,3) by (auto simp: conserves_def)
  have c: "carries mode (data2 @ data) out1" using l d(1,5) carries_append carries_outbound by auto
  have "thinned esc ((data1 @ data2) @ (data @ replicate (dl_escapes d') esc @ held (dl_control d')) @ incoming (dl_session d))
      ((data1 @ data2) @ (replicate (dl_escapes d) esc @ held (dl_control d)) @ incoming (dl_session d))"
    by (rule thinned_context [OF assms(8)])
  moreover have "incoming (dl_session d') = incoming (dl_session d)" using fl by (simp add: flow_def)
  ultimately have "thinned esc (data1 @ (data2 @ data) @ in_flight d') due"
    using thinned_trans [OF _ d(6)] assms(6) d(2) by (simp add: in_flight_def)
  then show ?thesis
    using d fl c assms(4,6,7) unfolding conserves_def flow_def
    by (intro conjI exI [of _ data1] exI [of _ "data2 @ data"] exI [of _ out]) auto
qed

lemma conserves_flush:
  assumes "conserves mode esc sent0 due d" and "\<not> ended d" and "\<not> ended d'"
    and "sent (dl_session d') = sent (dl_session d) @ unsent (dl_control d)"
    and "unsent (dl_control d') = []" and "in_flight d' = in_flight d"
    and "s_dial_telnet (dl_session d') = s_dial_telnet (dl_session d)"
    and "dl_escape_char d' = dl_escape_char d"
  shows "conserves mode esc sent0 due d'"
proof -
  obtain data1 data2 out where d: "sent (dl_session d) = sent0 @ out" "carries mode data1 out"
    "carries mode data2 (unsent (dl_control d))" "thinned esc (data1 @ data2 @ in_flight d) due"
    using assms(1,2) by (auto simp: conserves_def)
  then show ?thesis
    using assms carries_append [OF d(2,3)] unfolding conserves_def
    by (intro conjI exI [of _ "data1 @ data2"] exI [of _ "[]"] exI [of _ "out @ unsent (dl_control d)"]) auto
qed

lemma conserves_handle_byte:
  assumes "conserves mode esc sent0 due d" and "dl_control d = Handling (b # rest) out"
  shows "conserves mode esc sent0 due (handle_byte b rest out d)"
proof -
  obtain n le li data where e: "escape_byte (dl_escape_char d) (dl_guard d) (dl_last_bulk d)
      (s_now (dl_session d)) b (dl_escapes d, dl_last_escape d, s_last_input (dl_session d)) = ((n, le, li), data)"
    by (metis prod.exhaust)
  obtain d1 out1 where a: "append_all data (d, out) = (d1, out1)" by fastforce
  have esc: "dl_escape_char d = esc" using assms(1) by (simp add: conserves_def)
  have h: "handle_byte b rest out d =
      (on_session (\<lambda>s. s\<lparr>s_last_input := li\<rparr>) d1)\<lparr>dl_escapes := n, dl_last_escape := le, dl_control := Handling rest out1\<rparr>"
    using e a by (simp add: handle_byte_def Let_def)
  show ?thesis unfolding h
  proof (rule conserves_append [OF assms(1)])
    show "append_all data (d, unsent (dl_control d)) = (d1, out1)" using a assms(2) by simp
    show "thinned esc (data @ replicate (dl_escapes ((on_session (\<lambda>s. s\<lparr>s_last_input := li\<rparr>) d1)
          \<lparr>dl_escapes := n, dl_last_escape := le, dl_control := Handling rest out1\<rparr>)) esc
        @ held (dl_control ((on_session (\<lambda>s. s\<lparr>s_last_input := li\<rparr>) d1)
          \<lparr>dl_escapes := n, dl_last_escape := le, dl_control := Handling rest out1\<rparr>)))
        (replicate (dl_escapes d) esc @ held (dl_control d))"
      using thinned_context [OF escape_byte_thins [OF e], of "[]" rest] assms(2) esc by simp
    show "dl_escape_char ((on_session (\<lambda>s. s\<lparr>s_last_input := li\<rparr>) d1)
          \<lparr>dl_escapes := n, dl_last_escape := le, dl_control := Handling rest out1\<rparr>) = dl_escape_char d"
      using append_all_logs [OF a] logs_only_fields(3) by simp
  qed (use assms(2) in \<open>simp_all add: ended_def\<close>)
qed

lemma conserves_flush_out:
  assumes "conserves mode esc sent0 due d" and "dl_control d = Handling [] out"
  shows "conserves mode esc sent0 due (flush_out ok out d)"
proof (cases "out = []")
  case True
  show ?thesis
    by (rule conserves_flush [OF assms(1)])
      (use True assms(2) in \<open>simp_all add: flush_out_def ended_def in_flight_def\<close>)
next
  case out: False
  show ?thesis
  proof (cases ok)
    case True
    let ?s = "count_it (Bytes DirectionToRemote (int (length out))) (emit (Bridged (dl_peer d) out) (dl_session d))"
    have s: "sent ?s = sent (dl_session d) @ out" "incoming ?s = incoming (dl_session d)"
      "s_dial_telnet ?s = s_dial_telnet (dl_session d)"
      by (simp_all add: count_it_def) (simp_all add: emit_def incoming_def)
    show ?thesis
      by (rule conserves_flush [OF assms(1)])
        (use True out assms(2) s in \<open>simp_all add: flush_out_def bridge_write_def ended_def in_flight_def\<close>)
  next
    case False
    then show ?thesis using out conserves_drop [OF assms(1)] by (simp add: flush_out_def)
  qed
qed

lemma drop_carrier_control: "drop_carrier (d\<lparr>dl_control := c\<rparr>) = drop_carrier d"
  by (simp add: drop_carrier_def leave_def on_session_def)

lemma conserves_escape_timeout:
  assumes "conserves mode esc sent0 due d" and "dl_control d = Looping"
  shows "conserves mode esc sent0 due (escape_timeout ok d)"
proof -
  obtain d1 out where a: "append_all (replicate (dl_escapes d) (dl_escape_char d)) (d, []) = (d1, out)"
    by fastforce
  note l = append_all_logs [OF a] and f = logs_only_fields [of d d1]
  let ?d2 = "d1\<lparr>dl_escapes := 0\<rparr>" and ?m = "d1\<lparr>dl_escapes := 0, dl_control := Handling [] out\<rparr>"
  have m: "conserves mode esc sent0 due ?m"
  proof (rule conserves_append [OF assms(1)])
    show "append_all (replicate (dl_escapes d) (dl_escape_char d)) (d, unsent (dl_control d)) = (d1, out)"
      using a assms(2) by simp
    show "thinned esc (replicate (dl_escapes d) (dl_escape_char d) @ replicate (dl_escapes ?m) esc @ held (dl_control ?m))
        (replicate (dl_escapes d) esc @ held (dl_control d))"
      using assms by (simp add: conserves_def)
  qed (use assms(2) l f in \<open>simp_all add: ended_def\<close>)
  have "conserves mode esc sent0 due (drop_carrier ?d2)"
    using conserves_drop [OF m] drop_carrier_control [where d = ?d2 and c = "Handling [] out"] by simp
  moreover have "conserves mode esc sent0 due (bridge_write out ?d2)"
  proof (rule conserves_flush [OF m])
    show "in_flight (bridge_write out ?d2) = in_flight ?m"
      using assms(2) l f by (simp add: bridge_write_def in_flight_def) (simp add: incoming_def emit_def)
    show "s_dial_telnet (dl_session (bridge_write out ?d2)) = s_dial_telnet (dl_session ?m)"
      by (simp add: bridge_write_def emit_def)
  qed (use assms(2) l f in \<open>simp_all add: bridge_write_def ended_def\<close>)
  moreover have "conserves mode esc sent0 due
      (leave (on_session (\<lambda>s. snd (send_result ResultOK (set_modem_state StateCommand s))) d))"
    using assms(1) by (rule conserves_leave) simp
  ultimately show ?thesis using assms(1) a by (simp add: escape_timeout_def Let_def)
qed

lemma incoming_chunk:
  assumes "arrival_bytes (s_arrivals s) = chunk @ arrival_bytes (s_arrivals s')"
    and "s_filter s' = s_filter s" and "filter_bytes (s_filter s) chunk = (f, filtered, responses)"
  shows "incoming s = filtered @ incoming (s'\<lparr>s_filter := f\<rparr>)"
  using assms tf.feed_append [of "s_filter s" chunk "arrival_bytes (s_arrivals s')"]
  by (simp add: incoming_def split_beta)

lemma conserves_poll_client:
  assumes "conserves mode esc sent0 due d" and "dl_control d = Looping"
  shows "conserves mode esc sent0 due (poll_client ok d)"
proof -
  let ?s0 = "set_read_deadline (100 * millisecond) (dl_session d)"
  obtain res s where r: "conn_read 256 ?s0 = (res, s)" by fastforce
  note c = conn_read_fields [OF r]
  have same: "flow s = flow (dl_session d)" if "res = Inl err" for err
    using c that by (simp add: flow_def sent_def incoming_def set_read_deadline_def)
  have d: "conserves mode esc sent0 due (d\<lparr>dl_session := s\<rparr>)" if "res = Inl err" for err
    by (rule conserves_cong [OF assms(1)]) (use same [OF that] in simp_all)
  show ?thesis
  proof (cases res)
    case (Inl err)
    have "leave (d\<lparr>dl_session := hangup s\<rparr>) = leave (on_session hangup (d\<lparr>dl_session := s\<rparr>))"
      by (simp add: on_session_def)
    moreover have "conserves mode esc sent0 due (leave (on_session hangup (d\<lparr>dl_session := s\<rparr>)))"
      by (rule conserves_leave [OF d [OF Inl]]) simp
    moreover have "conserves mode esc sent0 due (escape_timeout ok (d\<lparr>dl_session := s\<rparr>))"
      by (rule conserves_escape_timeout [OF d [OF Inl]]) (use assms(2) in simp)
    ultimately show ?thesis using r Inl by (cases err) (simp_all add: poll_client_def)
  next
    case (Inr chunk)
    obtain f filtered responses where fb: "filter_bytes (s_filter s) chunk = (f, filtered, responses)"
      by (metis prod_cases3)
    let ?d' = "take_chunk chunk (d\<lparr>dl_session := s\<rparr>)"
    have ctl: "dl_control ?d' = Handling filtered []" "dl_escapes ?d' = dl_escapes d"
      "dl_escape_char ?d' = dl_escape_char d"
      by (auto simp: take_chunk_def fb Let_def)
    have fl: "flow (dl_session ?d') = flow (s\<lparr>s_filter := f\<rparr>)"
      by (auto simp: take_chunk_def fb Let_def)
    have sf: "s_filter s = s_filter ?s0" using c by simp
    have "incoming (dl_session d) = filtered @ incoming (s\<lparr>s_filter := f\<rparr>)"
      by (rule incoming_chunk [where chunk = chunk and responses = responses])
        (use c fb Inr in \<open>simp_all add: set_read_deadline_def\<close>)
    moreover have "sent s = sent (dl_session d)" "s_dial_telnet s = s_dial_telnet (dl_session d)"
      using c by (simp_all add: sent_def set_read_deadline_def)
    ultimately have "conserves mode esc sent0 due ?d'"
      by (intro conserves_flush [OF assms(1)])
        (use assms(2) ctl fl in \<open>simp_all add: ended_def in_flight_def flow_def sent_def\<close>)
    then show ?thesis using r Inr by (simp add: poll_client_def)
  qed
qed

lemma conserves_client_turn:
  assumes "conserves mode esc sent0 due d"
  shows "conserves mode esc sent0 due (client_turn ok first d)"
proof (cases "dl_control d")
  case Looping
  have "conserves mode esc sent0 due (leave d)"
    using conserves_leave [OF assms, of "\<lambda>s. s"] by (simp add: on_session_def)
  then show ?thesis
    using Looping conserves_drop [OF assms] conserves_poll_client [OF assms Looping]
    by (simp add: client_turn_def)
next
  case (Handling rest out)
  then show ?thesis
    using conserves_handle_byte [OF assms] conserves_flush_out [OF assms]
    by (cases rest) (simp_all add: client_turn_def)
qed (use assms in \<open>simp_all add: client_turn_def\<close>)

lemma conserves_reader_ends:
  assumes "conserves mode esc sent0 due d" and "flow s = flow (dl_session d)"
    and "dl_control d' = dl_control d" "dl_escapes d' = dl_escapes d" "dl_escape_char d' = dl_escape_char d"
    and "dl_session d' = s"
  shows "conserves mode esc sent0 due (reader_ends d')"
proof -
  have d': "conserves mode esc sent0 due d'" by (rule conserves_cong [OF assms(1)]) (use assms in simp_all)
  show ?thesis
  proof (cases "dl_control d = Closing")
    case True
    show ?thesis
      by (rule conserves_ended [OF d']) (use True assms in \<open>simp_all add: reader_ends_def ended_def\<close>)
  next
    case False
    show ?thesis
      by (rule conserves_cong [OF d']) (use False assms in \<open>simp_all add: reader_ends_def\<close>)
  qed
qed

lemma conserves_remote_turn:
  assumes "conserves mode esc sent0 due d"
  shows "conserves mode esc sent0 due (remote_turn ok r d)"
proof (cases "dl_reader d")
  case reader: True
  show ?thesis
  proof (cases r)
    case (RemoteData data)
    obtain f filtered responses where fb: "filter_bytes (dl_filter d) data = (f, filtered, responses)"
      by (metis prod_cases3)
    define d1 where "d1 = d\<lparr>dl_filter := f\<rparr>"
    define d2 where "d2 = reply_remote responses d1"
    have d2: "flow (dl_session d2) = flow (dl_session d)" "dl_control d2 = dl_control d"
      "dl_escapes d2 = dl_escapes d" "dl_escape_char d2 = dl_escape_char d"
      by (simp_all add: d2_def d1_def reply_remote_def flow_emit)
    obtain w s where w: "write_client filtered (dl_session d2) = (w, s)" by fastforce
    have s: "flow s = flow (dl_session d)" using flow_write [OF w] d2(1) by simp
    have unf: "remote_turn ok r d =
        (if responses \<noteq> [] \<and> \<not> ok then reader_ends d1
         else if filtered = [] then d2
         else if w then d2\<lparr>dl_session := count_it (Bytes DirectionToClient (int (length filtered))) s\<rparr>
         else reader_ends (d2\<lparr>dl_session := s\<rparr>))"
      using reader RemoteData fb w
      by (cases w) (auto simp: remote_turn_def Let_def d1_def d2_def)
    have "conserves mode esc sent0 due (reader_ends d1)"
      by (rule conserves_reader_ends [OF assms]) (simp_all add: d1_def)
    moreover have "conserves mode esc sent0 due (reader_ends (d2\<lparr>dl_session := s\<rparr>))"
      by (rule conserves_reader_ends [OF assms]) (simp_all add: s d2)
    moreover have "conserves mode esc sent0 due d2"
      by (rule conserves_cong [OF assms]) (simp_all add: d2)
    moreover have "conserves mode esc sent0 due
        (d2\<lparr>dl_session := count_it (Bytes DirectionToClient (int (length filtered))) s\<rparr>)"
      by (rule conserves_cong [OF assms]) (simp_all add: s d2)
    ultimately show ?thesis unfolding unf by simp
  next
    case RemoteEOF
    then show ?thesis using reader conserves_reader_ends [OF assms] by (simp add: remote_turn_def)
  next
    case (RemoteError err)
    have "conserves mode esc sent0 due (reader_ends (on_session (log_it (remote_read_error_event err)) d))"
      by (rule conserves_reader_ends [OF assms]) simp_all
    then show ?thesis using reader RemoteError by (simp add: remote_turn_def)
  qed
qed (use assms in \<open>simp add: remote_turn_def\<close>)

lemma conserves_session:
  "conserves mode esc sent0 due d \<Longrightarrow> (\<And>s. flow (f s) = flow s) \<Longrightarrow> conserves mode esc sent0 due (on_session f d)"
  by (rule conserves_cong) simp_all

lemma conserves_turn: "conserves mode esc sent0 due d \<Longrightarrow> conserves mode esc sent0 due (take_turn d t)"
  by (cases t) (auto intro!: conserves_client_turn conserves_remote_turn conserves_session)

lemma conserves_turns: "conserves mode esc sent0 due d \<Longrightarrow> conserves mode esc sent0 due (take_turns d ts)"
  by (rule bridge_runs.run_keeps) (rule conserves_turn)

lemma conserves_start:
  "conserves (s_dial_telnet s) (get_escape_char (sregs (s_modem s))) (sent s) (incoming s) (start_data_loop peer s)"
  unfolding conserves_def
  by (intro conjI exI [of _ "[]"]) (simp_all add: start_data_loop_def in_flight_def ended_def)

subsection \<open>What the caller was heard to type\<close>

text \<open>
  The bytes the session's goroutine has gone through: when, how long after the last read of
  \<open>bulkChunk\<close> bytes or more, and which.
\<close>

record keystroke =
  key_time :: time
  key_bulk :: time
  key_byte :: byte

definition heard_now :: "data_loop \<Rightarrow> turn \<Rightarrow> keystroke list" where
  "heard_now d t =
     (case (t, dl_control d) of
        (ClientTurn dt ok first, Handling (b # rest) out) \<Rightarrow>
          [\<lparr>key_time = s_now (dl_session d) + max 0 dt, key_bulk = dl_last_bulk d, key_byte = b\<rparr>]
      | _ \<Rightarrow> [])"

fun heard :: "data_loop \<Rightarrow> turn list \<Rightarrow> keystroke list" where
  "heard d [] = []"
| "heard d (t # ts) = heard_now d t @ heard (take_turn d t) ts"

lemma heard_snoc: "heard d (ts @ [t]) = heard d ts @ heard_now (take_turns d ts) t"
  by (induction ts arbitrary: d) (simp_all add: take_turns_def)

text \<open>
  A run of escape characters typed as the sequence demands, the last at \<open>le\<close>: each within the guard
  time of the one before it, the first at least the guard time after what preceded it (\<open>li\<close>), and none
  of them while the caller was streaming.
\<close>

fun typed_escapes :: "byte \<Rightarrow> duration \<Rightarrow> time \<Rightarrow> keystroke list \<Rightarrow> bool" where
  "typed_escapes esc guard prev [] = True"
| "typed_escapes esc guard prev (k # ks) =
     (key_byte k = esc \<and> bulkQuiet \<le> time_sub (key_time k) (key_bulk k)
      \<and> time_sub (key_time k) prev < guard \<and> typed_escapes esc guard (key_time k) ks)"

definition escape_run :: "byte \<Rightarrow> duration \<Rightarrow> time \<Rightarrow> keystroke list \<Rightarrow> bool" where
  "escape_run esc guard li ks \<longleftrightarrow>
     (case ks of
        [] \<Rightarrow> False
      | k # rest \<Rightarrow>
          key_byte k = esc \<and> bulkQuiet \<le> time_sub (key_time k) (key_bulk k)
          \<and> guard \<le> time_sub (key_time k) li \<and> typed_escapes esc guard (key_time k) rest)"

lemma typed_escapes_snoc:
  "typed_escapes esc guard prev (ks @ [k]) \<longleftrightarrow>
     typed_escapes esc guard prev ks \<and> key_byte k = esc \<and> bulkQuiet \<le> time_sub (key_time k) (key_bulk k)
     \<and> time_sub (key_time k) (if ks = [] then prev else key_time (last ks)) < guard"
  by (induction ks arbitrary: prev) auto

lemma escape_run_snoc:
  assumes "escape_run esc guard li ks" and "key_byte k = esc"
    and "bulkQuiet \<le> time_sub (key_time k) (key_bulk k)"
    and "time_sub (key_time k) (key_time (last ks)) < guard"
  shows "escape_run esc guard li (ks @ [k])"
  using assms by (cases ks) (auto simp: escape_run_def typed_escapes_snoc split: if_splits)

text \<open>When the caller was last heard, \<open>s0\<close> being the time before.\<close>

definition last_heard :: "time \<Rightarrow> keystroke list \<Rightarrow> time" where
  "last_heard t0 ks = (if ks = [] then t0 else key_time (last ks))"

text \<open>What the loop's escape variables say of the keystrokes so far.\<close>

definition follows :: "byte \<Rightarrow> duration \<Rightarrow> time \<Rightarrow> keystroke list \<Rightarrow> data_loop \<Rightarrow> bool" where
  "follows esc guard t0 hist d \<longleftrightarrow>
     dl_escape_char d = esc \<and> dl_guard d = guard
     \<and> s_last_input (dl_session d) = last_heard t0 hist
     \<and> (dl_escapes d > 0 \<longrightarrow>
          dl_last_escape d = last_heard t0 hist
          \<and> (\<exists>pre run. hist = pre @ run \<and> length run = dl_escapes d \<and> escape_run esc guard (last_heard t0 pre) run))"

lemma follows_cong:
  assumes "follows esc guard t0 hist d"
    and "dl_escape_char d' = dl_escape_char d" "dl_guard d' = dl_guard d"
    and "s_last_input (dl_session d') = s_last_input (dl_session d)"
    and "dl_escapes d' = dl_escapes d \<and> dl_last_escape d' = dl_last_escape d \<or> dl_escapes d' = 0"
  shows "follows esc guard t0 hist d'"
  using assms(5)
proof
  assume "dl_escapes d' = dl_escapes d \<and> dl_last_escape d' = dl_last_escape d"
  then show ?thesis using assms(1-4) by (simp add: follows_def)
next
  assume "dl_escapes d' = 0"
  then show ?thesis using assms(1-4) by (simp add: follows_def)
qed

lemma follows_byte:
  assumes "follows esc guard t0 hist d" and "dl_control d = Handling (b # rest) out"
  shows "follows esc guard t0
     (hist @ [\<lparr>key_time = s_now (dl_session d), key_bulk = dl_last_bulk d, key_byte = b\<rparr>]) (handle_byte b rest out d)"
proof -
  let ?k = "\<lparr>key_time = s_now (dl_session d), key_bulk = dl_last_bulk d, key_byte = b\<rparr>"
  let ?now = "s_now (dl_session d)"
  obtain n le li data where e: "escape_byte (dl_escape_char d) (dl_guard d) (dl_last_bulk d)
      ?now b (dl_escapes d, dl_last_escape d, s_last_input (dl_session d)) = ((n, le, li), data)"
    by (metis prod.exhaust)
  obtain d1 out1 where a: "append_all data (d, out) = (d1, out1)" by fastforce
  note l = logs_only_fields [OF append_all_logs [OF a, THEN conjunct1]]
  have h: "handle_byte b rest out d =
      (on_session (\<lambda>s. s\<lparr>s_last_input := li\<rparr>) d1)\<lparr>dl_escapes := n, dl_last_escape := le, dl_control := Handling rest out1\<rparr>"
    using e a by (simp add: handle_byte_def Let_def)
  have li: "li = ?now" using e by (auto simp: escape_byte_def split: if_splits)
  have run: "le = ?now \<and> (\<exists>pre run. hist @ [?k] = pre @ run \<and> length run = n \<and> escape_run esc guard (last_heard t0 pre) run)"
    if n: "n > 0"
  proof -
    have f: "dl_escape_char d = esc" "dl_guard d = guard" "s_last_input (dl_session d) = last_heard t0 hist"
      using assms(1) by (simp_all add: follows_def)
    have b: "b = esc" "bulkQuiet \<le> time_sub ?now (dl_last_bulk d)" and le: "le = ?now"
      using e n f by (auto simp: escape_byte_def split: if_splits)
    have one: "\<exists>pre run. hist @ [?k] = pre @ run \<and> length run = 1 \<and> escape_run esc guard (last_heard t0 pre) run"
      if "guard \<le> time_sub ?now (last_heard t0 hist)"
      using that b by (intro exI [of _ hist] exI [of _ "[?k]"]) (simp add: escape_run_def)
    show ?thesis
    proof (cases "dl_escapes d = 0")
      case True
      then have "n = 1" "guard < time_sub ?now (last_heard t0 hist)"
        using e f b n by (auto simp: escape_byte_def split: if_splits)
      then show ?thesis using one le by simp
    next
      case False
      then obtain pre run where p: "dl_last_escape d = last_heard t0 hist" "hist = pre @ run"
        "length run = dl_escapes d" "escape_run esc guard (last_heard t0 pre) run"
        using assms(1) by (auto simp: follows_def)
      have "run \<noteq> []" using p(3) False by auto
      then have last: "last_heard t0 hist = key_time (last run)" using p(2) by (simp add: last_heard_def)
      show ?thesis
      proof (cases "time_sub ?now (dl_last_escape d) < guard")
        case True
        then have "n = dl_escapes d + 1" using e f b False by (auto simp: escape_byte_def)
        moreover have "escape_run esc guard (last_heard t0 pre) (run @ [?k])"
          by (rule escape_run_snoc [OF p(4)]) (use True p(1) last b in simp_all)
        ultimately show ?thesis using le p
          by (intro conjI exI [of _ pre] exI [of _ "run @ [?k]"]) simp_all
      next
        case far: False
        then have "n = 1" using e f b False by (auto simp: escape_byte_def)
        then show ?thesis using one le far p(1) by simp
      qed
    qed
  qed
  show ?thesis
    using run assms(1) l li unfolding h follows_def by (simp add: last_heard_def)
qed

subsection \<open>The escape variables follow the keystrokes\<close>

lemma last_input_ops [simp]:
  "s_last_input (emit e s) = s_last_input s" "s_last_input (log_it ev s) = s_last_input s"
  "s_last_input (count_it c s) = s_last_input s" "s_last_input (snd (write_client data s)) = s_last_input s"
  "s_last_input (snd (send_result code s)) = s_last_input s" "s_last_input (set_modem_state st s) = s_last_input s"
  "s_last_input (hangup s) = s_last_input s" "s_last_input (session_close s) = s_last_input s"
  "s_last_input (pass_time dt s) = s_last_input s" "s_last_input (set_read_deadline t s) = s_last_input s"
  by (simp_all add: emit_def log_it_def count_it_def write_client_def send_result_def set_modem_state_def
      hangup_def session_close_def pass_time_def set_read_deadline_def split: list.split option.split)

text \<open>\<open>d'\<close> has the escape variables of \<open>d\<close>, or has given up counting.\<close>

definition steady :: "data_loop \<Rightarrow> data_loop \<Rightarrow> bool" where
  "steady d d' \<longleftrightarrow> dl_escape_char d' = dl_escape_char d \<and> dl_guard d' = dl_guard d
     \<and> s_last_input (dl_session d') = s_last_input (dl_session d)
     \<and> (dl_escapes d' = dl_escapes d \<and> dl_last_escape d' = dl_last_escape d \<or> dl_escapes d' = 0)"

lemma follows_steady: "follows esc guard t0 hist d \<Longrightarrow> steady d d' \<Longrightarrow> follows esc guard t0 hist d'"
  by (rule follows_cong) (auto simp: steady_def)

lemma steady_session: "s_last_input s = s_last_input (dl_session d) \<Longrightarrow> steady d (d\<lparr>dl_session := s\<rparr>)"
  by (simp add: steady_def)

lemma steady_on_session: "(\<And>s. s_last_input (f s) = s_last_input s) \<Longrightarrow> steady d (on_session f d)"
  by (simp add: steady_def)

lemma steady_trans: "steady d d1 \<Longrightarrow> steady d1 d2 \<Longrightarrow> steady d d2"
  by (auto simp: steady_def)

lemma steady_leave [simp]: "steady d (leave d)"
  by (simp add: leave_def steady_def)

lemma steady_drop [simp]: "steady d (drop_carrier d)"
  unfolding drop_carrier_def by (rule steady_trans [OF _ steady_leave]) (rule steady_on_session, simp)

lemma steady_reader_ends [simp]: "steady d (reader_ends d)"
  by (simp add: reader_ends_def steady_def)

lemma steady_escape_timeout: "steady d (escape_timeout ok d)"
proof -
  obtain d1 out where a: "append_all (replicate (dl_escapes d) (dl_escape_char d)) (d, []) = (d1, out)"
    by fastforce
  note l = logs_only_fields [OF append_all_logs [OF a, THEN conjunct1]]
  have z: "steady d (d1\<lparr>dl_escapes := 0\<rparr>)" using l by (simp add: steady_def)
  have "steady d (bridge_write out (d1\<lparr>dl_escapes := 0\<rparr>))"
    by (rule steady_trans [OF z]) (simp add: bridge_write_def steady_on_session)
  moreover have "steady d (drop_carrier (d1\<lparr>dl_escapes := 0\<rparr>))"
    by (rule steady_trans [OF z steady_drop])
  moreover have "steady d (leave (on_session (\<lambda>s. snd (send_result ResultOK (set_modem_state StateCommand s))) d))"
    by (rule steady_trans [OF _ steady_leave]) (rule steady_on_session, simp)
  moreover have "steady d d" by (simp add: steady_def)
  ultimately show ?thesis using a by (simp add: escape_timeout_def Let_def)
qed

lemma steady_poll_client: "steady d (poll_client ok d)"
proof -
  obtain res s where r: "conn_read 256 (set_read_deadline (100 * millisecond) (dl_session d)) = (res, s)"
    by fastforce
  have s: "steady d (d\<lparr>dl_session := s\<rparr>)"
    by (rule steady_session) (use conn_read_fields(5) [OF r] in simp)
  have h: "steady d (leave (d\<lparr>dl_session := hangup s\<rparr>))"
    by (rule steady_trans [OF _ steady_leave], rule steady_session) (use conn_read_fields(5) [OF r] in simp)
  show ?thesis
  proof (cases res)
    case (Inl err)
    then show ?thesis
      using r h steady_trans [OF s steady_escape_timeout] by (cases err) (simp_all add: poll_client_def)
  next
    case (Inr chunk)
    have "steady d (take_chunk chunk (d\<lparr>dl_session := s\<rparr>))"
      using s by (auto simp: take_chunk_def Let_def steady_def split: prod.split)
    then show ?thesis using r Inr by (simp add: poll_client_def)
  qed
qed

lemma steady_remote_turn: "steady d (remote_turn ok r d)"
proof (cases r)
  case (RemoteData data)
  obtain f filtered responses where fb: "filter_bytes (dl_filter d) data = (f, filtered, responses)"
    by (metis prod_cases3)
  define d2 where "d2 = reply_remote responses (d\<lparr>dl_filter := f\<rparr>)"
  obtain w s where w: "write_client filtered (dl_session d2) = (w, s)" by fastforce
  have d2: "steady d d2" by (simp add: d2_def reply_remote_def steady_def)
  have s: "s_last_input s = s_last_input (dl_session d2)" using w by (metis last_input_ops(4) snd_conv)
  have "steady d (reader_ends (d\<lparr>dl_filter := f\<rparr>))"
    by (rule steady_trans [OF _ steady_reader_ends]) (simp add: steady_def)
  moreover have "steady d (reader_ends (d2\<lparr>dl_session := s\<rparr>))"
    by (rule steady_trans [OF steady_trans [OF d2 steady_session [OF s]] steady_reader_ends])
  moreover have "steady d (d2\<lparr>dl_session := count_it c s\<rparr>)" for c
    using steady_trans [OF d2] s by (simp add: steady_session)
  moreover have "steady d d" by (simp add: steady_def)
  ultimately show ?thesis using RemoteData fb w d2
    by (cases w) (auto simp: remote_turn_def Let_def d2_def)
next
  case RemoteEOF
  then show ?thesis by (simp add: remote_turn_def) (simp add: steady_def)
next
  case (RemoteError err)
  have "steady d (reader_ends (on_session (log_it (remote_read_error_event err)) d))"
    by (rule steady_trans [OF steady_on_session steady_reader_ends]) simp
  then show ?thesis using RemoteError by (simp add: remote_turn_def) (simp add: steady_def)
qed

lemma follows_turn:
  assumes "follows esc guard t0 hist d"
  shows "follows esc guard t0 (hist @ heard_now d t) (take_turn d t)"
proof (cases t)
  case (ClientTurn dt ok first)
  let ?d = "on_session (pass_time dt) d"
  have d: "follows esc guard t0 hist ?d"
    by (rule follows_steady [OF assms]) (rule steady_on_session, simp)
  have keep: "follows esc guard t0 hist d'" if "steady ?d d'" for d'
    using d that by (rule follows_steady)
  show ?thesis
  proof (cases "dl_control d")
    case Looping
    then have "heard_now d t = []" by (simp add: heard_now_def ClientTurn)
    then show ?thesis using Looping ClientTurn keep
      by (auto simp: client_turn_def steady_poll_client intro!: keep)
  next
    case (Handling rest out)
    show ?thesis
    proof (cases rest)
      case Nil
      have "steady ?d (flush_out ok out ?d)"
      proof -
        have "steady ?d (?d\<lparr>dl_control := Looping\<rparr>)" by (simp add: steady_def)
        moreover have "steady ?d ((on_session (count_it c) (bridge_write out ?d))\<lparr>dl_control := Looping\<rparr>)" for c
          by (simp add: steady_def bridge_write_def)
        ultimately show ?thesis by (simp add: flush_out_def)
      qed
      then show ?thesis using Handling Nil ClientTurn keep
        by (simp add: heard_now_def client_turn_def)
    next
      case (Cons b rest')
      then show ?thesis using follows_byte [OF d, of b rest' out] Handling ClientTurn
        by (simp add: heard_now_def client_turn_def pass_time_def)
    qed
  qed (use d ClientTurn in \<open>simp_all add: heard_now_def client_turn_def\<close>)
next
  case (RemoteTurn dt ok r)
  have "steady d (remote_turn ok r (on_session (pass_time dt) d))"
    by (rule steady_trans [OF steady_on_session steady_remote_turn]) simp
  then show ?thesis using follows_steady [OF assms] RemoteTurn by (simp add: heard_now_def)
next
  case StopTurn
  have "steady d (on_session session_close d)" by (rule steady_on_session) simp
  then show ?thesis using follows_steady [OF assms] StopTurn by (simp add: heard_now_def)
qed

lemma follows_turns:
  "follows esc guard t0 [] d \<Longrightarrow> follows esc guard t0 (heard d ts) (take_turns d ts)"
proof (induction ts rule: rev_induct)
  case (snoc t ts)
  then show ?case using follows_turn by (simp add: heard_snoc)
qed simp

lemma follows_start:
  "follows (get_escape_char (sregs (s_modem s))) (get_escape_guard_time (sregs (s_modem s)) * millisecond)
     (s_last_input s) [] (start_data_loop peer s)"
  by (simp add: follows_def start_data_loop_def last_heard_def)

subsection \<open>The effects of a turn\<close>

lemma extends_emit: "P e \<Longrightarrow> extends P s t \<Longrightarrow> extends P s (emit e t)"
  by (rule extends_grows [OF _ emit_grows])

lemma extends_same: "extends P s t \<Longrightarrow> s_trace t' = s_trace t \<Longrightarrow> extends P s t'"
  by (simp add: extends_def)

text \<open>What the bridge does but for reporting a completed escape.\<close>

definition bridge_effects :: "(effect \<Rightarrow> bool) \<Rightarrow> bool" where
  "bridge_effects P \<longleftrightarrow> lax P \<and> P ClosedClient \<and> P (Reports ResultNoCarrier)
     \<and> (\<forall>dir k p bs. P (Counted (Bytes dir k)) \<and> P (Network (CloseConn p)) \<and> P (Network (SendTo p bs))
          \<and> P (Bridged p bs))"

lemma bridge_effectsD:
  assumes "bridge_effects P"
  shows "lax P" "P ClosedClient" "P (Reports ResultNoCarrier)" "P (Counted (Bytes dir k))" "P (Network (CloseConn p))"
    "P (Bridged p bs)" "P (Logged ev)" "P (Network (SendTo p bs))"
  using assms by (simp_all add: bridge_effects_def lax_def)

lemma extends_write: "lax P \<Longrightarrow> extends P s t \<Longrightarrow> extends P s (snd (write_client d t))"
  by (rule extends_grows) (auto intro: grow_intros)

lemma extends_result: "lax P \<Longrightarrow> P (Reports c) \<Longrightarrow> extends P s t \<Longrightarrow> extends P s (snd (send_result c t))"
  by (rule extends_grows) (auto intro: grow_intros)

lemma extends_hangup: "bridge_effects P \<Longrightarrow> extends P s t \<Longrightarrow> extends P s (hangup t)"
proof (cases "s_remote t")
  case None
  assume "extends P s t"
  then show ?thesis by (rule extends_same) (simp add: hangup_def set_modem_state_def None)
next
  case (Some peer)
  assume a: "bridge_effects P" "extends P s t"
  show ?thesis
    by (rule extends_same [OF extends_emit [OF bridge_effectsD(5) [OF a(1)] a(2), of peer]])
      (simp add: hangup_def set_modem_state_def Some)
qed

lemma extends_leave:
  "bridge_effects P \<Longrightarrow> extends P s (dl_session d) \<Longrightarrow> extends P s (dl_session (leave d))"
  by (simp add: leave_def extends_emit bridge_effectsD(5))

lemma extends_drop:
  "bridge_effects P \<Longrightarrow> extends P s (dl_session d) \<Longrightarrow> extends P s (dl_session (drop_carrier d))"
  by (simp add: drop_carrier_def extends_leave extends_result extends_hangup bridge_effectsD(1,3))

lemma extends_logs_only:
  assumes "bridge_effects P" and "logs_only d d'"
  shows "extends P (dl_session d) (dl_session d')"
proof -
  obtain es where "s_trace (dl_session d') = s_trace (dl_session d) @ es" "list_all is_logged es"
    using logs_only_fields(18) [OF assms(2)] by blast
  moreover have "list_all P es"
    using \<open>list_all is_logged es\<close> bridge_effectsD(7) [OF assms(1)] by (auto simp: list_all_iff is_logged_def)
  ultimately show ?thesis by (auto simp: extends_def)
qed

definition escaped :: "data_loop \<Rightarrow> bool" where
  "escaped d \<longleftrightarrow> 3 \<le> dl_escapes d \<and> dl_guard d < time_sub (s_now (dl_session d)) (dl_last_escape d)"

lemma extends_escape_timeout:
  assumes "bridge_effects P" and "escaped d \<Longrightarrow> P (Reports ResultOK)"
  shows "extends P (dl_session d) (dl_session (escape_timeout ok d))"
proof (cases "dl_escapes d > 0 \<and> dl_guard d < time_sub (s_now (dl_session d)) (dl_last_escape d)")
  case True
  show ?thesis
  proof (cases "dl_escapes d \<ge> 3")
    case esc: True
    have "extends P (dl_session d) (set_modem_state StateCommand (dl_session d))"
      by (rule extends_same [OF extends_refl]) (simp add: set_modem_state_def)
    then show ?thesis
      using True esc assms bridge_effectsD(1) [OF assms(1)]
      by (simp add: escape_timeout_def escaped_def extends_leave extends_result)
  next
    case no: False
    obtain d1 out where a: "append_all (replicate (dl_escapes d) (dl_escape_char d)) (d, []) = (d1, out)"
      by fastforce
    have e: "extends P (dl_session d) (dl_session d1)"
      using extends_logs_only [OF assms(1)] append_all_logs [OF a] by blast
    then show ?thesis
      using True no a extends_drop [OF assms(1), of "dl_session d" "d1\<lparr>dl_escapes := 0\<rparr>"]
      by (simp add: escape_timeout_def Let_def bridge_write_def extends_emit bridge_effectsD(6) [OF assms(1)])
  qed
next
  case False
  show ?thesis unfolding escape_timeout_def if_not_P [OF False] by simp
qed

lemma extends_poll_client:
  assumes "bridge_effects P"
    and "3 \<le> dl_escapes d \<and> dl_guard d < time_sub (s_now (dl_session (poll_client ok d))) (dl_last_escape d)
      \<and> dl_control d = Looping \<Longrightarrow> P (Reports ResultOK)"
    and "dl_control d = Looping"
  shows "extends P (dl_session d) (dl_session (poll_client ok d))"
proof -
  obtain res s where r: "conn_read 256 (set_read_deadline (100 * millisecond) (dl_session d)) = (res, s)"
    by fastforce
  have s: "extends P (dl_session d) s"
    by (rule extends_same [OF extends_refl]) (use conn_read_fields(2) [OF r] in \<open>simp add: set_read_deadline_def\<close>)
  show ?thesis
  proof (cases res)
    case (Inl err)
    show ?thesis
    proof (cases err)
      case ReadTimeout
      let ?d = "d\<lparr>dl_session := s\<rparr>"
      have p: "poll_client ok d = escape_timeout ok ?d" using r Inl ReadTimeout by (simp add: poll_client_def)
      have "P (Reports ResultOK)" if "escaped ?d"
      proof (rule assms(2))
        have "escape_timeout ok ?d =
            leave (on_session (\<lambda>s. snd (send_result ResultOK (set_modem_state StateCommand s))) ?d)"
          using that by (auto simp: escape_timeout_def escaped_def)
        then have "s_now (dl_session (poll_client ok d)) = s_now s"
          unfolding p by (simp add: leave_def emit_def send_result_def write_client_def set_modem_state_def
              split: list.split)
        then show "3 \<le> dl_escapes d \<and> dl_guard d < time_sub (s_now (dl_session (poll_client ok d))) (dl_last_escape d)
            \<and> dl_control d = Looping"
          using that assms(3) by (simp add: escaped_def)
      qed
      then have "extends P s (dl_session (escape_timeout ok ?d))"
        using extends_escape_timeout [OF assms(1), of ?d] by simp
      then show ?thesis using p s extends_trans by simp
    qed (use r Inl s assms(1) in \<open>simp_all add: poll_client_def extends_leave extends_hangup\<close>)
  next
    case (Inr chunk)
    obtain f filtered responses where fb: "filter_bytes (s_filter s) chunk = (f, filtered, responses)"
      by (metis prod_cases3)
    have "extends P (dl_session d) (s\<lparr>s_filter := f\<rparr>)" by (rule extends_same [OF s]) simp
    then show ?thesis
      using r Inr fb extends_write [OF bridge_effectsD(1) [OF assms(1)]]
      by (simp add: poll_client_def take_chunk_def Let_def)
  qed
qed

lemma extends_remote_turn:
  assumes "bridge_effects P"
  shows "extends P (dl_session d) (dl_session (remote_turn ok r d))"
proof (cases r)
  case (RemoteData data)
  obtain f filtered responses where fb: "filter_bytes (dl_filter d) data = (f, filtered, responses)"
    by (metis prod_cases3)
  define d2 where "d2 = reply_remote responses (d\<lparr>dl_filter := f\<rparr>)"
  obtain w s where w: "write_client filtered (dl_session d2) = (w, s)" by fastforce
  have d2: "extends P (dl_session d) (dl_session d2)"
    using bridge_effectsD(8) [OF assms] by (simp add: d2_def reply_remote_def extends_emit)
  have s: "extends P (dl_session d) s"
    using extends_write [OF bridge_effectsD(1) [OF assms] d2, of filtered] w by simp
  show ?thesis using RemoteData fb w d2 s bridge_effectsD(4) [OF assms]
    by (cases w) (auto simp: remote_turn_def Let_def d2_def reader_ends_def count_it_def extends_emit)
qed (use bridge_effectsD(7) [OF assms] in \<open>simp_all add: remote_turn_def reader_ends_def log_it_def extends_emit\<close>)

lemma extends_pass: "extends P (pass_time dt s) t \<Longrightarrow> extends P s t"
  by (simp add: extends_def pass_time_def)

lemma extends_turn:
  assumes "bridge_effects P"
    and "3 \<le> dl_escapes d \<and> dl_guard d < time_sub (s_now (dl_session (take_turn d t))) (dl_last_escape d)
      \<Longrightarrow> P (Reports ResultOK)"
  shows "extends P (dl_session d) (dl_session (take_turn d t))"
proof (cases t)
  case (ClientTurn dt ok first)
  let ?d = "on_session (pass_time dt) d"
  have "extends P (dl_session ?d) (dl_session (client_turn ok first ?d))"
  proof (cases "dl_control d")
    case Looping
    then show ?thesis
      using assms extends_poll_client [OF assms(1), of ?d ok] ClientTurn
      by (auto simp: client_turn_def extends_leave extends_drop)
  next
    case (Handling rest out)
    show ?thesis
    proof (cases rest)
      case Nil
      then show ?thesis using Handling assms(1)
        by (simp add: client_turn_def flush_out_def extends_drop bridge_write_def count_it_def extends_emit
            bridge_effectsD(4,6) [OF assms(1)])
    next
      case (Cons b rest')
      obtain n le li data where e: "escape_byte (dl_escape_char ?d) (dl_guard ?d) (dl_last_bulk ?d)
          (s_now (dl_session ?d)) b (dl_escapes ?d, dl_last_escape ?d, s_last_input (dl_session ?d)) = ((n, le, li), data)"
        by (metis prod.exhaust)
      obtain d1 out1 where a: "append_all data (?d, out) = (d1, out1)" by fastforce
      have "extends P (dl_session ?d) (dl_session d1)"
        using extends_logs_only [OF assms(1)] append_all_logs [OF a] by blast
      then have "extends P (dl_session ?d) (dl_session (handle_byte b rest' out ?d))"
        using e a by (simp add: handle_byte_def Let_def extends_def)
      then show ?thesis using Handling Cons by (simp add: client_turn_def)
    qed
  qed (simp_all add: client_turn_def)
  then show ?thesis using ClientTurn extends_pass by simp
next
  case (RemoteTurn dt ok r)
  show ?thesis
    using extends_remote_turn [OF assms(1), of "on_session (pass_time dt) d" ok r]
    unfolding RemoteTurn take_turn.simps on_session_fields by (rule extends_pass)
next
  case StopTurn
  have "extends P (dl_session d) (emit ClosedClient ((dl_session d)\<lparr>s_done := True\<rparr>))"
    by (rule extends_emit [of P ClosedClient, OF bridge_effectsD(2) [OF assms(1)]]) (simp add: extends_def)
  then show ?thesis using StopTurn extends_hangup [OF assms(1)] by (simp add: session_close_def)
qed

subsection \<open>How a turn of the session's goroutine can end\<close>

text \<open>\<open>d'\<close> differs from \<open>d\<close> in what the bridge works with, not in the call itself.\<close>

definition calm :: "data_loop \<Rightarrow> data_loop \<Rightarrow> bool" where
  "calm d d' \<longleftrightarrow> dl_peer d' = dl_peer d \<and> dl_reader d' = dl_reader d \<and> dl_remote_gone d' = dl_remote_gone d
     \<and> s_modem (dl_session d') = s_modem (dl_session d) \<and> s_remote (dl_session d') = s_remote (dl_session d)
     \<and> s_done (dl_session d') = s_done (dl_session d) \<and> s_buffered (dl_session d') = s_buffered (dl_session d)
     \<and> s_config (dl_session d') = s_config (dl_session d)"

abbreviation report_escape :: "session \<Rightarrow> session" where
  "report_escape s \<equiv> snd (send_result ResultOK (set_modem_state StateCommand s))"

definition turn_result :: "data_loop \<Rightarrow> data_loop \<Rightarrow> bool" where
  "turn_result d d' \<longleftrightarrow>
     calm d d' \<and> \<not> ended d'
     \<or> s_done (dl_session d) \<and> d' = leave d
     \<or> (\<exists>d1. calm d d1 \<and> d' \<in> {drop_carrier d1, leave (on_session hangup d1), leave (on_session report_escape d1)})"

lemma calm_refl [simp]: "calm d d"
  by (simp add: calm_def)

lemma calm_trans: "calm d d1 \<Longrightarrow> calm d1 d2 \<Longrightarrow> calm d d2"
  by (simp add: calm_def)

lemma calm_logs: "logs_only d d' \<Longrightarrow> calm d d'"
  by (auto simp: calm_def logs_only_def)

lemma turn_result_calm: "calm d d1 \<Longrightarrow> s_done (dl_session d1) = s_done (dl_session d) \<Longrightarrow>
    turn_result d1 d' \<Longrightarrow> \<not> s_done (dl_session d) \<Longrightarrow> turn_result d d'"
  unfolding turn_result_def using calm_trans by blast

lemma escape_timeout_result:
  assumes "\<not> ended d"
  shows "calm d (escape_timeout ok d) \<and> \<not> ended (escape_timeout ok d)
    \<or> (\<exists>d1. calm d d1 \<and> escape_timeout ok d \<in> {drop_carrier d1, leave (on_session report_escape d1)})"
proof -
  obtain d1 out where a: "append_all (replicate (dl_escapes d) (dl_escape_char d)) (d, []) = (d1, out)"
    by fastforce
  note l = append_all_logs [OF a, THEN conjunct1]
  have c: "calm d (d1\<lparr>dl_escapes := 0\<rparr>)" using calm_logs [OF l] by (simp add: calm_def)
  have "calm d (bridge_write out (d1\<lparr>dl_escapes := 0\<rparr>))" "\<not> ended (bridge_write out (d1\<lparr>dl_escapes := 0\<rparr>))"
    using c assms logs_only_fields(10) [OF l] by (simp_all add: bridge_write_def calm_def emit_def ended_def)
  moreover have "\<exists>x. calm d x \<and> (drop_carrier (d1\<lparr>dl_escapes := 0\<rparr>) = drop_carrier x)"
    using c by blast
  moreover have "\<exists>x. calm d x \<and> (leave (on_session report_escape d) = leave (on_session report_escape x))"
    using calm_refl by blast
  ultimately show ?thesis using assms a
    by (cases "dl_escapes d > 0 \<and> dl_guard d < time_sub (s_now (dl_session d)) (dl_last_escape d)";
        cases "dl_escapes d \<ge> 3"; cases ok)
      (simp_all only: escape_timeout_def if_True if_False case_prod_conv Let_def insert_iff empty_iff
        simp_thms calm_refl, blast+)
qed

lemma client_turn_result:
  assumes "\<not> ended d"
  shows "turn_result d (client_turn ok first d)"
proof (cases "dl_control d")
  case Looping
  obtain res s where r: "conn_read 256 (set_read_deadline (100 * millisecond) (dl_session d)) = (res, s)"
    by fastforce
  let ?d = "d\<lparr>dl_session := s\<rparr>"
  have c: "calm d ?d"
    using conn_read_fields(6-10) [OF r] by (simp add: calm_def set_read_deadline_def)
  have "turn_result d (poll_client ok d)"
  proof (cases res)
    case (Inl err)
    have "leave (d\<lparr>dl_session := hangup s\<rparr>) = leave (on_session hangup ?d)" by (simp add: on_session_def)
    then have "turn_result d (leave (d\<lparr>dl_session := hangup s\<rparr>))"
      unfolding turn_result_def using c by (metis insertI1 insertI2)
    moreover have "turn_result d (escape_timeout ok ?d)"
      using escape_timeout_result [of ?d ok] calm_trans [OF c] assms
      unfolding turn_result_def by (auto simp: ended_def)
    ultimately show ?thesis using r Inl by (cases err) (simp_all add: poll_client_def)
  next
    case (Inr chunk)
    have "calm d (take_chunk chunk ?d) \<and> \<not> ended (take_chunk chunk ?d)"
      using c by (auto simp: take_chunk_def Let_def calm_def ended_def write_client_def emit_def
          split: prod.split list.split)
    then show ?thesis using r Inr by (simp add: poll_client_def turn_result_def)
  qed
  moreover have "turn_result d (leave d)" if "s_done (dl_session d)" using that by (simp add: turn_result_def)
  moreover have "turn_result d (drop_carrier d)" unfolding turn_result_def using calm_refl by blast
  ultimately show ?thesis using Looping by (simp add: client_turn_def)
next
  case (Handling rest out)
  show ?thesis
  proof (cases rest)
    case Nil
    have "calm d (d\<lparr>dl_control := Looping\<rparr>)"
      "calm d ((on_session (count_it c) (bridge_write out d))\<lparr>dl_control := Looping\<rparr>)" for c
      by (simp_all add: calm_def bridge_write_def count_it_def emit_def)
    moreover have "turn_result d (drop_carrier d)" unfolding turn_result_def using calm_refl by blast
    ultimately have "turn_result d (flush_out ok out d)"
      by (simp add: flush_out_def turn_result_def ended_def)
    then show ?thesis using Handling Nil by (simp add: client_turn_def)
  next
    case (Cons b rest')
    obtain n le li data where e: "escape_byte (dl_escape_char d) (dl_guard d) (dl_last_bulk d)
        (s_now (dl_session d)) b (dl_escapes d, dl_last_escape d, s_last_input (dl_session d)) = ((n, le, li), data)"
      by (metis prod.exhaust)
    obtain d1 out1 where a: "append_all data (d, out) = (d1, out1)" by fastforce
    have "calm d (handle_byte b rest' out d) \<and> \<not> ended (handle_byte b rest' out d)"
      using calm_logs [OF append_all_logs [OF a, THEN conjunct1]] e a
      by (simp add: handle_byte_def Let_def calm_def ended_def)
    then show ?thesis using Handling Cons by (simp add: client_turn_def turn_result_def)
  qed
qed (use assms in \<open>simp_all add: ended_def\<close>)

lemma client_turn_ended: "ended d \<Longrightarrow> client_turn ok first d = d"
  by (auto simp: ended_def client_turn_def)

subsection \<open>The line is closed on return\<close>

definition line_inv :: "data_loop \<Rightarrow> bool" where
  "line_inv d \<longleftrightarrow>
     (ended d \<longrightarrow> Network (CloseConn (dl_peer d)) \<in> set (s_trace (dl_session d)))
     \<and> (dl_control d = Closing \<longrightarrow> dl_reader d) \<and> (dl_control d = Returned \<longrightarrow> \<not> dl_reader d)
     \<and> dl_remote_gone d = (\<not> dl_reader d)"

lemma line_inv_leave [intro]: "dl_remote_gone d = (\<not> dl_reader d) \<Longrightarrow> line_inv (leave d)"
  by (simp add: line_inv_def leave_def emit_def)

lemma line_inv_drop [intro]: "dl_remote_gone d = (\<not> dl_reader d) \<Longrightarrow> line_inv (drop_carrier d)"
  unfolding drop_carrier_def by (rule line_inv_leave) simp

lemma line_inv_running: "dl_remote_gone d = (\<not> dl_reader d) \<Longrightarrow> \<not> ended d \<Longrightarrow> line_inv d"
  by (auto simp: line_inv_def ended_def)

lemma line_inv_client_turn:
  assumes "line_inv d"
  shows "line_inv (client_turn ok first d)"
proof (cases "ended d")
  case False
  have g: "dl_remote_gone d = (\<not> dl_reader d)" using assms by (simp add: line_inv_def)
  have "line_inv (leave (on_session f d1))" "line_inv (drop_carrier d1)" if "calm d d1" for f d1
    using that g by (auto simp: calm_def intro!: line_inv_leave line_inv_drop)
  then show ?thesis
    using client_turn_result [OF False, of ok first] g unfolding turn_result_def
    by (auto simp: calm_def intro: line_inv_running)
qed (use assms in \<open>simp add: client_turn_ended\<close>)

lemma remote_turn_frame:
  "dl_peer (remote_turn ok r d) = dl_peer d"
  "dl_reader d \<Longrightarrow> dl_remote_gone d = (\<not> dl_reader d) \<Longrightarrow>
     dl_remote_gone (remote_turn ok r d) = (\<not> dl_reader (remote_turn ok r d))
     \<and> dl_control (remote_turn ok r d) =
         (if dl_reader (remote_turn ok r d) \<or> dl_control d \<noteq> Closing then dl_control d else Returned)"
  by (auto simp: remote_turn_def reply_remote_def reader_ends_def Let_def
      split: remote_read.split prod.split bool.split)

lemma line_inv_remote_turn:
  assumes "line_inv d"
  shows "line_inv (remote_turn ok r d)"
proof (cases "dl_reader d")
  case True
  have g: "dl_remote_gone d = (\<not> dl_reader d)" using assms by (simp add: line_inv_def)
  obtain es where "s_trace (dl_session (remote_turn ok r d)) = s_trace (dl_session d) @ es"
    using extends_remote_turn [of "\<lambda>_. True" d ok r] by (auto simp: bridge_effects_def extends_def)
  then show ?thesis
    using assms remote_turn_frame(1) remote_turn_frame(2) [OF True g, of ok r] True
    by (auto simp: line_inv_def ended_def split: if_splits)
qed (use assms in \<open>simp add: remote_turn_def\<close>)

lemma line_inv_session:
  assumes "line_inv d" and "\<And>s. extends (\<lambda>_. True) s (f s)"
  shows "line_inv (on_session f d)"
  using assms(1) assms(2) [of "dl_session d"] by (auto simp: line_inv_def extends_def ended_def)

lemma line_inv_turn: "line_inv d \<Longrightarrow> line_inv (take_turn d t)"
proof (cases t)
  case StopTurn
  assume "line_inv d"
  moreover have "extends (\<lambda>_. True) s (session_close s)" for s
    unfolding session_close_def
    by (rule extends_hangup [OF _ extends_emit]) (simp_all add: bridge_effects_def extends_def)
  ultimately show ?thesis using StopTurn line_inv_session by simp
qed (auto simp: extends_def pass_time_def intro!: line_inv_client_turn line_inv_remote_turn line_inv_session)

interpretation line_runs: invariant_system take_turn take_turns line_inv
  by unfold_locales (rule line_inv_turn)

lemmas line_inv_turns = line_runs.inv_run

lemma line_inv_start: "line_inv (start_data_loop peer s)"
  by (simp add: line_inv_def start_data_loop_def ended_def)

lemma step_is_turn: "bridge_step d t d' \<Longrightarrow> d' = take_turn d t"
  by (cases t) (auto elim: bridge_cases)

lemma reaches_turns: "reaches d ts d' \<Longrightarrow> d' = take_turns d ts"
  by (induction rule: reaches.induct) (auto dest: step_is_turn)

subsection \<open>A board that hangs up ends the call\<close>

fun turns_left :: "control \<Rightarrow> nat" where
  "turns_left (Handling rest out) = length rest + 2"
| "turns_left Looping = 1"
| "turns_left _ = 0"

fun is_client :: "turn \<Rightarrow> bool" where
  "is_client (ClientTurn dt ok first) = True"
| "is_client _ = False"

lemma gone_progress:
  assumes "dl_remote_gone d" and "\<not> dl_reader d" and "is_client t"
  shows "dl_remote_gone (take_turn d t)" and "\<not> dl_reader (take_turn d t)"
    and "turns_left (dl_control (take_turn d t)) \<le> turns_left (dl_control d) - 1"
proof -
  obtain dt ok first where t: "t = ClientTurn dt ok first" using assms(3) by (cases t) auto
  have "dl_remote_gone (take_turn d t) \<and> \<not> dl_reader (take_turn d t)
      \<and> turns_left (dl_control (take_turn d t)) \<le> turns_left (dl_control d) - 1"
  proof (cases "dl_control d")
    case Looping
    then show ?thesis using assms
      by (auto simp: t client_turn_def drop_carrier_def leave_def)
  next
    case (Handling rest out)
    show ?thesis
    proof (cases rest)
      case Nil
      then show ?thesis using Handling assms
        by (auto simp: t client_turn_def flush_out_def drop_carrier_def leave_def bridge_write_def)
    next
      case (Cons b rest')
      let ?d = "on_session (pass_time dt) d"
      obtain n le li data where e: "escape_byte (dl_escape_char ?d) (dl_guard ?d) (dl_last_bulk ?d)
          (s_now (dl_session ?d)) b (dl_escapes ?d, dl_last_escape ?d, s_last_input (dl_session ?d)) = ((n, le, li), data)"
        by (metis prod.exhaust)
      obtain d1 out1 where a: "append_all data (?d, out) = (d1, out1)" by fastforce
      note l = logs_only_fields [OF append_all_logs [OF a, THEN conjunct1]]
      show ?thesis using e a l assms Handling Cons
        by (simp add: t client_turn_def handle_byte_def Let_def)
    qed
  qed (use assms in \<open>auto simp: t client_turn_def\<close>)
  then show "dl_remote_gone (take_turn d t)" "\<not> dl_reader (take_turn d t)"
    "turns_left (dl_control (take_turn d t)) \<le> turns_left (dl_control d) - 1" by auto
qed

lemma gone_ends:
  "dl_remote_gone d \<Longrightarrow> \<not> dl_reader d \<Longrightarrow> list_all is_client ts \<Longrightarrow> turns_left (dl_control d) \<le> length ts \<Longrightarrow>
     turns_left (dl_control (take_turns d ts)) = 0 \<and> \<not> dl_reader (take_turns d ts)"
proof (induction ts arbitrary: d)
  case (Cons t ts)
  note p = gone_progress [OF Cons.prems(1,2), of t]
  have "turns_left (dl_control (take_turns (take_turn d t) ts)) = 0 \<and> \<not> dl_reader (take_turns (take_turn d t) ts)"
    by (rule Cons.IH) (use p Cons.prems in auto)
  then show ?case by (simp add: take_turns_def)
qed simp

subsection \<open>Example runs\<close>

definition online_session :: "arrival list \<Rightarrow> session" where
  "online_session as =
     example_session\<lparr>s_arrivals := as, s_modem := set_state StateData (new_modem ''1.0.0''),
       s_remote := Some [192, 0, 2, 7], s_dial_telnet := ''yes''\<rparr>"

abbreviation quick :: turn where "quick \<equiv> ClientTurn 0 True False"
abbreviation after :: "duration \<Rightarrow> turn" where "after dt \<equiv> ClientTurn dt True False"

lemma escape_run_example:
  "Reports ResultOK \<in> set (drop (length (s_trace (dl_session
     (take_turns (start_data_loop [192, 0, 2, 7] (online_session [Arrive (10 * second) (bytes_of ''+++'')]))
       [after (10 * second), quick, quick, quick, quick]))))
     (s_trace (dl_session (take_turn (take_turns (start_data_loop [192, 0, 2, 7]
       (online_session [Arrive (10 * second) (bytes_of ''+++'')])) [after (10 * second), quick, quick, quick, quick])
         (after second)))))"
  by code_simp

lemma gap_example:
  "sent (dl_session (take_turns (start_data_loop [192, 0, 2, 7]
     (online_session [Arrive (10 * second) (bytes_of ''+''), Arrive (11 * second) (bytes_of ''+A'')]))
     [after (10 * second), quick, quick, after second, quick, quick, quick])) = bytes_of ''+A''"
  by code_simp

subsection \<open>Properties\<close>

text \<open>C6: Data mode never invents, repeats or reorders a byte of the caller's, under any interleaving with
  the board and any sequence of waits and failures: what has been written to the board spells bytes
  which, continued suitably, are the caller's own data with nothing missing but escape characters.\<close>

theorem upload_intact:
  "\<exists>out data r. sent (dl_session (take_turns (start_data_loop peer s) ts)) = sent s @ out
     \<and> carries (s_dial_telnet s) data out
     \<and> subseq (data @ r) (incoming s)
     \<and> filter (\<lambda>b. b \<noteq> get_escape_char (sregs (s_modem s))) (data @ r)
       = filter (\<lambda>b. b \<noteq> get_escape_char (sregs (s_modem s))) (incoming s)"
proof -
  let ?d = "take_turns (start_data_loop peer s) ts" and ?esc = "get_escape_char (sregs (s_modem s))"
  obtain data1 data2 out where d: "sent (dl_session ?d) = sent s @ out" "carries (s_dial_telnet s) data1 out"
    "if ended ?d then \<exists>r. thinned ?esc (data1 @ r) (incoming s)
     else thinned ?esc (data1 @ data2 @ in_flight ?d) (incoming s)"
    using conserves_turns [OF conserves_start, of s peer ts] by (auto simp: conserves_def)
  then have "\<exists>r. thinned ?esc (data1 @ r) (incoming s)" by (auto split: if_splits)
  then show ?thesis using d unfolding thinned_def by blast
qed





text \<open>C19: Returning from data mode closes the connection to the board and leaves no reader behind, whatever
  ended it: the escape sequence, the board, the caller, a failed write or the server's shutdown.\<close>

theorem line_closed_on_return:
  assumes "reaches (start_data_loop peer s) ts d" and "dl_control d = Returned"
  shows "Network (CloseConn (dl_peer d)) \<in> set (s_trace (dl_session d)) \<and> \<not> dl_reader d"
  using line_inv_turns [OF line_inv_start, of peer s ts] reaches_turns [OF assms(1)] assms(2)
  by (simp add: line_inv_def ended_def)

theorem line_closed_on_return_witness:
  "let d = take_turns (start_data_loop [192, 0, 2, 7] (online_session [])) [RemoteTurn 0 True RemoteEOF, quick]
   in Network (CloseConn (dl_peer d)) \<in> set (s_trace (dl_session d)) \<and> \<not> dl_reader d"
proof -
  let ?d0 = "start_data_loop [192, 0, 2, 7] (online_session [])"
  let ?d1 = "take_turn ?d0 (RemoteTurn 0 True RemoteEOF)"
  have "bridge_step ?d0 (RemoteTurn 0 True RemoteEOF) ?d1"
    unfolding take_turn.simps by (rule bridge_step.remote) (simp add: start_data_loop_def)
  moreover have "bridge_step ?d1 quick (take_turn ?d1 quick)"
    unfolding take_turn.simps
    by (rule bridge_step.client) (simp add: start_data_loop_def remote_turn_def reader_ends_def)
  ultimately have r: "reaches ?d0 (([] @ [RemoteTurn 0 True RemoteEOF]) @ [quick]) (take_turn ?d1 quick)"
    by (intro reaches.step [OF reaches.step [OF reaches.here]])
  have "dl_control (take_turn (take_turn ?d0 (RemoteTurn 0 True RemoteEOF)) quick) = Returned"
    by (simp add: client_turn_def remote_turn_def reader_ends_def start_data_loop_def drop_carrier_def leave_def
        online_session_def example_session_def pass_time_def)
  from line_closed_on_return [OF r this] show ?thesis by (simp add: take_turns_def Let_def)
qed

text \<open>C20: A call does not outlive its board: once the reader has ended, the session's goroutine is back in
  command mode within as many of its turns as there are bytes of the chunk in hand, and two more.\<close>

theorem gone_call_ends:
  assumes "dl_remote_gone (take_turns (start_data_loop peer s) ts)"
    and "list_all is_client us"
    and "length (held (dl_control (take_turns (start_data_loop peer s) ts))) + 2 \<le> length us"
  shows "dl_control (take_turns (start_data_loop peer s) (ts @ us)) = Returned"
proof -
  let ?d = "take_turns (start_data_loop peer s) ts"
  have i: "line_inv (take_turns (start_data_loop peer s) (ts @ us))" by (rule line_inv_turns [OF line_inv_start])
  have "\<not> dl_reader ?d" using line_inv_turns [OF line_inv_start, of peer s ts] assms(1) by (simp add: line_inv_def)
  moreover have "turns_left (dl_control ?d) \<le> length us" using assms(3) by (cases "dl_control ?d") auto
  ultimately have "turns_left (dl_control (take_turns ?d us)) = 0 \<and> \<not> dl_reader (take_turns ?d us)"
    using gone_ends assms(1,2) by blast
  then show ?thesis
    using i by (cases "dl_control (take_turns ?d us)") (auto simp: line_inv_def take_turns_def)
qed

theorem gone_call_ends_witness:
  "dl_control (take_turns (start_data_loop [192, 0, 2, 7] (online_session []))
     ([RemoteTurn 0 True RemoteEOF] @ [quick, quick])) = Returned"
  by (rule gone_call_ends) (simp_all add: take_turns_def start_data_loop_def remote_turn_def reader_ends_def)

text \<open>A typed character can be lost: when a second escape character comes exactly the guard time or
  later after the first, before a read has timed out in between, counting starts again and the first
  is neither an escape nor sent. Here the caller sends \<open>++A\<close> and the board gets \<open>+A\<close>.\<close>

theorem late_escape_loses_byte:
  "incoming (online_session [Arrive (10 * second) (bytes_of ''+''), Arrive (11 * second) (bytes_of ''+A'')]) = bytes_of ''++A''
   \<and> sent (dl_session (take_turns (start_data_loop [192, 0, 2, 7]
        (online_session [Arrive (10 * second) (bytes_of ''+''), Arrive (11 * second) (bytes_of ''+A'')]))
        [after (10 * second), quick, quick, after second, quick, quick, quick])) = bytes_of ''+A''"
  using gap_example by (intro conjI) (code_simp, assumption)

end
