(* ===== verification/SessionFacts.thy ===== *)
theory SessionFacts
  imports Session DataLoopFacts
begin

section \<open>What a session keeps from connect to disconnect\<close>

subsection \<open>The invariant\<close>

text \<open>
  At the prompt: every setting of the modem is in range, data mode means there is a connection, and a
  connection still held in command mode has been closed. In a call: the same of what it started from.
  Gone: nothing is left open.
\<close>

definition closed_line :: "ip \<Rightarrow> session \<Rightarrow> bool" where
  "closed_line peer s \<longleftrightarrow> Network (CloseConn peer) \<in> set (s_trace s)"

definition session_inv :: "session \<Rightarrow> bool" where
  "session_inv s \<longleftrightarrow> modem_inv (s_modem s)
     \<and> (state (s_modem s) = StateData \<longrightarrow> s_remote s \<noteq> None)
     \<and> (state (s_modem s) = StateCommand \<longrightarrow> (\<forall>peer. s_remote s = Some peer \<longrightarrow> closed_line peer s))
     \<and> (s_done s \<longrightarrow> state (s_modem s) = StateCommand)"

definition call_inv :: "data_loop \<Rightarrow> bool" where
  "call_inv d \<longleftrightarrow> line_inv d \<and> modem_inv (s_modem (dl_session d))
     \<and> (s_done (dl_session d) \<or> ended d \<longrightarrow> state (s_modem (dl_session d)) = StateCommand)
     \<and> s_remote (dl_session d) \<in> {None, Some (dl_peer d)}"

fun phase_inv :: "phase \<Rightarrow> bool" where
  "phase_inv (AtPrompt s) = session_inv s"
| "phase_inv (InCall d) = (call_inv d \<and> dl_control d \<noteq> Returned)"
| "phase_inv (Gone s) =
     (modem_inv (s_modem s) \<and> s_remote s = None \<and> state (s_modem s) = StateCommand
      \<and> ClosedClient \<in> set (s_trace s))"

subsection \<open>Fields the operations leave alone\<close>

lemma write_client_fields [simp]:
  "s_modem (snd (write_client data s)) = s_modem s" "s_remote (snd (write_client data s)) = s_remote s"
  "s_done (snd (write_client data s)) = s_done s"
  by (simp_all add: write_client_def emit_def split: list.split)

lemma emit_more [simp]: "s_remote (emit e s) = s_remote s" "s_trace (emit e s) = s_trace s @ [e]"
  by (simp_all add: emit_def)

lemma send_result_fields [simp]:
  "s_modem (snd (send_result code s)) = s_modem s" "s_remote (snd (send_result code s)) = s_remote s"
  "s_done (snd (send_result code s)) = s_done s"
  by (simp_all add: send_result_def)

lemma set_modem_state_fields [simp]:
  "s_modem (set_modem_state st s) = set_state st (s_modem s)" "s_remote (set_modem_state st s) = s_remote s"
  "s_done (set_modem_state st s) = s_done s" "s_trace (set_modem_state st s) = s_trace s"
  by (simp_all add: set_modem_state_def)

lemma state_set_state [simp]: "state (set_state st m) = st"
  by (simp add: set_state_def)

lemma hangup_fields [simp]:
  "s_modem (hangup s) = set_state StateCommand (s_modem s)" "s_remote (hangup s) = None"
  "s_done (hangup s) = s_done s"
  by (simp_all add: hangup_def split: option.split)

lemma session_close_fields [simp]:
  "s_modem (session_close s) = set_state StateCommand (s_modem s)" "s_remote (session_close s) = None"
  "s_done (session_close s)"
  by (simp_all add: session_close_def)

lemma pass_time_fields [simp]:
  "s_modem (pass_time dt s) = s_modem s" "s_remote (pass_time dt s) = s_remote s"
  "s_done (pass_time dt s) = s_done s" "s_trace (pass_time dt s) = s_trace s"
  by (simp_all add: pass_time_def)

lemma leave_session [simp]: "dl_session (leave d) = emit (Network (CloseConn (dl_peer d))) (dl_session d)"
  by (simp add: leave_def)

lemma leave_peer [simp]: "dl_peer (leave d) = dl_peer d"
  by (simp add: leave_def)

lemma drop_carrier_session [simp]:
  "s_modem (dl_session (drop_carrier d)) = set_state StateCommand (s_modem (dl_session d))"
  "s_remote (dl_session (drop_carrier d)) = None" "s_done (dl_session (drop_carrier d)) = s_done (dl_session d)"
  "dl_peer (drop_carrier d) = dl_peer d" "ended (drop_carrier d)"
  by (simp_all add: drop_carrier_def)

subsection \<open>Calls\<close>

lemma call_inv_client_turn:
  assumes "call_inv d"
  shows "call_inv (client_turn ok first d)"
proof (cases "ended d")
  case False
  let ?d = "client_turn ok first d"
  have l: "line_inv ?d" using assms line_inv_client_turn by (simp add: call_inv_def)
  have calm: "modem_inv (s_modem (dl_session d1))" "s_remote (dl_session d1) \<in> {None, Some (dl_peer d1)}"
    "s_done (dl_session d1) \<Longrightarrow> state (s_modem (dl_session d1)) = StateCommand" if "calm d d1" for d1
    using assms that by (simp_all add: call_inv_def calm_def)
  from client_turn_result [OF False, of ok first]
  consider (run) "calm d ?d" "\<not> ended ?d" | (stop) "s_done (dl_session d)" "?d = leave d"
    | (drop) d1 where "calm d d1" "?d = drop_carrier d1"
    | (hang) d1 where "calm d d1" "?d = leave (on_session hangup d1)"
    | (escape) d1 where "calm d d1" "?d = leave (on_session report_escape d1)"
    unfolding turn_result_def by blast
  then show ?thesis
  proof cases
    case run
    then show ?thesis using l calm [OF run(1)] by (simp add: call_inv_def)
  next
    case stop
    then show ?thesis using l assms by (simp add: call_inv_def)
  next
    case drop
    then show ?thesis using l calm [OF drop(1)] by (simp add: call_inv_def)
  next
    case hang
    then show ?thesis using l calm [OF hang(1)] by (simp add: call_inv_def)
  next
    case escape
    then show ?thesis using l calm [OF escape(1)] by (simp add: call_inv_def)
  qed
qed (use assms in \<open>simp add: client_turn_ended\<close>)

lemma remote_turn_session:
  "s_modem (dl_session (remote_turn ok r d)) = s_modem (dl_session d)"
  "s_remote (dl_session (remote_turn ok r d)) = s_remote (dl_session d)"
  "s_done (dl_session (remote_turn ok r d)) = s_done (dl_session d)"
proof -
  have w: "s_modem s' = s_modem s \<and> s_remote s' = s_remote s \<and> s_done s' = s_done s"
    if "write_client data s = (w, s')" for data s w s'
    using that write_client_fields [of data s] by simp
  show "s_modem (dl_session (remote_turn ok r d)) = s_modem (dl_session d)"
    "s_remote (dl_session (remote_turn ok r d)) = s_remote (dl_session d)"
    "s_done (dl_session (remote_turn ok r d)) = s_done (dl_session d)"
    by (auto simp: remote_turn_def reply_remote_def reader_ends_def log_it_def count_it_def Let_def
        split: remote_read.split prod.split bool.split dest: w)
qed

lemma remote_turn_ended: "line_inv d \<Longrightarrow> ended (remote_turn ok r d) = ended d"
  using remote_turn_frame(2) [of d ok r]
  by (cases "dl_reader d") (auto simp: line_inv_def ended_def remote_turn_def split: if_splits)

lemma call_inv_remote_turn:
  assumes "call_inv d"
  shows "call_inv (remote_turn ok r d)"
  using assms line_inv_remote_turn [of d ok r] remote_turn_ended [of d ok r]
  by (auto simp: call_inv_def remote_turn_session remote_turn_frame(1))

lemma call_inv_pass: "call_inv d \<Longrightarrow> call_inv (on_session (pass_time dt) d)"
  by (auto simp: call_inv_def ended_def extends_def intro!: line_inv_session)

lemma call_inv_turn: "call_inv d \<Longrightarrow> call_inv (take_turn d t)"
proof (cases t)
  case StopTurn
  assume "call_inv d"
  then show ?thesis using line_inv_turn [of d StopTurn] StopTurn by (auto simp: call_inv_def)
qed (simp_all add: call_inv_client_turn call_inv_remote_turn call_inv_pass)

lemma call_inv_start:
  assumes "modem_inv (s_modem s)" and "\<not> s_done s" and "s_remote s = Some peer"
  shows "call_inv (start_data_loop peer s)"
  using assms line_inv_start [of peer s] by (simp add: call_inv_def start_data_loop_def ended_def)

lemma session_inv_returned:
  assumes "call_inv d" and "dl_control d = Returned"
  shows "session_inv (dl_session d)"
proof -
  have e: "ended d" using assms(2) by (simp add: ended_def)
  then have "state (s_modem (dl_session d)) = StateCommand" "closed_line (dl_peer d) (dl_session d)"
    "modem_inv (s_modem (dl_session d))" "s_remote (dl_session d) \<in> {None, Some (dl_peer d)}"
    using assms(1) by (simp_all add: call_inv_def line_inv_def closed_line_def)
  then show ?thesis by (auto simp: session_inv_def)
qed

lemma phase_inv_call_step: "call_inv d \<Longrightarrow> phase_inv (call_step t d)"
  using call_inv_turn [of d t] session_inv_returned [of "take_turn d t"] by (simp add: call_step_def Let_def)

subsection \<open>Command lines\<close>

lemma session_inv_extends:
  assumes "session_inv s" and "s_modem t = s_modem s" "s_remote t = s_remote s" "s_done t = s_done s"
    and "extends P s t"
  shows "session_inv t"
  using assms by (auto simp: session_inv_def closed_line_def extends_def)

lemma session_inv_grows: "session_inv s \<Longrightarrow> grows P s t \<Longrightarrow> session_inv t"
  by (rule session_inv_extends) (auto simp: grows_def same_core_def)

text \<open>What a command runs in: the invariant, the prompt, and a session not closed from outside.\<close>

definition prompt_inv :: "session \<Rightarrow> bool" where
  "prompt_inv s \<longleftrightarrow> session_inv s \<and> state (s_modem s) = StateCommand \<and> \<not> s_done s"

lemma prompt_inv_grows: "prompt_inv s \<Longrightarrow> grows P s t \<Longrightarrow> prompt_inv t"
  using session_inv_grows [of s P t] by (auto simp: prompt_inv_def grows_def same_core_def)

lemma grows_flush: "lax P \<Longrightarrow> grows P s (snd (flush_info info s))"
  by (simp add: flush_info_def grow_intros)

lemma prompt_inv_flush: "prompt_inv s \<Longrightarrow> flush_info info s = (ok, t) \<Longrightarrow> prompt_inv t"
  using prompt_inv_grows [OF _ grows_flush [OF any_lax, of s info]] by simp

lemma prompt_inv_write: "prompt_inv s \<Longrightarrow> write_client data s = (ok, t) \<Longrightarrow> prompt_inv t"
  using prompt_inv_grows [OF _ grows_write [OF any_lax grows_refl, of s data]] by simp

lemma prompt_inv_result: "prompt_inv s \<Longrightarrow> prompt_inv (snd (send_result code s))"
  using prompt_inv_grows [OF _ grows_result [OF any_lax _ grows_refl]] by simp

lemma prompt_inv_execute:
  assumes "prompt_inv s" and "wf_command cmd" and "execute_on cmd s = (response, t)"
  shows "prompt_inv t"
proof -
  have t: "t = s\<lparr>s_modem := fst (execute (s_modem s) cmd)\<rparr>"
    using assms(3) by (auto simp: execute_on_def split: prod.splits)
  have "modem_inv (fst (execute (s_modem s) cmd))" "state (fst (execute (s_modem s) cmd)) = StateCommand"
    using assms(1,2) modem_inv_execute execute_never_data by (simp_all add: prompt_inv_def session_inv_def)
  then show ?thesis using assms(1) by (simp add: t prompt_inv_def session_inv_def closed_line_def)
qed

lemma handle_dial_extends: "extends (\<lambda>_. True) s (handle_dial env number s)"
proof -
  have "extends (\<lambda>_. True) (count_it DialStarted s) (snd (snd (dial_body env number (count_it DialStarted s))))"
    by (rule dial_body_facts [THEN conjunct1]) simp_all
  moreover have "extends (\<lambda>_. True) s (count_it DialStarted s)" by (simp add: count_it_def extends_def)
  ultimately have "extends (\<lambda>_. True) s (snd (snd (dial_body env number (count_it DialStarted s))))"
    by (rule extends_trans [rotated])
  then show ?thesis by (simp add: handle_dial_eq Let_def count_it_def extends_emit)
qed

lemma session_inv_dial:
  assumes "prompt_inv s"
  shows "session_inv (handle_dial env number s)"
proof -
  obtain es where es: "s_trace (handle_dial env number s) = s_trace s @ es"
    using handle_dial_extends [of s env number] by (auto simp: extends_def)
  have l: "line_matches (dial_result env number s) s (handle_dial env number s)" by (rule handle_dial_line)
  show ?thesis
    using assms l es
    by (cases "dial_result env number s = OutcomeSuccess")
      (auto simp: line_matches_def prompt_inv_def session_inv_def closed_line_def)
qed

lemma session_inv_online: "prompt_inv s \<Longrightarrow> session_inv (go_back_online s)"
proof (cases "s_remote s = None")
  case True
  assume "prompt_inv s"
  then show ?thesis using True prompt_inv_result [of s ResultNoCarrier]
    by (simp add: go_back_online_def prompt_inv_def)
next
  case False
  assume "prompt_inv s"
  then show ?thesis using False by (auto simp: go_back_online_def prompt_inv_def session_inv_def)
qed

lemma prompt_session: "prompt_inv s \<Longrightarrow> session_inv s"
  by (simp add: prompt_inv_def)

lemma session_inv_run_commands:
  "prompt_inv s \<Longrightarrow> list_all wf_command cs \<Longrightarrow> session_inv (run_commands env input info cs s)"
proof (induction cs arbitrary: info s)
  case Nil
  then show ?case by (simp add: prompt_session)
next
  case (Cons cmd rest)
  note p = Cons.prems(1)
  obtain ok1 s1 where f: "flush_info info s = (ok1, s1)" by fastforce
  note p1 = prompt_inv_flush [OF p f]
  obtain ok2 s2 where b: "write_client (s_banner s1) s1 = (ok2, s2)" by fastforce
  note p2 = prompt_inv_write [OF p1 b]
  obtain response t where x: "execute_on cmd s = (response, t)" by fastforce
  have pt: "prompt_inv t" using prompt_inv_execute [OF p _ x] Cons.prems(2) by simp
  obtain ok3 s3 where f3: "flush_info info t = (ok3, s3)" by fastforce
  note p3 = prompt_inv_flush [OF pt f3]
  have wf: "list_all wf_command rest" using Cons.prems(2) by simp
  have unknown: "session_inv (snd (send_result ResultError (snd (flush_info info (log_it e s)))))" for e
    by (rule session_inv_grows [OF prompt_session [OF p]],
        rule grows_result [OF any_lax], simp,
        rule grows_trans [OF _ grows_flush [OF any_lax]])
      (intro grow_intros any_lax)
  have clear: "session_inv (run_commands env input [] rest s2)"
    using Cons.IH [OF p2 wf] by simp
  show ?case
  proof (cases "cmd_type cmd")
    case CmdUnknown
    then show ?thesis using unknown by simp
  next
    case CmdDial
    then show ?thesis using f p1 session_inv_dial by (cases ok1) (simp_all add: prompt_session)
  next
    case CmdClear
    then show ?thesis using f b p1 p2 clear prompt_inv_result [OF p2]
      by (cases ok1; cases ok2) (simp_all add: prompt_session)
  next
    case CmdOnline
    then show ?thesis using f p1 session_inv_online by (cases ok1) (simp_all add: prompt_session)
  qed (use Cons.IH [OF pt wf] x f3 p3 pt wf prompt_session prompt_inv_write [OF p3, OF surjective_pairing]
       in \<open>cases ok3; simp\<close>)+
qed

lemma session_inv_process:
  assumes "prompt_inv s"
  shows "session_inv (process_command env input s)"
proof -
  obtain cs where "parse_command_line input = Some cs" "list_all wf_command cs"
    using parse_command_line_shape [of input] by (auto simp: good_commands_def)
  then show ?thesis using assms session_inv_run_commands by (simp add: process_command_def prompt_session)
qed

subsection \<open>Steps\<close>

lemma phase_inv_finish: "modem_inv (s_modem s) \<Longrightarrow> phase_inv (finish_session s)"
  by (simp add: finish_session_def cleanup_session_def)

lemma prompt_inv_only_writes:
  assumes "prompt_inv s" and "only_writes P s t"
  shows "prompt_inv t"
proof -
  have "extends (\<lambda>_. True) s t" using assms(2) by (auto simp: only_writes_def extends_def list_all_iff)
  then show ?thesis
    using assms session_inv_extends [of s t "\<lambda>_. True"]
    by (simp add: prompt_inv_def only_writes_def same_call_def)
qed

lemma phase_inv_prompt_step:
  assumes "session_inv s"
  shows "phase_inv (prompt_step env s)"
proof (cases "s_done s")
  case True
  then show ?thesis using assms by (simp add: prompt_step_def phase_inv_finish session_inv_def)
next
  case nd: False
  let ?s = "set_read_deadline (idle_timeout (s_config s)) s"
  have s: "session_inv ?s" "\<not> s_done ?s" "s_modem ?s = s_modem s" "s_remote ?s = s_remote s"
    using assms nd by (simp_all add: set_read_deadline_def session_inv_def closed_line_def)
  show ?thesis
  proof (cases "state (s_modem s)")
    case StateCommand
    then have p: "prompt_inv ?s" using s by (simp add: prompt_inv_def)
    obtain r t where r: "read_line ?s = (r, t)" by fastforce
    note pt = prompt_inv_only_writes [OF p read_line_only [OF r]]
    have m: "modem_inv (s_modem t)" using pt by (simp add: prompt_inv_def session_inv_def)
    then have "phase_inv (finish_session (log_it e t))" for e
      by (intro phase_inv_finish) (simp add: log_it_def)
    then show ?thesis
      using nd StateCommand s r m phase_inv_finish [OF m] session_inv_process [OF pt]
      by (cases r; cases "projl r") (simp_all add: prompt_step_def Let_def)
  next
    case StateData
    then obtain peer where peer: "s_remote s = Some peer" using assms by (auto simp: session_inv_def)
    have "call_inv (start_data_loop peer ?s)"
      using call_inv_start [of ?s peer] s peer by (simp add: session_inv_def)
    then show ?thesis
      using nd StateData s peer
      by (simp add: prompt_step_def Let_def enter_data_loop_def) (simp add: start_data_loop_def)
  qed
qed

lemma session_inv_close: "session_inv s \<Longrightarrow> session_inv (session_close s)"
  by (simp add: session_inv_def)

lemma phase_inv_step: "phase_inv p \<Longrightarrow> phase_inv (session_step p l)"
  by (cases "(p, l)" rule: session_step.cases)
    (auto simp: phase_inv_prompt_step phase_inv_call_step session_inv_close)

interpretation session_runs: invariant_system session_step session_run phase_inv
  by unfold_locales (simp_all add: session_run_def phase_inv_step)

lemmas phase_inv_run = session_runs.inv_run

lemma drain_loop_only: "only_writes (\<lambda>_. True) s (drain_loop s)"
proof (induction s rule: drain_loop.induct)
  case (1 s)
  obtain res s1 where r: "conn_read 512 s = (res, s1)" by fastforce
  note o1 = conn_read_only [OF r, of "\<lambda>_. True"]
  show ?case
  proof (cases res)
    case (Inl err)
    then show ?thesis using o1 r by (simp add: drain_loop.simps [of s])
  next
    case (Inr bs)
    obtain f out resp where f: "filter_bytes (s_filter s1) bs = (f, out, resp)" by (metis prod_cases3)
    have o2: "only_writes (\<lambda>_. True) s (s1\<lparr>s_filter := f\<rparr>)"
      by (rule only_writes_trans [OF o1]) (simp add: only_writes_def same_call_def)
    obtain ok s2 where w: "write_client resp (s1\<lparr>s_filter := f\<rparr>) = (ok, s2)" by fastforce
    have o3: "only_writes (\<lambda>_. True) s s2"
      by (rule only_writes_trans [OF o2 write_client_only [OF TrueI w]])
    show ?thesis
      using r Inr f w o2 o3 "1.IH"
      by (subst drain_loop.simps)
        (auto simp: Let_def split: bool.split intro: only_writes_trans [OF o2] only_writes_trans [OF o3])
  qed
qed

lemma prompt_inv_new: "prompt_inv (new_session conn now fs art cfg)"
  by (simp add: prompt_inv_def session_inv_def new_session_def modem_inv_new) (simp add: new_modem_def)

lemma phase_inv_begin:
  assumes "prompt_inv s"
  shows "phase_inv (begin_session s)"
proof -
  obtain ok1 s1 where w1: "write_client client_negotiation s = (ok1, s1)" by fastforce
  note p1 = prompt_inv_write [OF assms w1]
  let ?t = "drain_client_telnet (sleep (100 * millisecond) s1)"
  have "prompt_inv (sleep (100 * millisecond) s1)"
    by (rule prompt_inv_grows [OF p1 grows_sleep [OF any_lax grows_refl]])
  then have pt: "prompt_inv ?t"
    unfolding drain_client_telnet_def
    by (rule prompt_inv_only_writes [OF _ only_writes_trans [OF set_read_deadline_only drain_loop_only]])
  obtain ok2 s2 where w2: "write_client (s_banner s1) ?t = (ok2, s2)" by fastforce
  note p2 = prompt_inv_write [OF pt w2]
  obtain ok3 s3 where w3: "send_result ResultOK s2 = (ok3, s3)" by fastforce
  have p3: "prompt_inv s3" using prompt_inv_result [OF p2, of ResultOK] w3 by simp
  have m: "modem_inv (s_modem u)" if "prompt_inv u" for u using that by (simp add: prompt_inv_def session_inv_def)
  show ?thesis
    using w1 w2 w3 phase_inv_finish [OF m [OF p1]] phase_inv_finish [OF m [OF p2]] phase_inv_finish [OF m [OF p3]]
      prompt_session [OF p3]
    by (simp add: begin_session_def split: bool.split) (simp add: session_inv_def closed_line_def)
qed

subsection \<open>Plain settings\<close>

text \<open>A command that only concerns the modem.\<close>

definition plain_command :: "command \<Rightarrow> bool" where
  "plain_command c \<longleftrightarrow> cmd_type c \<notin> {CmdUnknown, CmdDial, CmdClear, CmdOnline}"

lemma run_commands_plain:
  "plain_command cmd \<Longrightarrow>
     run_commands env input info (cmd # rest) s =
       (case execute_on cmd s of
          (response, s1) \<Rightarrow>
            if response = [] then run_commands env input info rest s1
            else if rest = [] then
              (case flush_info info s1 of
                 (False, s2) \<Rightarrow> s2
               | (True, s2) \<Rightarrow> snd (write_client (bytes_of response) s2))
            else run_commands env input (info @ trim_suffix response (ok_suffix s1)) rest s1)"
  by (cases "cmd_type cmd") (simp_all add: plain_command_def)

lemma flush_info_modem: "flush_info info s = (ok, t) \<Longrightarrow> s_modem t = s_modem s"
  by (metis flush_info_def snd_conv write_client_fields(1))

lemma run_commands_modem:
  "list_all plain_command cs \<Longrightarrow> s_modem (run_commands env input info cs s) = execute_all (s_modem s) cs"
proof (induction cs arbitrary: info s)
  case (Cons cmd rest)
  obtain response t where x: "execute_on cmd s = (response, t)" by fastforce
  then have t: "s_modem t = fst (execute (s_modem s) cmd)"
    by (auto simp: execute_on_def split: prod.splits)
  obtain ok u where f: "flush_info info t = (ok, u)" by fastforce
  show ?case
    using Cons x t f flush_info_modem [OF f]
    by (cases ok) (simp_all add: run_commands_plain del: run_commands.simps(2))
qed simp

subsection \<open>The reader's buffer during a call\<close>

lemma buffered_ops [simp]:
  "s_buffered (snd (write_client data s)) = s_buffered s" "s_buffered (count_it c s) = s_buffered s"
  "s_buffered (log_it e s) = s_buffered s" "s_buffered (set_modem_state st s) = s_buffered s"
  "s_buffered (pass_time dt s) = s_buffered s"
  by (simp_all add: write_client_def count_it_def log_it_def set_modem_state_def pass_time_def split: list.split)

lemma buffered_result [simp]: "s_buffered (snd (send_result code s)) = s_buffered s"
  by (simp add: send_result_def)

lemma buffered_hangup [simp]: "s_buffered (hangup s) = s_buffered s"
  by (simp add: hangup_def split: option.split)

lemma buffered_close [simp]: "s_buffered (session_close s) = s_buffered s"
  by (simp add: session_close_def)

lemma buffered_turn: "s_buffered (dl_session (take_turn d t)) = s_buffered (dl_session d)"
proof (cases t)
  case (ClientTurn dt ok first)
  let ?d = "on_session (pass_time dt) d"
  have "s_buffered (dl_session (client_turn ok first ?d)) = s_buffered (dl_session ?d)"
  proof (cases "ended ?d")
    case False
    show ?thesis
      using client_turn_result [OF False, of ok first] unfolding turn_result_def
      by (elim disjE exE conjE) (auto simp: calm_def drop_carrier_def)
  qed (simp add: client_turn_ended)
  then show ?thesis by (simp add: ClientTurn)
next
  case (RemoteTurn dt ok r)
  have w: "s_buffered s' = s_buffered s" if "write_client data s = (x, s')" for data s x s'
    using that buffered_ops(1) [of data s] by simp
  show ?thesis
    by (auto simp: RemoteTurn remote_turn_def reply_remote_def reader_ends_def Let_def
        split: remote_read.split prod.split bool.split dest: w)
qed simp

lemma buffered_turns: "s_buffered (dl_session (take_turns d ts)) = s_buffered (dl_session d)"
  by (rule bridge_runs.run_frame) (rule buffered_turn)

subsection \<open>Example runs\<close>

definition escaped_call :: "phase" where
  "escaped_call =
     session_run (InCall (start_data_loop [192, 0, 2, 7] (online_session [Arrive (10 * second) (bytes_of ''+++'')])))
       [Bridge (after (10 * second)), Bridge quick, Bridge quick, Bridge quick, Bridge quick,
        Bridge (after second), Bridge (RemoteTurn 0 True (RemoteError ''use of closed network connection''))]"

lemma escaped_call_example:
  "case escaped_call of
     AtPrompt s \<Rightarrow> state (s_modem s) = StateCommand \<and> s_remote s = Some [192, 0, 2, 7] \<and> \<not> s_done s
   | _ \<Rightarrow> False"
  by code_simp

lemma quiet_info_example:
  "s_trace (process_command engaged_env ''ATIQ1'' example_session) = []"
  by code_simp

lemma leaked_ok_example:
  "s_trace (process_command engaged_env ''ATS3=30E1'' example_session)
     = [ToClient (bytes_of (crlf 13 10 @ ''OK'' @ crlf 13 10)), ToClient (bytes_of (crlf 30 10 @ ''OK'' @ crlf 30 10))]"
  by code_simp

section \<open>Properties\<close>

subsection \<open>The invariant\<close>

text \<open>C4: Whatever a caller types, whatever the boards answer, however writes fail and whenever the server
  stops it, a session keeps its invariant from the connect on: the modem's settings stay in their ranges;
  data mode at the prompt means a connection is held; a connection still held in command mode has been
  closed; a call in progress runs on the session's own connection; and a session that is gone holds no
  connection, is in command mode and has closed its client.\<close>

theorem session_keeps_invariant:
  "phase_inv (session_run (begin_session (new_session conn now fs art cfg)) ls)"
  by (intro phase_inv_run phase_inv_begin prompt_inv_new)

subsection \<open>Back online\<close>

lemma ato_commands: "map_option (map cmd_type) (parse_command_line ''ATO'') = Some [CmdOnline]"
  by code_simp

lemma atiq1_commands: "map_option (map cmd_type) (parse_command_line ''ATIQ1'') = Some [CmdIdentify, CmdQuietOn]"
  by code_simp

text \<open>C38: After the caller has escaped to command mode, the session still remembers the board, but the
  bridge closed that connection when it returned. ATO nevertheless answers CONNECT and puts the modem in
  data mode, on a connection that is closed.\<close>

theorem online_after_escape_is_dead:
  assumes "phase_inv p" and "session_run p ls = AtPrompt s"
    and "state (s_modem s) = StateCommand" and "s_remote s = Some peer" and "\<not> s_done s"
  shows "closed_line peer s
     \<and> state (s_modem (process_command env ''ATO'' s)) = StateData
     \<and> closed_line peer (process_command env ''ATO'' s)
     \<and> (\<exists>w. s_trace (process_command env ''ATO'' s) = s_trace s @ [Reports ResultConnect, w])"
proof -
  have "session_inv s" using phase_inv_run [OF assms(1), of ls] assms(2) by simp
  then have c: "closed_line peer s" using assms(3,4) by (simp add: session_inv_def)
  have o: "process_command env ''ATO'' s = snd (send_result ResultConnect (set_modem_state StateData s))"
    using assms(4) ato_commands by (auto simp: process_command_def flush_info_def go_back_online_def)
  show ?thesis
    using c unfolding o
    by (auto simp: closed_line_def send_result_def write_client_def emit_def set_modem_state_def split: list.split)
qed

theorem online_after_escape_is_dead_witness:
  "case escaped_call of
     AtPrompt s \<Rightarrow> closed_line [192, 0, 2, 7] s \<and> state (s_modem (process_command engaged_env ''ATO'' s)) = StateData
   | _ \<Rightarrow> False"
proof -
  let ?d = "start_data_loop [192, 0, 2, 7] (online_session [Arrive (10 * second) (bytes_of ''+++'')])"
  have "phase_inv (InCall ?d)"
    using call_inv_start [of "online_session [Arrive (10 * second) (bytes_of ''+++'')]" "[192, 0, 2, 7]"]
    by (simp add: online_session_def example_session_def modem_inv_new start_data_loop_def)
  then show ?thesis
    using online_after_escape_is_dead [of "InCall ?d"] escaped_call_example
    unfolding escaped_call_def by (auto split: phase.splits)
qed

subsection \<open>A line of settings\<close>

text \<open>A line made of modem commands only (no dial, no ATO, no clear, nothing unknown) leaves the modem
  exactly as executing its commands one after the other does, and places no call, whether or not the
  writes to the caller succeed.\<close>

theorem settings_line_runs_all:
  assumes "parse_command_line input = Some cs" and "list_all plain_command cs"
  shows "s_modem (process_command env input s) = execute_all (s_modem s) cs"
proof (cases "input = []")
  case True
  then have "cs = [mk_command CmdUnknown []]" using assms(1) by (simp add: parse_command_line_def has_prefix_def)
  then show ?thesis using assms(2) by (simp add: plain_command_def mk_command_def)
next
  case False
  then show ?thesis using assms by (simp add: process_command_def run_commands_modem)
qed

theorem settings_line_runs_all_witness:
  "s_modem (process_command engaged_env ''ATE0V1'' example_session)
     = execute_all (s_modem example_session) (the (parse_command_line ''ATE0V1''))"
proof -
  have "parse_command_line ''ATE0V1'' \<noteq> None" by code_simp
  then obtain cs where cs: "parse_command_line ''ATE0V1'' = Some cs" by blast
  have "list_all plain_command (the (parse_command_line ''ATE0V1''))" by code_simp
  then show ?thesis using settings_line_runs_all [OF cs, of engaged_env example_session] by (simp add: cs)
qed

text \<open>ATIQ1 shows nothing: the identification is collected, the quiet command that follows has no
  response, and the collected text is never written.\<close>

theorem quiet_last_loses_information:
  "s_trace (process_command env ''ATIQ1'' s) = s_trace s"
  using atiq1_commands
  by (auto simp: process_command_def execute_on_def execute_def format_result_def Let_def)

text \<open>ATS3=30E1 answers OK twice: the OK of S3=30 is formatted with the old carriage return and
  compared with the new one, so it is not recognised and comes out as if it were information.\<close>

theorem changed_terminator_leaks_ok:
  "s_trace (process_command engaged_env ''ATS3=30E1'' example_session)
     = [ToClient (bytes_of (crlf 13 10 @ ''OK'' @ crlf 13 10)), ToClient (bytes_of (crlf 30 10 @ ''OK'' @ crlf 30 10))]"
  by code_simp

subsection \<open>What was typed ahead\<close>

text \<open>Bytes the line editor has already read ahead when a call begins stay in its buffer for the whole
  call, so the board never gets them; they are the next command line.\<close>

theorem typed_ahead_waits_for_prompt:
  "s_buffered (dl_session (take_turns (start_data_loop peer s) ts)) = s_buffered s"
  by (simp add: buffered_turns start_data_loop_def)

subsection \<open>A silent caller\<close>

primrec arrival_time :: "arrival \<Rightarrow> time" where
  "arrival_time (Arrive t bs) = t"
| "arrival_time (HangUp t) = t"

lemma next_arrival_late:
  "list_all (\<lambda>a. deadline < arrival_time a) as \<Longrightarrow> now \<le> deadline \<Longrightarrow>
     \<exists>as'. next_arrival k now deadline as = (Inl ReadTimeout, deadline, as')"
  by (induction k now deadline as rule: next_arrival.induct) auto

text \<open>C39: A caller who sends nothing at the prompt is logged as idle and disconnected five minutes after
  the prompt, whatever \<open>idle_timeout\<close> says in the configuration: the line editor replaces the deadline
  the loop has set.\<close>

theorem silent_caller_times_out:
  assumes "state (s_modem s) = StateCommand" and "\<not> s_done s" and "s_buffered s = []"
    and "list_all (\<lambda>a. s_now s + commandTimeout < arrival_time a) (s_arrivals s)"
  shows "\<exists>t. prompt_step env s = Gone t \<and> s_now t = s_now s + 300 * second
     \<and> Logged (idle_timeout_event (s_logger s)) \<in> set (s_trace t)"
proof -
  let ?s = "set_read_deadline (idle_timeout (s_config s)) s"
  let ?w = "set_read_deadline commandTimeout ?s"
  have d: "s_deadline ?w = s_now s + commandTimeout" "s_now ?w = s_now s" "s_now s \<le> s_now s + commandTimeout"
    by (simp_all add: set_read_deadline_def commandTimeout_def second_def)
  obtain as where as: "next_arrival 4096 (s_now s) (s_deadline ?w) (s_arrivals s) = (Inl ReadTimeout, s_now s + commandTimeout, as)"
    using next_arrival_late [OF assms(4), of "s_now s" 4096] d by auto
  let ?t = "?w\<lparr>s_now := s_now s + commandTimeout, s_arrivals := as\<rparr>"
  have same: "s_done ?w = s_done s" "s_buffered ?w = s_buffered s" "s_arrivals ?w = s_arrivals s" "s_modem ?w = s_modem s"
    by (simp_all add: set_read_deadline_def)
  have rb: "read_byte ?w = (Inl ReadTimeout, ?t)"
    unfolding read_byte_def conn_read_def using assms(2,3) as d same by simp
  then have "read_line ?s = (Inl ReadTimeout, ?t)"
    by (simp add: read_line_def read_line_loop.simps read_line_round_def read_filtered_byte.simps)
  then have "prompt_step env s = finish_session (log_it (idle_timeout_event (s_logger ?t)) ?t)"
    using assms(1,2) same by (simp add: prompt_step_def set_read_deadline_def)
  then show ?thesis
    by (auto simp: finish_session_def cleanup_session_def emit_def log_it_def hangup_def set_read_deadline_def
        set_modem_state_def commandTimeout_def split: option.split)
qed

theorem silent_caller_times_out_witness:
  "\<exists>t. prompt_step engaged_env (example_session\<lparr>s_arrivals := [Arrive (400 * second) [65]]\<rparr>) = Gone t
     \<and> s_now t = s_now example_session + 300 * second"
  using silent_caller_times_out [of "example_session\<lparr>s_arrivals := [Arrive (400 * second) [65]]\<rparr>" engaged_env]
  by (auto simp: example_session_def new_modem_def commandTimeout_def second_def)

end
