(* ===== verification/SessionTrace.thy ===== *)
theory SessionTrace
  imports SessionFacts
begin

section \<open>What a session does to the outside\<close>

text \<open>
  The effects of a session's steps: every step appends to the trace, and what it appends is a sequence
  of dials, each counted once at its start and once at its end, and of effects that are counted as
  bytes at most. The server relies on this when it lets sessions report to the shared metrics. Each
  effect is also within the session's configuration: it looks up and connects to entries of its
  phonebook only.
\<close>

fun phase_session :: "phase \<Rightarrow> session" where
  "phase_session (AtPrompt s) = s"
| "phase_session (InCall d) = dl_session d"
| "phase_session (Gone s) = s"

lemma phase_session_finish [simp]: "phase_session (finish_session s) = cleanup_session s"
  by (simp add: finish_session_def)

subsection \<open>The configuration of a session\<close>

lemma config_prims [simp]:
  "s_config (snd (write_client data s)) = s_config s" "s_config (snd (send_result code s)) = s_config s"
  "s_config (snd (flush_info info s)) = s_config s" "s_config (log_it ev s) = s_config s"
  "s_config (emit e s) = s_config s" "s_config (set_modem_state st s) = s_config s"
  "s_config (sleep d s) = s_config s" "s_config (pass_time dt s) = s_config s"
  by (simp_all add: write_client_def send_result_def flush_info_def log_it_def emit_def set_modem_state_def
      sleep_def pass_time_def split: list.split)

lemma config_hangup [simp]: "s_config (hangup s) = s_config s"
  by (simp add: hangup_def split: option.split)

lemma config_close [simp]: "s_config (session_close s) = s_config s"
  by (simp add: session_close_def)

lemma config_cleanup [simp]: "s_config (cleanup_session s) = s_config s"
  by (simp add: cleanup_session_def)

lemma config_online [simp]: "s_config (go_back_online s) = s_config s"
  by (simp add: go_back_online_def)

lemma config_dial [simp]: "s_config (handle_dial env number s) = s_config s"
  using handle_dial_line [of env number s] by (simp add: line_matches_def)

lemma config_execute: "execute_on cmd s = (response, t) \<Longrightarrow> s_config t = s_config s"
  by (auto simp: execute_on_def split: prod.splits)

lemma config_run_commands [simp]: "s_config (run_commands env input info cs s) = s_config s"
proof (induction cs arbitrary: info s)
  case (Cons cmd rest)
  have f: "s_config t = s_config s" if "flush_info i s = (ok, t)" for i ok s t
    using that config_prims(3) [of i s] by simp
  have w: "s_config t = s_config s" if "write_client b s = (ok, t)" for b ok s t
    using that config_prims(1) [of b s] by simp
  show ?case
    by (cases "cmd_type cmd")
      (auto simp: Cons.IH config_execute split: prod.split bool.split dest!: f w config_execute)
qed simp

lemma config_process [simp]: "s_config (process_command env input s) = s_config s"
  by (simp add: process_command_def split: option.split)

lemma config_turn: "s_config (dl_session (take_turn d t)) = s_config (dl_session d)"
proof (cases t)
  case (ClientTurn dt ok first)
  let ?d = "on_session (pass_time dt) d"
  have "s_config (dl_session (client_turn ok first ?d)) = s_config (dl_session ?d)"
  proof (cases "ended ?d")
    case False
    show ?thesis
      using client_turn_result [OF False, of ok first] unfolding turn_result_def
      by (elim disjE exE conjE) (auto simp: calm_def drop_carrier_def)
  qed (simp add: client_turn_ended)
  then show ?thesis by (simp add: ClientTurn)
next
  case (RemoteTurn dt ok r)
  have w: "s_config s' = s_config s" if "write_client data s = (x, s')" for data s x s'
    using that config_prims(1) [of data s] by simp
  show ?thesis
    by (auto simp: RemoteTurn remote_turn_def reply_remote_def reader_ends_def count_it_def Let_def
        split: remote_read.split prod.split bool.split dest: w)
qed simp

lemma config_only_writes: "only_writes Q s t \<Longrightarrow> s_config t = s_config s"
  by (simp add: only_writes_def same_call_def)

lemma config_prompt_step: "s_config (phase_session (prompt_step env s)) = s_config s"
proof (cases "s_done s")
  case True
  then show ?thesis by (simp add: prompt_step_def)
next
  case False
  let ?s = "set_read_deadline (idle_timeout (s_config s)) s"
  have same: "s_config ?s = s_config s" by (simp add: set_read_deadline_def)
  obtain r t where r: "read_line ?s = (r, t)" by fastforce
  have "s_config t = s_config s" using config_only_writes [OF read_line_only [OF r]] same by simp
  then show ?thesis
    using False r same
    by (cases "state (s_modem ?s)"; cases r; cases "projl r")
      (auto simp: prompt_step_def Let_def enter_data_loop_def start_data_loop_def split: option.split)
qed

lemma config_step: "s_config (phase_session (session_step p l)) = s_config (phase_session p)"
  by (cases "(p, l)" rule: session_step.cases)
    (simp_all add: config_prompt_step call_step_def Let_def config_turn del: take_turn.simps)

lemma config_begin: "s_config (phase_session (begin_session s)) = s_config s"
proof -
  have w: "s_config t = s_config s" if "write_client b s = (ok, t)" for b ok s t
    using that config_prims(1) [of b s] by simp
  have r: "s_config t = s_config s" if "send_result b s = (ok, t)" for b ok s t
    using that config_prims(2) [of b s] by simp
  have d: "s_config (drain_client_telnet t) = s_config t" for t
    unfolding drain_client_telnet_def
    using config_only_writes [OF only_writes_trans [OF set_read_deadline_only drain_loop_only]] .
  show ?thesis
    by (auto simp: begin_session_def d split: prod.split bool.split dest!: w r)
qed

subsection \<open>Steps append dials and plain effects\<close>

fun plain_effect :: "effect \<Rightarrow> bool" where
  "plain_effect (Counted (Bytes dir k)) = True"
| "plain_effect (Counted c) = False"
| "plain_effect e = True"

text \<open>An entry a configuration lets callers reach, and the addresses and names of those entries.\<close>

definition reachable_entry :: "config \<Rightarrow> phonebook_entry \<Rightarrow> bool" where
  "reachable_entry cfg e \<longleftrightarrow> e \<in> set (cfg_phonebook cfg) \<and> \<not> pe_busy e"

definition listed_address :: "config \<Rightarrow> string \<Rightarrow> bool" where
  "listed_address cfg addr \<longleftrightarrow>
     (\<exists>e. reachable_entry cfg e \<and> addr = dial_address (pe_host e) (pe_port e)
        \<and> (dlc_parsed_networks (cfg_dialer cfg) \<noteq> [] \<longrightarrow>
             (\<forall>ip. parse_ip (pe_host e) = Some ip \<longrightarrow> ip_allowed (dlc_parsed_networks (cfg_dialer cfg)) ip)))"

fun within_config :: "config \<Rightarrow> effect \<Rightarrow> bool" where
  "within_config cfg (Network (Connect addr t)) = listed_address cfg addr"
| "within_config cfg (Network (Resolve host)) = (\<exists>e. reachable_entry cfg e \<and> host = pe_host e)"
| "within_config cfg e = True"

definition tame :: "config \<Rightarrow> effect \<Rightarrow> bool" where
  "tame cfg e \<longleftrightarrow> plain_effect e \<and> within_config cfg e"

definition dial_burst :: "config \<Rightarrow> effect list \<Rightarrow> bool" where
  "dial_burst cfg es \<longleftrightarrow> (\<exists>es' entry outcome d.
     es = Counted DialStarted # es' @ [Counted (DialCompleted entry outcome d)] \<and> list_all (tame cfg) es')"

definition emits :: "config \<Rightarrow> session \<Rightarrow> session \<Rightarrow> bool" where
  "emits cfg s t \<longleftrightarrow> (\<exists>ess. s_trace t = s_trace s @ concat ess
     \<and> (\<forall>es \<in> set ess. list_all (tame cfg) es \<or> dial_burst cfg es))"

named_theorems emit_intros \<open>what a session emits\<close>

lemma emits_refl [simp, emit_intros]: "emits c s s"
  unfolding emits_def by (rule exI [of _ "[]"]) simp

lemma emits_trans [trans]: "emits c s t \<Longrightarrow> emits c t u \<Longrightarrow> emits c s u"
proof -
  assume "emits c s t" "emits c t u"
  then obtain xs ys where "s_trace t = s_trace s @ concat xs" "s_trace u = s_trace t @ concat ys"
    and "\<forall>es \<in> set xs. list_all (tame c) es \<or> dial_burst c es" "\<forall>es \<in> set ys. list_all (tame c) es \<or> dial_burst c es"
    unfolding emits_def by blast
  then show ?thesis unfolding emits_def by (intro exI [of _ "xs @ ys"]) auto
qed

lemma emits_extends: "extends (tame c) s t \<Longrightarrow> emits c s t"
proof -
  assume "extends (tame c) s t"
  then obtain es where "s_trace t = s_trace s @ es" "list_all (tame c) es" by (auto simp: extends_def)
  then show ?thesis unfolding emits_def by (intro exI [of _ "[es]"]) simp
qed

lemma emits_same: "emits c s t \<Longrightarrow> s_trace u = s_trace t \<Longrightarrow> emits c s u"
  by (simp add: emits_def)

lemma emits_from: "emits c s t \<Longrightarrow> s_trace u = s_trace s \<Longrightarrow> emits c u t"
  by (simp add: emits_def)

lemma tame_lax [simp]: "lax (tame c)"
  by (auto simp: lax_def tame_def elim: quiet_effect.elims(2))

lemma tame_bridge [simp]: "bridge_effects (tame c)"
  by (simp add: bridge_effects_def) (simp add: tame_def)

lemma tame_reports [simp]: "tame c (Reports code)" "tame c ClosedClient"
  by (simp_all add: tame_def)

lemma call_effect_within:
  assumes "call_effect env c e eff" and "reachable_entry c e"
  shows "tame c (Network eff)"
proof -
  let ?nets = "dlc_parsed_networks (cfg_dialer c)"
  obtain timeout where eff: "eff \<in> set (fst (dial (de_net env) (new_dialer timeout ?nets) (pe_host e) (pe_port e)))"
    using assms(1) by (auto simp: call_effect_def)
  show ?thesis
  proof (cases eff)
    case (Resolve h)
    then have "h = pe_host e"
      using eff by (auto simp: dial_def Let_def gate_check_def check_allowed_def negotiate_def
          split: prod.splits option.splits sum.splits if_splits)
    then show ?thesis using assms(2) Resolve by (auto simp: tame_def)
  next
    case (Connect addr t)
    have "connects (fst (dial (de_net env) (new_dialer timeout ?nets) (pe_host e) (pe_port e)))"
      unfolding connects_def list_ex_iff using eff Connect by (intro bexI [of _ eff]) simp_all
    then have gate: "snd (gate_check (de_net env) (new_dialer timeout ?nets) (pe_host e)) = None"
      by (simp add: dial_connects_iff)
    have "addr = dial_address (pe_host e) (pe_port e)"
      using eff Connect by (auto simp: dial_def Let_def gate_check_def check_allowed_def negotiate_def
          split: prod.splits option.splits sum.splits if_splits)
    moreover have "ip_allowed ?nets ip" if "?nets \<noteq> []" "parse_ip (pe_host e) = Some ip" for ip
      using gate gate_check_passes_literal [OF that(2), of "new_dialer timeout ?nets"] that(1)
      by (simp add: new_dialer_def)
    ultimately show ?thesis using assms(2) Connect by (auto simp: tame_def listed_address_def)
  qed (simp_all add: tame_def)
qed

lemma emits_grows: "grows (tame c) t u \<Longrightarrow> emits c s t \<Longrightarrow> emits c s u"
  using emits_trans [OF _ emits_extends [OF grows_extends]] .

lemma emits_prim [emit_intros]:
  "emits c s t \<Longrightarrow> emits c s (snd (write_client data t))"
  "emits c s t \<Longrightarrow> emits c s (snd (send_result code t))"
  "emits c s t \<Longrightarrow> emits c s (log_it ev t)"
  "emits c s t \<Longrightarrow> emits c s (sleep d t)"
  "emits c s t \<Longrightarrow> emits c s (snd (flush_info info t))"
  by (erule emits_grows [rotated], simp add: grow_intros grows_flush)+

lemma emits_only_writes: "only_writes Q s t \<Longrightarrow> emits c s t"
proof -
  assume "only_writes Q s t"
  then obtain es where es: "s_trace t = s_trace s @ es" "list_all (written_by Q) es" by (auto simp: only_writes_def)
  have "tame c e" if "written_by Q e" for e using written_quiet [OF that] tame_lax by (simp add: lax_def)
  with es have "extends (tame c) s t" unfolding extends_def by (meson list.pred_mono_strong)
  then show ?thesis by (rule emits_extends)
qed

lemma emits_hangup [emit_intros]: "emits c s t \<Longrightarrow> emits c s (hangup t)"
  by (erule emits_trans, rule emits_extends, rule extends_hangup) simp_all

lemma emits_close: "emits c s (session_close s)"
proof -
  have "extends (tame c) s (emit ClosedClient (s\<lparr>s_done := True\<rparr>))" by (simp add: extends_def)
  then show ?thesis unfolding session_close_def by (intro emits_hangup emits_extends)
qed

lemma emits_cleanup: "emits c s t \<Longrightarrow> emits c s (cleanup_session t)"
  unfolding cleanup_session_def
  by (rule emits_trans [OF emits_hangup], assumption, rule emits_extends) (simp add: extends_def)

subsection \<open>Commands\<close>

lemma emits_dial: "emits (s_config s) s (handle_dial env number s)"
proof -
  obtain es entry d where
    es: "dial_effects env number s =
      Counted DialStarted # es @ [Counted (DialCompleted entry (dial_result env number s) d)]"
    "list_all (tame (s_config s)) es"
  proof -
    have "\<exists>es entry d. dial_effects env number s =
        Counted DialStarted # es @ [Counted (DialCompleted entry (dial_result env number s) d)]
        \<and> list_all (tame (s_config s)) es"
      by (rule dial_effects_extend, rule dial_body_facts [THEN conjunct1])
        (auto simp: reachable_entry_def count_it_def intro!: call_effect_within)
    then show ?thesis using that by blast
  qed
  obtain new where new: "s_trace (handle_dial env number s) = s_trace s @ new"
    using handle_dial_extends [of s env number] by (auto simp: extends_def)
  then have "new = dial_effects env number s" by (simp add: dial_effects_def)
  then have "dial_burst (s_config s) new" using es by (auto simp: dial_burst_def)
  then show ?thesis using new unfolding emits_def by (intro exI [of _ "[new]"]) simp
qed

lemma emits_online: "emits c s t \<Longrightarrow> emits c s (go_back_online t)"
proof -
  assume e: "emits c s t"
  then have "emits c s (set_modem_state StateData t)" by (rule emits_same) simp
  then show ?thesis using e by (simp add: go_back_online_def emit_intros)
qed

lemma emits_execute: "execute_on cmd s = (response, t) \<Longrightarrow> emits c s t"
  by (rule emits_same [OF emits_refl]) (auto simp: execute_on_def split: prod.splits)

lemma emits_run_commands: "s_config s = c \<Longrightarrow> emits c s (run_commands env input info cs s)"
proof (induction cs arbitrary: info s)
  case (Cons cmd rest)
  note c = Cons.prems
  obtain ok1 s1 where f: "flush_info info s = (ok1, s1)" by fastforce
  then have e1: "emits c s s1" "s_config s1 = c"
    using emits_prim(5) [OF emits_refl, of c s info] config_prims(3) [of info s] c by simp_all
  obtain ok2 s2 where b: "write_client (s_banner s1) s1 = (ok2, s2)" by fastforce
  then have e2: "emits c s s2" "s_config s2 = c"
    using emits_prim(1) [OF e1(1), of "s_banner s1"] config_prims(1) [of "s_banner s1" s1] e1(2) by simp_all
  obtain response t where x: "execute_on cmd s = (response, t)" by fastforce
  note et = emits_execute [OF x, of c] and ct = config_execute [OF x]
  obtain ok3 s3 where f3: "flush_info info t = (ok3, s3)" by fastforce
  then have e3: "emits c s s3" using emits_prim(5) [OF et, of info] by simp
  have r: "emits c s (run_commands env input i rest t)" for i using emits_trans [OF et Cons.IH] ct c by simp
  have r2: "emits c s (run_commands env input i rest s2)" for i using emits_trans [OF e2(1) Cons.IH] e2(2) by simp
  show ?case
  proof (cases "cmd_type cmd")
    case CmdUnknown
    then show ?thesis by (simp add: emit_intros)
  next
    case CmdDial
    then show ?thesis using f e1 emits_trans [OF e1(1) emits_dial [of s1, unfolded e1(2)]] by (cases ok1) simp_all
  next
    case CmdClear
    then show ?thesis using f b e1(1) e2(1) r2 by (cases ok1; cases ok2) (simp_all add: emit_intros)
  next
    case CmdOnline
    then show ?thesis using f e1(1) emits_online [OF e1(1)] by (cases ok1) simp_all
  qed (use x f3 r et e3 in \<open>cases ok3; simp add: emit_intros\<close>)+
qed simp

lemma emits_process: "s_config s = c \<Longrightarrow> emits c s (process_command env input s)"
  by (simp add: process_command_def emits_run_commands split: option.split)

subsection \<open>Steps\<close>

lemma emits_turn: "emits c (dl_session d) (dl_session (take_turn d t))"
  by (rule emits_extends, rule extends_turn) simp_all

lemma emits_call_step: "emits c (dl_session d) (phase_session (call_step t d))"
  by (simp add: call_step_def Let_def emits_turn)

lemma emits_prompt_step:
  assumes "s_config s = c"
  shows "emits c s (phase_session (prompt_step env s))"
proof (cases "s_done s")
  case True
  then show ?thesis by (simp add: prompt_step_def emits_cleanup)
next
  case False
  let ?s = "set_read_deadline (idle_timeout (s_config s)) s"
  have same: "s_trace ?s = s_trace s" by (simp add: set_read_deadline_def)
  obtain r t where r: "read_line ?s = (r, t)" by fastforce
  have t: "emits c s t" using emits_from [OF emits_only_writes [OF read_line_only [OF r]]] same by simp
  have "s_config t = c"
    using config_only_writes [OF read_line_only [OF r]] assms by (simp add: set_read_deadline_def)
  then have p: "emits c s (process_command env input t)" for input using emits_trans [OF t emits_process] by simp
  have c: "emits c s (cleanup_session (log_it e t))" "emits c s (cleanup_session t)" for e
    using t by (simp_all add: emits_cleanup emit_intros)
  show ?thesis
  proof (cases "state (s_modem ?s)")
    case StateCommand
    then show ?thesis
      using False r p c by (cases r; cases "projl r") (simp_all add: prompt_step_def Let_def)
  next
    case StateData
    have "emits c s (set_modem_state StateCommand ?s)"
      by (rule emits_same [OF emits_refl]) (simp add: same)
    then show ?thesis
      using False StateData
      by (auto simp: prompt_step_def Let_def enter_data_loop_def start_data_loop_def same
          split: option.split intro: emits_same [OF emits_refl] emit_intros)
  qed
qed

lemma emits_step: "s_config (phase_session p) = c \<Longrightarrow> emits c (phase_session p) (phase_session (session_step p l))"
  by (cases "(p, l)" rule: session_step.cases)
    (simp_all add: emits_prompt_step emits_call_step emits_close)

lemma emits_begin: "emits c s (phase_session (begin_session s))"
proof -
  obtain ok1 s1 where w1: "write_client client_negotiation s = (ok1, s1)" by fastforce
  have e1: "emits c s s1" using emits_prim(1) [OF emits_refl, of c s client_negotiation] w1 by simp
  let ?t = "drain_client_telnet (sleep (100 * millisecond) s1)"
  have "emits c (sleep (100 * millisecond) s1) ?t"
    unfolding drain_client_telnet_def
    by (rule emits_only_writes [OF only_writes_trans [OF set_read_deadline_only drain_loop_only]])
  then have et: "emits c s ?t" by (rule emits_trans [OF emits_prim(4) [OF e1]])
  obtain ok2 s2 where w2: "write_client (s_banner s1) ?t = (ok2, s2)" by fastforce
  have e2: "emits c s s2" using emits_prim(1) [OF et, of "s_banner s1"] w2 by simp
  obtain ok3 s3 where w3: "send_result ResultOK s2 = (ok3, s3)" by fastforce
  have e3: "emits c s s3" using emits_prim(2) [OF e2, of ResultOK] w3 by simp
  have "emits c s (s3\<lparr>s_reader := True\<rparr>)" using e3 by (rule emits_same) simp
  then show ?thesis
    using w1 w2 w3 e1 e2 e3 by (simp add: begin_session_def emits_cleanup split: bool.split)
qed

end
