(* ===== verification/Server.thy ===== *)
theory Server
  imports RateLimiter ConnTracker SessionTrace
begin

section \<open>The server (internal/server/server.go)\<close>

text \<open>
  The listener, the accept loop, one handler per connection, \<open>Reload\<close> and \<open>Stop\<close>. Each goroutine is
  cut where it takes a lock, blocks or touches what another goroutine touches, so the state holds the
  program counter of every handler and of the accept loop, and a run is any interleaving of their
  steps, of the steps of a reload and of \<open>Stop\<close>.

  \<^item> A connection is known by a number, as \<open>net.Conn\<close> is a key of \<open>sessions\<close>; the map holds numbers,
    the session itself lives in the handler.
  \<^item> The limiter of accepts (\<open>golang.org/x/time/rate\<close>) only delays; whether its \<open>Wait\<close> returns an
    error is part of the step.
  \<^item> The one \<open>*Metrics\<close> is shared: what a session counts is applied to \<open>sv_metrics\<close> as it happens.
  \<^item> A step of a running session is a step of \<open>session_step\<close>; a stop from outside goes through
    \<open>stop_server\<close> only.
\<close>

subsection \<open>State\<close>

datatype listener = NotListening | Listening int | ListenerClosed

datatype accept_state = NoLoop | LoopTop | InAccept | LoopDone

datatype handler =
    Arrived connection
  | Passed connection string
  | Admitted connection string
  | Prepared string session
  | Listed string session
  | Running string time phase
  | Ended string session
  | Unlisted string session

datatype server_effect = ServerLog log_event | Call nat effect | CloseRefused nat

datatype reload_op = SetRateLimits | SetRateTrusted | SetCeilings | SetConnTrusted | SetArtDir | SetLogLevel | StoreConfig

record server =
  sv_config :: config
  sv_level :: log_level
  sv_metrics :: "metrics option"
  sv_limiter :: rate_limiter
  sv_tracker :: connection_tracker
  sv_art :: string
  sv_listener :: listener
  sv_accept :: accept_state
  sv_sessions :: "nat list"
  sv_handlers :: "(nat \<times> handler) list"
  sv_next :: nat
  sv_done :: bool
  sv_reload :: "(config \<times> reload_op list) option"
  sv_trace :: "server_effect list"

definition new_server :: "config \<Rightarrow> log_level \<Rightarrow> metrics option \<Rightarrow> time \<Rightarrow> server" where
  "new_server cfg level m now =
     (let rc = cfg_rate_limit cfg; trusted = srv_parsed_trusted (cfg_server cfg) in
      \<lparr>sv_config = cfg, sv_level = level, sv_metrics = m,
       sv_limiter = rl_set_trusted trusted
         (new_rate_limiter (rlc_enabled rc) (rlc_max_attempts rc) (rl_get_window rc) (rl_get_block_duration rc) now),
       sv_tracker = ct_set_trusted trusted
         (new_connection_tracker (srv_max_connections (cfg_server cfg)) (srv_max_per_ip (cfg_server cfg))),
       sv_art = set_art_dir (srv_banner_dir (cfg_server cfg)), sv_listener = NotListening, sv_accept = NoLoop,
       sv_sessions = [], sv_handlers = [], sv_next = 0, sv_done = False, sv_reload = None, sv_trace = []\<rparr>)"

definition server_log :: "log_event \<Rightarrow> server \<Rightarrow> server" where
  "server_log e s = s\<lparr>sv_trace := sv_trace s @ [ServerLog e]\<rparr>"

definition count_metric :: "metric_call \<Rightarrow> server \<Rightarrow> server" where
  "count_metric c s = s\<lparr>sv_metrics := metric_step (sv_metrics s) c\<rparr>"

subsection \<open>Reload\<close>

definition unapplied_settings :: "config \<Rightarrow> config \<Rightarrow> string list" where
  "unapplied_settings old new =
     (if srv_port (cfg_server old) \<noteq> srv_port (cfg_server new) then [''server.port''] else [])
     @ (if lgc_file (cfg_logging old) \<noteq> lgc_file (cfg_logging new) then [''logging.file''] else [])
     @ (if lgc_format (cfg_logging old) \<noteq> lgc_format (cfg_logging new) then [''logging.format''] else [])
     @ (if mc_enabled (cfg_metrics old) \<noteq> mc_enabled (cfg_metrics new)
           \<or> metrics_get_port (cfg_metrics old) \<noteq> metrics_get_port (cfg_metrics new)
           \<or> mc_bind (cfg_metrics old) \<noteq> mc_bind (cfg_metrics new)
        then [''metrics''] else [])"

definition carry_version :: "config \<Rightarrow> config \<Rightarrow> config" where
  "carry_version old new = new\<lparr>cfg_version := cfg_version old\<rparr>"

fun reload_step :: "reload_op \<Rightarrow> config \<Rightarrow> server \<Rightarrow> server" where
  "reload_step SetRateLimits cfg s =
     (let rc = cfg_rate_limit cfg in
      s\<lparr>sv_limiter := rl_set_limits (rlc_enabled rc) (rlc_max_attempts rc) (rl_get_window rc)
          (rl_get_block_duration rc) (sv_limiter s)\<rparr>)"
| "reload_step SetRateTrusted cfg s =
     s\<lparr>sv_limiter := rl_set_trusted (srv_parsed_trusted (cfg_server cfg)) (sv_limiter s)\<rparr>"
| "reload_step SetCeilings cfg s =
     s\<lparr>sv_tracker := ct_set_limits (srv_max_connections (cfg_server cfg)) (srv_max_per_ip (cfg_server cfg)) (sv_tracker s)\<rparr>"
| "reload_step SetConnTrusted cfg s =
     s\<lparr>sv_tracker := ct_set_trusted (srv_parsed_trusted (cfg_server cfg)) (sv_tracker s)\<rparr>"
| "reload_step SetArtDir cfg s = s\<lparr>sv_art := set_art_dir (srv_banner_dir (cfg_server cfg))\<rparr>"
| "reload_step SetLogLevel cfg s = s\<lparr>sv_level := parse_level (lgc_level (cfg_logging cfg))\<rparr>"
| "reload_step StoreConfig cfg s = s\<lparr>sv_config := cfg\<rparr>"

definition reload_ops :: "reload_op list" where
  "reload_ops = [SetRateLimits, SetRateTrusted, SetCeilings, SetConnTrusted, SetArtDir, SetLogLevel, StoreConfig]"

text \<open>\<open>Reload\<close> up to its first lock, with what it will return, and its steps one at a time.\<close>

definition begin_reload :: "config \<Rightarrow> server \<Rightarrow> server \<times> string list" where
  "begin_reload cfg s =
     (s\<lparr>sv_reload := Some (carry_version (sv_config s) cfg, reload_ops)\<rparr>, unapplied_settings (sv_config s) cfg)"

definition next_reload_step :: "server \<Rightarrow> server" where
  "next_reload_step s =
     (case sv_reload s of
        Some (cfg, op # ops) \<Rightarrow> (reload_step op cfg s)\<lparr>sv_reload := (if ops = [] then None else Some (cfg, ops))\<rparr>
      | _ \<Rightarrow> s)"

text \<open>The whole of it, when nothing comes in between.\<close>

definition reload :: "config \<Rightarrow> server \<Rightarrow> server \<times> string list" where
  "reload cfg s =
     (case begin_reload cfg s of (s1, ignored) \<Rightarrow> ((next_reload_step ^^ length reload_ops) s1, ignored))"

subsection \<open>Starting and accepting\<close>

definition server_started_event :: "int \<Rightarrow> log_event" where
  "server_started_event port = ev_int ''port'' port (ev_str ''event'' ''server_started'' (new_event InfoLevel))"

text \<open>\<open>listen\<close> is the outcome of \<open>net.Listen\<close>.\<close>

definition start_server :: "string option \<Rightarrow> server \<Rightarrow> string + server" where
  "start_server listen s =
     (case listen of
        Some err \<Rightarrow> Inl err
      | None \<Rightarrow>
          (let port = srv_port (cfg_server (sv_config s)) in
           Inr ((server_log (server_started_event port) (s\<lparr>sv_listener := Listening port\<rparr>))\<lparr>sv_accept := LoopTop\<rparr>)))"

datatype accept_result = Accepted connection | AcceptError string

definition accept_error_event :: "string \<Rightarrow> log_event" where
  "accept_error_event err = ev_err (Some err) (ev_str ''event'' ''accept_error'' (new_event ErrorLevel))"

text \<open>One step of \<open>acceptLoop\<close>: the test of \<open>done\<close>, or what \<open>Accept\<close> and then \<open>Wait\<close> return.\<close>

definition accept_step :: "accept_result \<Rightarrow> bool \<Rightarrow> server \<Rightarrow> server" where
  "accept_step r wait_ok s =
     (case sv_accept s of
        LoopTop \<Rightarrow> s\<lparr>sv_accept := (if sv_done s then LoopDone else InAccept)\<rparr>
      | InAccept \<Rightarrow>
          (case r of
             AcceptError err \<Rightarrow>
               if sv_done s then s\<lparr>sv_accept := LoopDone\<rparr>
               else server_log (accept_error_event err) (s\<lparr>sv_accept := LoopTop\<rparr>)
           | Accepted conn \<Rightarrow>
               let n = sv_next s; s1 = s\<lparr>sv_next := Suc n\<rparr> in
               if wait_ok then s1\<lparr>sv_accept := LoopTop, sv_handlers := (n, Arrived conn) # sv_handlers s1\<rparr>
               else s1\<lparr>sv_accept := LoopDone, sv_trace := sv_trace s1 @ [CloseRefused n]\<rparr>)
      | _ \<Rightarrow> s)"

subsection \<open>A connection's handler\<close>

fun handler_session :: "handler \<Rightarrow> session option" where
  "handler_session (Prepared host s) = Some s"
| "handler_session (Listed host s) = Some s"
| "handler_session (Running host started p) = Some (phase_session p)"
| "handler_session (Ended host s) = Some s"
| "handler_session (Unlisted host s) = Some s"
| "handler_session _ = None"

definition handler_trace :: "handler option \<Rightarrow> effect list" where
  "handler_trace h = (case Option.bind h handler_session of Some s \<Rightarrow> s_trace s | None \<Rightarrow> [])"

fun counted :: "effect list \<Rightarrow> metric_call list" where
  "counted [] = []"
| "counted (Counted c # es) = c # counted es"
| "counted (e # es) = counted es"

text \<open>What a session has done since, made visible: in the trace under its number, and in the metrics.\<close>

definition report_effects :: "nat \<Rightarrow> effect list \<Rightarrow> server \<Rightarrow> server" where
  "report_effects n es s =
     s\<lparr>sv_trace := sv_trace s @ map (Call n) es, sv_metrics := foldl metric_step (sv_metrics s) (counted es)\<rparr>"

definition put_handler :: "nat \<Rightarrow> handler \<Rightarrow> server \<Rightarrow> server" where
  "put_handler n h s =
     report_effects n (drop (length (handler_trace (map_of (sv_handlers s) n))) (handler_trace (Some h)))
       (s\<lparr>sv_handlers := AList.update n h (sv_handlers s)\<rparr>)"

definition drop_handler :: "nat \<Rightarrow> server \<Rightarrow> server" where
  "drop_handler n s = s\<lparr>sv_handlers := AList.delete n (sv_handlers s)\<rparr>"

definition refuse :: "nat \<Rightarrow> reject_reason \<Rightarrow> log_event \<Rightarrow> server \<Rightarrow> server" where
  "refuse n reason e s =
     drop_handler n ((count_metric (Rejected reason) (server_log e s))\<lparr>sv_trace := sv_trace (server_log e s) @ [CloseRefused n]\<rparr>)"

definition limit_exceeded_event :: "string \<Rightarrow> log_event" where
  "limit_exceeded_event host =
     ev_str ''reason'' ''limit_exceeded'' (ev_str ''source_ip'' host (ev_str ''event'' ''connection_rejected'' (new_event WarnLevel)))"

fun handler_step :: "attempt_order \<Rightarrow> time \<Rightarrow> art_files \<Rightarrow> label \<Rightarrow> nat \<Rightarrow> handler \<Rightarrow> server \<Rightarrow> server" where
  "handler_step iter now fs l n (Arrived conn) s =
     (let host = peer_host (cn_addr conn) in
      case allow iter now host (sv_limiter s) of
        (False, r) \<Rightarrow> refuse n ReasonRateLimited (rate_limited_event host ''blocked'') (s\<lparr>sv_limiter := r\<rparr>)
      | (True, r) \<Rightarrow> put_handler n (Passed conn host) (s\<lparr>sv_limiter := r\<rparr>))"
| "handler_step iter now fs l n (Passed conn host) s =
     (case tracker_add host (sv_tracker s) of
        (False, c) \<Rightarrow> refuse n ReasonLimitExceeded (limit_exceeded_event host) (s\<lparr>sv_tracker := c\<rparr>)
      | (True, c) \<Rightarrow> put_handler n (Admitted conn host) (s\<lparr>sv_tracker := c\<rparr>))"
| "handler_step iter now fs l n (Admitted conn host) s =
     (let sess = new_session conn now fs (Some (sv_art s)) (sv_config s) in
      put_handler n (Prepared host (log_it (new_connection_event (s_logger sess)) sess)) s)"
| "handler_step iter now fs l n (Prepared host sess) s =
     put_handler n (Listed host sess) (s\<lparr>sv_sessions := n # sv_sessions s\<rparr>)"
| "handler_step iter now fs l n (Listed host sess) s =
     put_handler n (Running host (s_now sess) (begin_session sess)) (count_metric SessionStarted s)"
| "handler_step iter now fs l n (Running host started (Gone sess)) s =
     put_handler n (Ended host sess) (count_metric (SessionEnded (time_sub (s_now sess) started)) s)"
| "handler_step iter now fs l n (Running host started p) s =
     (case l of Stop \<Rightarrow> s | _ \<Rightarrow> put_handler n (Running host started (session_step p l)) s)"
| "handler_step iter now fs l n (Ended host sess) s =
     put_handler n (Unlisted host sess) (s\<lparr>sv_sessions := removeAll n (sv_sessions s)\<rparr>)"
| "handler_step iter now fs l n (Unlisted host sess) s =
     drop_handler n (put_handler n (Unlisted host (log_it (disconnected_event (s_logger sess)) sess))
       (s\<lparr>sv_tracker := tracker_remove host (sv_tracker s)\<rparr>))"

subsection \<open>Stopping\<close>

fun close_handler :: "handler \<Rightarrow> handler" where
  "close_handler (Listed host s) = Listed host (session_close s)"
| "close_handler (Running host started p) = Running host started (session_step p Stop)"
| "close_handler h = h"

definition close_session :: "nat \<Rightarrow> server \<Rightarrow> server" where
  "close_session n s =
     (case map_of (sv_handlers s) n of None \<Rightarrow> s | Some h \<Rightarrow> put_handler n (close_handler h) s)"

definition server_stopped_event :: log_event where
  "server_stopped_event = ev_str ''event'' ''server_stopped'' (new_event InfoLevel)"

definition stop_server :: "server \<Rightarrow> server" where
  "stop_server s =
     (let s1 = s\<lparr>sv_done := True,
                sv_listener := (case sv_listener s of NotListening \<Rightarrow> NotListening | _ \<Rightarrow> ListenerClosed)\<rparr>;
          s2 = foldl (\<lambda>s n. close_session n s) s1 (sv_sessions s)
      in server_log server_stopped_event (s2\<lparr>sv_sessions := []\<rparr>))"

subsection \<open>Runs\<close>

text \<open>A second \<open>Stop\<close> would close a closed channel: it is not a step. One reload at a time.\<close>

datatype server_label =
    Accept accept_result bool
  | Handle nat time art_files label
  | LimiterTick time
  | BeginReload config
  | ReloadStep
  | StopServer

definition handle_step :: "attempt_order \<Rightarrow> nat \<Rightarrow> time \<Rightarrow> art_files \<Rightarrow> label \<Rightarrow> server \<Rightarrow> server" where
  "handle_step iter n now fs l s =
     (case map_of (sv_handlers s) n of None \<Rightarrow> s | Some h \<Rightarrow> handler_step iter now fs l n h s)"

fun server_step :: "attempt_order \<Rightarrow> server \<Rightarrow> server_label \<Rightarrow> server" where
  "server_step iter s (Accept r wait_ok) = accept_step r wait_ok s"
| "server_step iter s (Handle n now fs l) = handle_step iter n now fs l s"
| "server_step iter s (LimiterTick now) = (if sv_done s then s else s\<lparr>sv_limiter := cleanup_tick now (sv_limiter s)\<rparr>)"
| "server_step iter s (BeginReload cfg) = (if sv_reload s = None then fst (begin_reload cfg s) else s)"
| "server_step iter s ReloadStep = next_reload_step s"
| "server_step iter s StopServer = (if sv_done s then s else stop_server s)"

definition server_run :: "attempt_order \<Rightarrow> server \<Rightarrow> server_label list \<Rightarrow> server" where
  "server_run iter s ls = foldl (server_step iter) s ls"

end
