(* ===== verification/ServerFacts.thy ===== *)
theory ServerFacts
  imports Server
begin

section \<open>What the server keeps\<close>

subsection \<open>Tallies over the handlers\<close>

definition tally :: "('h \<Rightarrow> 'a::comm_monoid_add) \<Rightarrow> (nat \<times> 'h) list \<Rightarrow> 'a" where
  "tally f hs = sum_list (map (f \<circ> snd) hs)"

lemma tally_simps [simp]: "tally f [] = 0" "tally f (p # hs) = f (snd p) + tally f hs"
  by (simp_all add: tally_def)

lemma tally_update:
  "distinct (map fst hs) \<Longrightarrow> map_of hs n = Some h \<Longrightarrow> tally f (AList.update n h' hs) + f h = tally f hs + f h'"
  by (induction hs) (auto simp: ac_simps split: if_splits)

lemma tally_delete:
  "distinct (map fst hs) \<Longrightarrow> map_of hs n = Some h \<Longrightarrow> tally f (AList.delete n hs) + f h = tally f hs"
proof (induction hs)
  case (Cons p hs)
  have "AList.delete n hs = hs" if "n \<notin> fst ` set hs"
    using that by (force simp: AList.delete_eq filter_id_conv)
  with Cons show ?case by (cases p) (auto simp: ac_simps)
qed simp

text \<open>A tally that the step does not change, and one that it does.\<close>

lemma tally_same:
  assumes "distinct (map fst hs)" and "map_of hs n = Some h" and "f h' = f h"
  shows "tally f (AList.update n h' hs) = (tally f hs :: 'a::cancel_comm_monoid_add)"
  using tally_update [OF assms(1,2), of f h'] assms(3) by simp

subsection \<open>The pieces of the invariant\<close>

text \<open>The address a handler holds a place for in the tracker.\<close>

fun holds_place :: "handler \<Rightarrow> string multiset" where
  "holds_place (Arrived conn) = {#}"
| "holds_place (Passed conn host) = {#}"
| "holds_place (Admitted conn host) = {#host#}"
| "holds_place (Prepared host s) = {#host#}"
| "holds_place (Listed host s) = {#host#}"
| "holds_place (Running host started p) = {#host#}"
| "holds_place (Ended host s) = {#host#}"
| "holds_place (Unlisted host s) = {#host#}"

fun registered :: "handler \<Rightarrow> bool" where
  "registered (Listed host s) = True"
| "registered (Running host started p) = True"
| "registered (Ended host s) = True"
| "registered _ = False"

fun active :: "handler \<Rightarrow> int" where
  "active (Running host started p) = 1"
| "active _ = 0"

fun handler_ok :: "handler \<Rightarrow> bool" where
  "handler_ok (Prepared host s) = prompt_inv s"
| "handler_ok (Listed host s) = (session_inv s \<and> state (s_modem s) = StateCommand)"
| "handler_ok (Running host started p) = phase_inv p"
| "handler_ok (Ended host s) = phase_inv (Gone s)"
| "handler_ok (Unlisted host s) = phase_inv (Gone s)"
| "handler_ok _ = True"

definition known :: "(nat \<times> handler) list \<Rightarrow> (handler \<Rightarrow> bool) \<Rightarrow> nat set" where
  "known hs P = {n. \<exists>h. map_of hs n = Some h \<and> P h}"

definition ids_inv :: "server \<Rightarrow> bool" where
  "ids_inv s \<longleftrightarrow> distinct (map fst (sv_handlers s)) \<and> (\<forall>n \<in> fst ` set (sv_handlers s). n < sv_next s)"

definition sessions_inv :: "server \<Rightarrow> bool" where
  "sessions_inv s \<longleftrightarrow> set (sv_sessions s) \<subseteq> known (sv_handlers s) registered
     \<and> (\<not> sv_done s \<longrightarrow> known (sv_handlers s) registered \<subseteq> set (sv_sessions s))"

definition places_inv :: "server \<Rightarrow> bool" where
  "places_inv s \<longleftrightarrow> tracker_inv (sv_tracker s) \<and> tracker_line (sv_tracker s) = tally holds_place (sv_handlers s)"

definition gauges :: "metrics option \<Rightarrow> int \<Rightarrow> bool" where
  "gauges m k \<longleftrightarrow>
     (case m of None \<Rightarrow> True | Some m \<Rightarrow> distinct (map fst (dialsTotal m)) \<and> sessionsActive m = k \<and> dialsInFlight m = 0)"

definition gauges_inv :: "server \<Rightarrow> bool" where
  "gauges_inv s \<longleftrightarrow> gauges (sv_metrics s) (tally active (sv_handlers s))"

definition handlers_inv :: "server \<Rightarrow> bool" where
  "handlers_inv s \<longleftrightarrow> (\<forall>(n, h) \<in> set (sv_handlers s). handler_ok h)"

definition server_inv :: "server \<Rightarrow> bool" where
  "server_inv s \<longleftrightarrow> ids_inv s \<and> sessions_inv s \<and> places_inv s \<and> gauges_inv s \<and> handlers_inv s"

lemmas server_pieces = ids_inv_def sessions_inv_def places_inv_def gauges_inv_def handlers_inv_def

lemma handlers_inv_map: "ids_inv s \<Longrightarrow> handlers_inv s \<longleftrightarrow> (\<forall>n h. map_of (sv_handlers s) n = Some h \<longrightarrow> handler_ok h)"
  by (fastforce simp: ids_inv_def handlers_inv_def dest: map_of_SomeD)

subsection \<open>Effects on the gauges\<close>

text \<open>Calls that begin and end as many dials and touch no session.\<close>

definition neutral :: "effect list \<Rightarrow> bool" where
  "neutral es \<longleftrightarrow> started_sessions (counted es) = 0 \<and> ended_sessions (counted es) = 0
     \<and> started_dials (counted es) = completed_dials (counted es)"

lemma counted_append [simp]: "counted (xs @ ys) = counted xs @ counted ys"
  by (induction xs rule: counted.induct) simp_all

lemma neutral_append: "neutral xs \<Longrightarrow> neutral ys \<Longrightarrow> neutral (xs @ ys)"
  by (simp add: neutral_def started_sessions_def ended_sessions_def started_dials_def completed_dials_def)

lemma neutral_Nil [simp]: "neutral []"
  by (simp add: neutral_def started_sessions_def ended_sessions_def started_dials_def completed_dials_def)

lemma counted_plain: "list_all (tame c) es \<Longrightarrow> \<forall>c \<in> set (counted es). \<exists>dir k. c = Bytes dir k"
  by (induction es rule: counted.induct) (auto simp: tame_def elim: plain_effect.elims(2))

lemma no_calls: "\<forall>c \<in> set cs. \<exists>dir k. c = Bytes dir k \<Longrightarrow>
    started_sessions cs = 0 \<and> ended_sessions cs = 0 \<and> started_dials cs = 0 \<and> completed_dials cs = 0"
  by (fastforce simp: started_sessions_def ended_sessions_def started_dials_def completed_dials_def filter_empty_conv
      split: metric_call.splits)

lemma neutral_plain: "list_all (tame c) es \<Longrightarrow> neutral es"
  using no_calls [OF counted_plain] by (simp add: neutral_def)

lemma neutral_burst: "dial_burst c es \<Longrightarrow> neutral es"
proof -
  assume "dial_burst c es"
  then obtain es' entry outcome d where
    es: "es = Counted DialStarted # es' @ [Counted (DialCompleted entry outcome d)]" "list_all (tame c) es'"
    by (auto simp: dial_burst_def)
  show ?thesis
    using no_calls [OF counted_plain [OF es(2)]] es(1)
    by (simp add: neutral_def started_sessions_def ended_sessions_def started_dials_def completed_dials_def)
qed

lemma neutral_concat: "\<forall>es \<in> set ess. list_all (tame c) es \<or> dial_burst c es \<Longrightarrow> neutral (concat ess)"
  by (induction ess) (auto intro: neutral_append neutral_plain neutral_burst)

lemma neutral_emits: "emits c s t \<Longrightarrow> neutral (drop (length (s_trace s)) (s_trace t))"
  by (auto simp: emits_def intro: neutral_concat [of _ c])

lemma gauges_neutral: "gauges m k \<Longrightarrow> neutral es \<Longrightarrow> gauges (foldl metric_step m (counted es)) k"
proof (cases m)
  case None
  have "foldl metric_step None cs = None" for cs
  proof (induction cs)
    case (Cons c cs)
    have "metric_step None c = None"
      by (cases c) (simp_all add: session_started_def session_ended_def connection_rejected_def dial_started_def
          dial_completed_def bytes_transferred_def)
    with Cons show ?case by simp
  qed simp
  then show ?thesis using None by (simp add: gauges_def)
next
  case (Some m0)
  assume "gauges m k" "neutral es"
  with Some metric_steps [of m0 "counted es", OF refl] show ?thesis
    by (auto simp: gauges_def neutral_def)
qed

subsection \<open>Fields of the building blocks\<close>

lemma put_handler_fields [simp]:
  "sv_handlers (put_handler n h s) = AList.update n h (sv_handlers s)"
  "sv_tracker (put_handler n h s) = sv_tracker s" "sv_sessions (put_handler n h s) = sv_sessions s"
  "sv_next (put_handler n h s) = sv_next s" "sv_done (put_handler n h s) = sv_done s"
  "sv_config (put_handler n h s) = sv_config s" "sv_reload (put_handler n h s) = sv_reload s"
  "sv_limiter (put_handler n h s) = sv_limiter s"
  by (simp_all add: put_handler_def report_effects_def)

lemma put_handler_metrics:
  "sv_metrics (put_handler n h s) = foldl metric_step (sv_metrics s)
     (counted (drop (length (handler_trace (map_of (sv_handlers s) n))) (handler_trace (Some h))))"
  by (simp add: put_handler_def report_effects_def)

lemma small_fields [simp]:
  "sv_handlers (count_metric c s) = sv_handlers s" "sv_tracker (count_metric c s) = sv_tracker s"
  "sv_sessions (count_metric c s) = sv_sessions s" "sv_next (count_metric c s) = sv_next s"
  "sv_done (count_metric c s) = sv_done s" "sv_config (count_metric c s) = sv_config s"
  "sv_reload (count_metric c s) = sv_reload s" "sv_limiter (count_metric c s) = sv_limiter s"
  "sv_trace (count_metric c s) = sv_trace s"
  "sv_metrics (count_metric c s) = metric_step (sv_metrics s) c"
  by (simp_all add: count_metric_def)

lemma log_fields [simp]:
  "sv_handlers (server_log e s) = sv_handlers s" "sv_tracker (server_log e s) = sv_tracker s"
  "sv_sessions (server_log e s) = sv_sessions s" "sv_next (server_log e s) = sv_next s"
  "sv_done (server_log e s) = sv_done s" "sv_config (server_log e s) = sv_config s"
  "sv_reload (server_log e s) = sv_reload s" "sv_limiter (server_log e s) = sv_limiter s"
  "sv_metrics (server_log e s) = sv_metrics s"
  by (simp_all add: server_log_def)

lemma drop_handler_fields [simp]:
  "sv_handlers (drop_handler n s) = AList.delete n (sv_handlers s)"
  "sv_tracker (drop_handler n s) = sv_tracker s" "sv_sessions (drop_handler n s) = sv_sessions s"
  "sv_next (drop_handler n s) = sv_next s" "sv_done (drop_handler n s) = sv_done s"
  "sv_config (drop_handler n s) = sv_config s" "sv_reload (drop_handler n s) = sv_reload s"
  "sv_limiter (drop_handler n s) = sv_limiter s" "sv_metrics (drop_handler n s) = sv_metrics s"
  "sv_trace (drop_handler n s) = sv_trace s"
  by (simp_all add: drop_handler_def)

lemma refuse_fields [simp]:
  "sv_handlers (refuse n reason e s) = AList.delete n (sv_handlers s)"
  "sv_tracker (refuse n reason e s) = sv_tracker s" "sv_sessions (refuse n reason e s) = sv_sessions s"
  "sv_next (refuse n reason e s) = sv_next s" "sv_done (refuse n reason e s) = sv_done s"
  "sv_config (refuse n reason e s) = sv_config s" "sv_reload (refuse n reason e s) = sv_reload s"
  "sv_limiter (refuse n reason e s) = sv_limiter s"
  "sv_metrics (refuse n reason e s) = metric_step (sv_metrics s) (Rejected reason)"
  by (simp_all add: refuse_def)

subsection \<open>Replacing and removing a handler\<close>

lemma handler_update: "map_of (AList.update n h hs) k = (if k = n then Some h else map_of hs k)"
  by (simp add: update_conv')

lemma handler_delete: "map_of (AList.delete n hs) k = (if k = n then None else map_of hs k)"
  by (simp add: delete_conv')

lemma known_update: "known (AList.update n h hs) P = (if P h then insert n (known hs P) else known hs P - {n})"
  by (auto simp: known_def handler_update)

lemma known_delete: "known (AList.delete n hs) P = known hs P - {n}"
  by (auto simp: known_def handler_delete)

lemma ids_inv_update:
  assumes "ids_inv s" and "map_of (sv_handlers s) n = Some h"
    and "sv_handlers t = AList.update n h' (sv_handlers s)" "sv_next t = sv_next s"
  shows "ids_inv t"
  using assms map_of_SomeD [OF assms(2)] by (force simp: ids_inv_def)

lemma ids_inv_delete:
  "ids_inv s \<Longrightarrow> sv_handlers t = AList.delete n (sv_handlers s) \<Longrightarrow> sv_next t = sv_next s \<Longrightarrow> ids_inv t"
  by (auto simp: ids_inv_def AList.delete_eq distinct_map_filter)

lemma server_inv_put:
  assumes inv: "server_inv s" and h: "map_of (sv_handlers s) n = Some h"
    and same: "sv_handlers u = sv_handlers s" "sv_next u = sv_next s" "sv_done u = sv_done s"
    and ok: "handler_ok h'"
    and effects: "neutral (drop (length (handler_trace (Some h))) (handler_trace (Some h')))"
    and place: "tracker_inv (sv_tracker u)"
      "tracker_line (sv_tracker u) + holds_place h = tracker_line (sv_tracker s) + holds_place h'"
    and gauge: "gauges (sv_metrics u) (tally active (sv_handlers s) - active h + active h')"
    and sess: "set (sv_sessions u) \<subseteq> insert n (set (sv_sessions s))" "n \<in> set (sv_sessions u) \<Longrightarrow> registered h'"
      "\<not> sv_done s \<Longrightarrow> set (sv_sessions s) - {n} \<subseteq> set (sv_sessions u) \<and> (registered h' \<longrightarrow> n \<in> set (sv_sessions u))"
  shows "server_inv (put_handler n h' u)"
proof -
  let ?t = "put_handler n h' u"
  have d: "distinct (map fst (sv_handlers s))" using inv by (simp add: server_inv_def ids_inv_def)
  have "ids_inv ?t" using inv h same by (auto simp: server_inv_def intro: ids_inv_update)
  moreover have "sessions_inv ?t"
    using inv sess same by (auto simp: server_inv_def sessions_inv_def known_update)
  moreover have "places_inv ?t"
  proof -
    have "tracker_line (sv_tracker u) + holds_place h = tally holds_place (sv_handlers s) + holds_place h'"
      using place(2) inv by (simp add: server_inv_def places_inv_def)
    then have "tracker_line (sv_tracker u) = tally holds_place (AList.update n h' (sv_handlers s))"
      using tally_update [OF d h, of holds_place h'] by (metis add_right_cancel)
    then show ?thesis using place(1) same by (simp add: places_inv_def)
  qed
  moreover have "gauges_inv ?t"
  proof -
    have "tally active (AList.update n h' (sv_handlers s)) = tally active (sv_handlers s) - active h + active h'"
      using tally_update [OF d h, of active h'] by simp
    then show ?thesis
      using gauges_neutral [OF gauge effects] same h by (simp add: gauges_inv_def put_handler_metrics)
  qed
  moreover have "handlers_inv ?t"
    using inv ok same h calculation(1) handlers_inv_map [of s] handlers_inv_map [of ?t]
    by (auto simp: server_inv_def handler_update split: if_splits)
  ultimately show ?thesis by (simp add: server_inv_def)
qed

lemma server_inv_drop:
  assumes inv: "server_inv s" and h: "map_of (sv_handlers s) n = Some h"
    and same: "sv_handlers u = sv_handlers s" "sv_next u = sv_next s" "sv_done u = sv_done s" "sv_sessions u = sv_sessions s"
    and place: "tracker_inv (sv_tracker u)" "tracker_line (sv_tracker u) + holds_place h = tracker_line (sv_tracker s)"
    and gauge: "gauges (sv_metrics u) (tally active (sv_handlers s))" "active h = 0"
    and quiet: "\<not> registered h"
  shows "server_inv (drop_handler n u)"
proof -
  let ?t = "drop_handler n u"
  have d: "distinct (map fst (sv_handlers s))" using inv by (simp add: server_inv_def ids_inv_def)
  have i: "ids_inv ?t" using inv same by (auto simp: server_inv_def intro: ids_inv_delete)
  moreover have "sessions_inv ?t"
    using inv same h quiet by (auto simp: server_inv_def sessions_inv_def known_delete known_def)
  moreover have "places_inv ?t"
  proof -
    have "tracker_line (sv_tracker u) + holds_place h = tally holds_place (sv_handlers s)"
      using place(2) inv by (simp add: server_inv_def places_inv_def)
    then have "tracker_line (sv_tracker u) = tally holds_place (AList.delete n (sv_handlers s))"
      using tally_delete [OF d h, of holds_place] by (metis add_right_cancel)
    then show ?thesis using place(1) same by (simp add: places_inv_def)
  qed
  moreover have "gauges_inv ?t"
    using gauge same tally_delete [OF d h, of active] by (simp add: gauges_inv_def)
  moreover have "handlers_inv ?t"
    using inv same h i handlers_inv_map [of s] handlers_inv_map [of ?t]
    by (auto simp: server_inv_def handler_delete split: if_splits)
  ultimately show ?thesis by (simp add: server_inv_def)
qed

subsection \<open>Every step keeps the invariant\<close>

lemma gauges_calls:
  "gauges m k \<Longrightarrow> gauges (connection_rejected r m) k"
  "gauges m k \<Longrightarrow> gauges (session_started m) (k + 1)"
  "gauges m k \<Longrightarrow> gauges (session_ended d m) (k - 1)"
  by (cases m; simp add: gauges_def connection_rejected_def session_started_def session_ended_def)+

lemma tracker_line_admit:
  assumes "tracker_inv c" and "tracker_add host c = (True, c')"
  shows "tracker_inv c' \<and> tracker_line c' = tracker_line c + {#host#}"
  using gate.admit_line [OF assms(1), of host c'] assms(2) by (simp add: tracker_admit_def)

lemma tracker_add_refuses: "tracker_add host c = (False, c') \<Longrightarrow> c' = c"
  by (auto simp: tracker_add_def split: if_splits)

lemma tracker_line_remove:
  assumes "tracker_inv c" and "host \<in># tracker_line c"
  shows "tracker_inv (tracker_remove host c) \<and> tracker_line (tracker_remove host c) + {#host#} = tracker_line c"
  using gate.release_line [OF assms] assms(2) by simp

lemma place_on_line:
  assumes "server_inv s" and "map_of (sv_handlers s) n = Some h"
  shows "holds_place h \<subseteq># tracker_line (sv_tracker s)"
  using assms tally_delete [of "sv_handlers s" n h holds_place]
  by (metis ids_inv_def mset_subset_eq_add_right places_inv_def server_inv_def)

lemma handler_known: "server_inv s \<Longrightarrow> map_of (sv_handlers s) n = Some h \<Longrightarrow> handler_ok h"
  using handlers_inv_map [of s] by (auto simp: server_inv_def)

lemma not_registered:
  "server_inv s \<Longrightarrow> map_of (sv_handlers s) n = Some h \<Longrightarrow> \<not> registered h \<Longrightarrow> n \<notin> set (sv_sessions s)"
  by (auto simp: server_inv_def sessions_inv_def known_def)

lemma registered_listed:
  "server_inv s \<Longrightarrow> map_of (sv_handlers s) n = Some h \<Longrightarrow> registered h \<Longrightarrow> \<not> sv_done s \<Longrightarrow> n \<in> set (sv_sessions s)"
  by (auto simp: server_inv_def sessions_inv_def known_def)

lemma server_inv_simps:
  assumes "server_inv s"
  shows "tracker_inv (sv_tracker s)" "gauges (sv_metrics s) (tally active (sv_handlers s))"
  using assms by (simp_all add: server_inv_def places_inv_def gauges_inv_def)

lemma begin_closed:
  "session_inv s \<Longrightarrow> state (s_modem s) = StateCommand \<Longrightarrow> phase_inv (begin_session s)"
proof (cases "s_done s")
  case True
  assume "session_inv s"
  then show ?thesis
    using True phase_inv_finish [of "snd (write_client client_negotiation s)"]
    by (simp add: begin_session_def write_client_def session_inv_def)
next
  case False
  assume "session_inv s" "state (s_modem s) = StateCommand"
  then show ?thesis using False phase_inv_begin [of s] by (simp add: prompt_inv_def)
qed

lemma prompt_inv_log: "prompt_inv s \<Longrightarrow> prompt_inv (log_it e s)"
  by (simp add: prompt_inv_def session_inv_def log_it_def closed_line_def)

lemma handler_trace_simps [simp]:
  "handler_trace None = []" "handler_trace (Some (Arrived conn)) = []" "handler_trace (Some (Passed conn host)) = []"
  "handler_trace (Some (Admitted conn host)) = []" "handler_trace (Some (Prepared host s)) = s_trace s"
  "handler_trace (Some (Listed host s)) = s_trace s"
  "handler_trace (Some (Running host started p)) = s_trace (phase_session p)"
  "handler_trace (Some (Ended host s)) = s_trace s" "handler_trace (Some (Unlisted host s)) = s_trace s"
  by (simp_all add: handler_trace_def)

lemma neutral_log: "neutral [Logged e]"
  by (rule neutral_plain) (simp add: tame_def)

lemma server_inv_refuse:
  assumes "server_inv s" and "map_of (sv_handlers s) n = Some h" and "holds_place h = {#}" "active h = 0" "\<not> registered h"
  shows "server_inv (refuse n reason e (s\<lparr>sv_limiter := r\<rparr>))"
  unfolding refuse_def
  by (rule server_inv_drop [OF assms(1,2)])
    (use assms server_inv_simps [OF assms(1)] in \<open>auto simp: gauges_calls(1)\<close>)

lemma server_inv_running:
  assumes "server_inv s" and h: "map_of (sv_handlers s) n = Some (Running host started p)"
  shows "server_inv (put_handler n (Running host started (session_step p l)) s)"
proof -
  have p: "phase_inv p" using handler_known [OF assms(1) h] by simp
  show ?thesis
    by (rule server_inv_put [OF assms(1) h])
      (use assms(1) h p registered_listed [OF assms(1) h] server_inv_simps [OF assms(1)]
        in \<open>auto simp: phase_inv_step neutral_emits [OF emits_step [OF refl]]\<close>)
qed

lemma server_inv_handler_step:
  assumes inv: "server_inv s" and h: "map_of (sv_handlers s) n = Some h"
  shows "server_inv (handler_step iter now fs l n h s)"
proof (cases h)
  case (Arrived conn)
  obtain ok r where a: "allow iter now (peer_host (cn_addr conn)) (sv_limiter s) = (ok, r)" by fastforce
  have "server_inv (put_handler n (Passed conn host) (s\<lparr>sv_limiter := r\<rparr>))" for host
    by (rule server_inv_put [OF inv h])
      (use Arrived not_registered [OF inv h] server_inv_simps [OF inv] in auto)
  moreover have "server_inv (refuse n reason e (s\<lparr>sv_limiter := r\<rparr>))" for reason e
    by (rule server_inv_refuse [OF inv h]) (simp_all add: Arrived)
  ultimately show ?thesis using a by (simp add: Arrived Let_def split: bool.split)
next
  case (Passed conn host)
  obtain ok c where a: "tracker_add host (sv_tracker s) = (ok, c)" by fastforce
  show ?thesis
  proof (cases ok)
    case False
    then have "c = sv_tracker s" using a tracker_add_refuses by simp
    moreover have "server_inv (refuse n reason e (s\<lparr>sv_limiter := sv_limiter s\<rparr>))" for reason e
      by (rule server_inv_refuse [OF inv h]) (simp_all add: Passed)
    ultimately show ?thesis using a False by (simp add: Passed)
  next
    case True
    have "server_inv (put_handler n (Admitted conn host) (s\<lparr>sv_tracker := c\<rparr>))"
      by (rule server_inv_put [OF inv h])
        (use a True Passed tracker_line_admit [of "sv_tracker s" host c] not_registered [OF inv h]
          server_inv_simps [OF inv] in auto)
    then show ?thesis using a True by (simp add: Passed)
  qed
next
  case (Admitted conn host)
  have "handler_ok (Prepared host (log_it e (new_session conn now fs art cfg)))" for e art cfg
    by (simp add: prompt_inv_log prompt_inv_new)
  moreover have "s_trace (log_it e (new_session conn now fs art cfg)) = [Logged e]" for e art cfg
    by (simp add: log_it_def new_session_def)
  ultimately show ?thesis
    unfolding Admitted handler_step.simps Let_def
    by (intro server_inv_put [OF inv h])
      (use Admitted not_registered [OF inv h] server_inv_simps [OF inv] in \<open>auto simp: neutral_log\<close>)
next
  case (Prepared host sess)
  then have "prompt_inv sess" using handler_known [OF inv h] by simp
  then show ?thesis
    unfolding Prepared handler_step.simps
    by (intro server_inv_put [OF inv h])
      (use Prepared server_inv_simps [OF inv] in \<open>auto simp: prompt_inv_def\<close>)
next
  case (Listed host sess)
  then have "phase_inv (begin_session sess)" using handler_known [OF inv h] begin_closed by simp
  then show ?thesis
    unfolding Listed handler_step.simps
    by (intro server_inv_put [OF inv h])
      (use Listed registered_listed [OF inv h] server_inv_simps [OF inv]
        in \<open>auto simp: neutral_emits [OF emits_begin] gauges_calls\<close>)
next
  case (Running host started p)
  show ?thesis
  proof (cases "\<exists>sess. p = Gone sess")
    case True
    then obtain sess where p: "p = Gone sess" by blast
    show ?thesis
      unfolding Running p handler_step.simps
      by (intro server_inv_put [OF inv h])
        (use Running p registered_listed [OF inv h] handler_known [OF inv h] server_inv_simps [OF inv]
          in \<open>auto simp: gauges_calls\<close>)
  next
    case False
    then have "handler_step iter now fs l n h s = (case l of Stop \<Rightarrow> s | _ \<Rightarrow> put_handler n (Running host started (session_step p l)) s)"
      by (cases p) (auto simp: Running)
    then show ?thesis using inv server_inv_running [OF inv h [unfolded Running]] by (simp split: label.split)
  qed
next
  case (Ended host sess)
  then show ?thesis
    unfolding Ended handler_step.simps
    by (intro server_inv_put [OF inv h])
      (use Ended handler_known [OF inv h] server_inv_simps [OF inv] in auto)
next
  case (Unlisted host sess)
  let ?h = "Unlisted host (log_it (disconnected_event (s_logger sess)) sess)"
  let ?s = "put_handler n ?h s"
  have s: "server_inv ?s"
    by (rule server_inv_put [OF inv h])
      (use Unlisted handler_known [OF inv h] not_registered [OF inv h] server_inv_simps [OF inv]
        in \<open>auto simp: log_it_def neutral_log\<close>)
  have m: "map_of (sv_handlers ?s) n = Some ?h" by (simp add: handler_update)
  have "host \<in># tracker_line (sv_tracker s)" using place_on_line [OF inv h] by (simp add: Unlisted)
  note r = tracker_line_remove [OF server_inv_simps(1) [OF inv] this]
  have "server_inv (drop_handler n (?s\<lparr>sv_tracker := tracker_remove host (sv_tracker s)\<rparr>))"
    by (rule server_inv_drop [OF s m]) (use r server_inv_simps [OF s] in simp_all)
  moreover have "put_handler n ?h (s\<lparr>sv_tracker := tracker_remove host (sv_tracker s)\<rparr>)
      = ?s\<lparr>sv_tracker := tracker_remove host (sv_tracker s)\<rparr>"
    by (simp add: put_handler_def report_effects_def)
  ultimately show ?thesis by (simp add: Unlisted)
qed

lemma close_handler_ok [simp]:
  "registered (close_handler h) = registered h" "holds_place (close_handler h) = holds_place h"
  "active (close_handler h) = active h"
  by (cases h; simp)+

lemma session_close_ok: "session_inv s \<Longrightarrow> session_inv (session_close s) \<and> state (s_modem (session_close s)) = StateCommand"
  by (simp add: session_inv_close)

lemma close_handler_keeps: "handler_ok h \<Longrightarrow> handler_ok (close_handler h)"
  by (cases h) (simp_all add: session_close_ok phase_inv_step)

lemma close_handler_neutral: "neutral (drop (length (handler_trace (Some h))) (handler_trace (Some (close_handler h))))"
  by (cases h) (simp_all add: neutral_emits [OF emits_close] neutral_emits [OF emits_step [OF refl]])

lemma server_inv_close:
  assumes "server_inv s" and "sv_done s"
  shows "server_inv (close_session n s) \<and> sv_done (close_session n s)"
proof (cases "map_of (sv_handlers s) n")
  case None
  then show ?thesis using assms by (simp add: close_session_def)
next
  case (Some h)
  have "n \<in> set (sv_sessions s) \<Longrightarrow> registered h"
    using assms(1) Some by (auto simp: server_inv_def sessions_inv_def known_def)
  then have "server_inv (put_handler n (close_handler h) s)"
    by (intro server_inv_put [OF assms(1) Some])
      (use assms Some handler_known [OF assms(1) Some] server_inv_simps [OF assms(1)]
        in \<open>auto simp: close_handler_keeps close_handler_neutral\<close>)
  then show ?thesis using Some assms(2) by (simp add: close_session_def)
qed

lemma server_inv_close_all:
  "server_inv s \<Longrightarrow> sv_done s \<Longrightarrow>
     server_inv (foldl (\<lambda>s n. close_session n s) s ns) \<and> sv_done (foldl (\<lambda>s n. close_session n s) s ns)"
  by (induction ns arbitrary: s) (simp_all add: server_inv_close)

lemma server_inv_cong:
  assumes "server_inv s"
    and "sv_handlers t = sv_handlers s" "sv_next t = sv_next s" "sv_sessions t = sv_sessions s" "sv_done s \<longrightarrow> sv_done t"
    and "sv_metrics t = sv_metrics s" "tracker_inv (sv_tracker t)" "tracker_line (sv_tracker t) = tracker_line (sv_tracker s)"
  shows "server_inv t"
  using assms by (auto simp: server_inv_def server_pieces)

lemma server_inv_other [simp]:
  "server_inv (s\<lparr>sv_reload := rl\<rparr>) = server_inv s" "server_inv (s\<lparr>sv_limiter := r\<rparr>) = server_inv s"
  "server_inv (s\<lparr>sv_listener := li\<rparr>) = server_inv s" "server_inv (s\<lparr>sv_accept := a\<rparr>) = server_inv s"
  "server_inv (server_log e s) = server_inv s"
  by (simp_all add: server_inv_def server_pieces server_log_def)

lemma server_inv_stop:
  assumes "server_inv s"
  shows "server_inv (stop_server s)"
proof -
  let ?s1 = "s\<lparr>sv_done := True, sv_listener := (case sv_listener s of NotListening \<Rightarrow> NotListening | _ \<Rightarrow> ListenerClosed)\<rparr>"
  let ?s2 = "foldl (\<lambda>s n. close_session n s) ?s1 (sv_sessions s)"
  have "server_inv ?s1"
    by (rule server_inv_cong [OF assms]) (use server_inv_simps [OF assms] in simp_all)
  then have "server_inv ?s2" "sv_done ?s2" using server_inv_close_all [of ?s1] by simp_all
  then show ?thesis by (simp add: stop_server_def server_inv_def server_pieces)
qed

lemma server_inv_accept:
  assumes "server_inv s"
  shows "server_inv (accept_step r wait_ok s)"
proof (cases "sv_accept s = InAccept \<and> wait_ok \<and> (\<exists>conn. r = Accepted conn)")
  case True
  then obtain conn where r: "r = Accepted conn" by blast
  let ?n = "sv_next s"
  have new: "?n \<notin> fst ` set (sv_handlers s)" using assms by (auto simp: server_inv_def ids_inv_def)
  then have "map_of (sv_handlers s) ?n = None" by (simp add: map_of_eq_None_iff)
  then have "known ((?n, Arrived conn) # sv_handlers s) registered = known (sv_handlers s) registered"
    by (auto simp: known_def)
  then show ?thesis
    using True r new assms
    by (auto simp: accept_step_def Let_def server_inv_def server_pieces less_Suc_eq)
next
  case False
  then have "sv_handlers (accept_step r wait_ok s) = sv_handlers s \<and> sv_sessions (accept_step r wait_ok s) = sv_sessions s
      \<and> sv_done (accept_step r wait_ok s) = sv_done s \<and> sv_metrics (accept_step r wait_ok s) = sv_metrics s
      \<and> sv_tracker (accept_step r wait_ok s) = sv_tracker s \<and> sv_next s \<le> sv_next (accept_step r wait_ok s)"
    by (auto simp: accept_step_def Let_def split: accept_state.split accept_result.split)
  then show ?thesis using assms by (fastforce simp: server_inv_def server_pieces)
qed

lemma tracker_line_limits [simp]:
  "tracker_line (ct_set_limits a b c) = tracker_line c" "tracker_line (ct_set_trusted nets c) = tracker_line c"
  by (simp_all add: tracker_line_def ct_set_limits_def ct_set_trusted_def)

lemma reload_step_frame:
  "sv_handlers (reload_step op cfg s) = sv_handlers s" "sv_next (reload_step op cfg s) = sv_next s"
  "sv_sessions (reload_step op cfg s) = sv_sessions s" "sv_done (reload_step op cfg s) = sv_done s"
  "sv_metrics (reload_step op cfg s) = sv_metrics s"
  by (cases op; simp add: Let_def)+

lemma server_inv_reload:
  assumes "server_inv s"
  shows "server_inv (next_reload_step s)"
proof -
  have "server_inv ((reload_step op cfg s)\<lparr>sv_reload := x\<rparr>)" for op cfg x
  proof (rule server_inv_cong [OF assms])
    have "tracker_inv (sv_tracker (reload_step op cfg s)) \<and> tracker_line (sv_tracker (reload_step op cfg s)) = tracker_line (sv_tracker s)"
      using server_inv_simps [OF assms] by (cases op) (auto simp: Let_def intro: inv_intros)
    then show "tracker_inv (sv_tracker ((reload_step op cfg s)\<lparr>sv_reload := x\<rparr>))"
      "tracker_line (sv_tracker ((reload_step op cfg s)\<lparr>sv_reload := x\<rparr>)) = tracker_line (sv_tracker s)" by simp_all
  qed (simp_all add: reload_step_frame)
  then show ?thesis using assms by (auto simp: next_reload_step_def split: option.split list.split)
qed

lemma server_inv_step:
  assumes "server_inv s"
  shows "server_inv (server_step iter s l)"
proof (cases l)
  case (BeginReload cfg)
  then show ?thesis using assms by (simp add: begin_reload_def)
next
  case (LimiterTick now)
  then show ?thesis using assms by simp
next
  case (Handle n now fs l)
  then show ?thesis using assms server_inv_handler_step by (simp add: handle_step_def split: option.split)
qed (use assms in \<open>simp_all add: server_inv_accept server_inv_reload server_inv_stop\<close>)

interpretation server_runs: invariant_system "server_step iter" "server_run iter" server_inv for iter
  by unfold_locales (simp_all add: server_run_def server_inv_step)

lemmas server_inv_run = server_runs.inv_run

lemma server_inv_new: "gauges m 0 \<Longrightarrow> server_inv (new_server cfg level m now)"
  by (auto simp: server_inv_def server_pieces new_server_def Let_def tracker_inv_new known_def tracker_line_def
      ct_set_trusted_def new_connection_tracker_def tracker_inv_def positive_counts_def)

lemma server_inv_start: "server_inv s \<Longrightarrow> start_server listen s = Inr t \<Longrightarrow> server_inv t"
  by (cases listen) (auto simp: start_server_def Let_def)

end
