(* ===== verification/ServerRuns.thy ===== *)
theory ServerRuns
  imports ServerFacts RateHistories
begin

section \<open>Runs of the server\<close>

subsection \<open>The server as main starts it\<close>

definition serving :: "config \<Rightarrow> log_level \<Rightarrow> metrics option \<Rightarrow> time \<Rightarrow> server" where
  "serving cfg level m now = projr (start_server None (new_server cfg level m now))"

lemma serving_start: "start_server None (new_server cfg level m now) = Inr (serving cfg level m now)"
  by (simp add: serving_def start_server_def Let_def)

lemma server_inv_serving: "gauges m 0 \<Longrightarrow> server_inv (serving cfg level m now)"
  using server_inv_start [OF server_inv_new serving_start] .

lemma serving_fields [simp]:
  "sv_config (serving cfg level m now) = cfg" "sv_reload (serving cfg level m now) = None"
  "sv_handlers (serving cfg level m now) = []" "\<not> sv_done (serving cfg level m now)"
  "sv_limiter (serving cfg level m now) = sv_limiter (new_server cfg level m now)"
  "sv_tracker (serving cfg level m now) = sv_tracker (new_server cfg level m now)"
  by (simp_all add: serving_def start_server_def Let_def new_server_def)

lemmas server_run_snoc = server_runs.run_snoc and server_run_append = server_runs.run_append

lemmas server_run_simps [simp] = server_runs.run_Nil server_runs.run_Cons

lemma fresh_gauges: "gauges (Some new_metrics) 0"
  by (simp add: gauges_def new_metrics_def)

subsection \<open>The limiter sees the connections\<close>

fun limiter_events :: "server \<Rightarrow> server_label \<Rightarrow> rl_event list" where
  "limiter_events s (Handle n now fs l) =
     (case map_of (sv_handlers s) n of Some (Arrived conn) \<Rightarrow> [Attempt (peer_host (cn_addr conn)) now] | _ \<Rightarrow> [])"
| "limiter_events s (LimiterTick now) = (if sv_done s then [] else [Tick now])"
| "limiter_events s ReloadStep =
     (case sv_reload s of
        Some (cfg, SetRateLimits # ops) \<Rightarrow>
          [Limits (rlc_enabled (cfg_rate_limit cfg)) (rlc_max_attempts (cfg_rate_limit cfg))
            (rl_get_window (cfg_rate_limit cfg)) (rl_get_block_duration (cfg_rate_limit cfg))]
      | Some (cfg, SetRateTrusted # ops) \<Rightarrow> [Trust (srv_parsed_trusted (cfg_server cfg))]
      | _ \<Rightarrow> [])"
| "limiter_events s _ = []"

text \<open>The connections the limiter lets pass, with the time.\<close>

fun passes :: "attempt_order \<Rightarrow> server \<Rightarrow> server_label \<Rightarrow> (string \<times> time) list" where
  "passes iter s (Handle n now fs l) =
     (case map_of (sv_handlers s) n of
        Some (Arrived conn) \<Rightarrow>
          (case map_of (sv_handlers (server_step iter s (Handle n now fs l))) n of
             Some (Passed conn' host) \<Rightarrow> [(host, now)]
           | _ \<Rightarrow> [])
      | _ \<Rightarrow> [])"
| "passes iter s _ = []"

fun run_limiter_events :: "attempt_order \<Rightarrow> server \<Rightarrow> server_label list \<Rightarrow> rl_event list" where
  "run_limiter_events iter s [] = []"
| "run_limiter_events iter s (l # ls) = limiter_events s l @ run_limiter_events iter (server_step iter s l) ls"

fun run_passes :: "attempt_order \<Rightarrow> server \<Rightarrow> server_label list \<Rightarrow> (string \<times> time) list" where
  "run_passes iter s [] = []"
| "run_passes iter s (l # ls) = passes iter s l @ run_passes iter (server_step iter s l) ls"

lemma close_session_limiter [simp]: "sv_limiter (close_session n s) = sv_limiter s"
  by (simp add: close_session_def split: option.split)

lemma close_all_limiter [simp]: "sv_limiter (foldl (\<lambda>s n. close_session n s) s ns) = sv_limiter s"
  by (induction ns arbitrary: s) simp_all

lemma accept_step_limiter [simp]: "sv_limiter (accept_step r ok s) = sv_limiter s"
  by (auto simp: accept_step_def Let_def server_log_def split: accept_state.split accept_result.split)

lemma handler_step_limiter:
  "sv_limiter (handler_step iter now fs l n h s) =
     (case h of Arrived conn \<Rightarrow> snd (allow iter now (peer_host (cn_addr conn)) (sv_limiter s)) | _ \<Rightarrow> sv_limiter s)"
  by (cases "(iter, now, fs, l, n, h, s)" rule: handler_step.cases) (auto simp: Let_def split: prod.split bool.split label.split)

lemma limiter_step:
  "sv_limiter (server_step iter s l) = foldl (rl_step iter) (sv_limiter s) (limiter_events s l)"
proof (cases l)
  case (Handle n now fs l)
  then show ?thesis
    by (auto simp: handle_step_def handler_step_limiter split: option.split handler.split)
next
  case ReloadStep
  then show ?thesis
    by (auto simp: next_reload_step_def Let_def split: option.split list.split reload_op.split)
qed (simp_all add: begin_reload_def stop_server_def Let_def)

lemma passes_allow:
  assumes "ids_inv s"
  shows "passes iter s l = accepted iter (sv_limiter s) (limiter_events s l)"
proof (cases l)
  case (Handle n now fs l)
  show ?thesis
  proof (cases "\<exists>conn. map_of (sv_handlers s) n = Some (Arrived conn)")
    case True
    then obtain conn where h: "map_of (sv_handlers s) n = Some (Arrived conn)" by blast
    then show ?thesis
      by (cases "allow iter now (peer_host (cn_addr conn)) (sv_limiter s)")
        (auto simp: Handle handle_step_def Let_def handler_update handler_delete split: bool.split)
  qed (auto simp: Handle split: option.split handler.split)
next
  case ReloadStep
  then show ?thesis by (auto split: option.split list.split reload_op.split)
qed simp_all

lemma accepted_append: "accepted iter r (xs @ ys) = accepted iter r xs @ accepted iter (foldl (rl_step iter) r xs) ys"
  by (induction xs arbitrary: r) simp_all

lemma run_refines_limiter:
  "server_inv s \<Longrightarrow> run_passes iter s ls = accepted iter (sv_limiter s) (run_limiter_events iter s ls)
     \<and> sv_limiter (server_run iter s ls) = rl_run iter (sv_limiter s) (run_limiter_events iter s ls)"
proof (induction ls arbitrary: s)
  case (Cons l ls)
  note ih = Cons.IH [OF server_inv_step [OF Cons.prems, of iter l]]
  have "ids_inv s" using Cons.prems by (simp add: server_inv_def)
  then show ?case using ih by (simp add: passes_allow accepted_append limiter_step rl_run_def)
qed (simp add: rl_run_def)

subsection \<open>Refused connections\<close>

definition refused :: "server \<Rightarrow> nat \<Rightarrow> bool" where
  "refused s n \<longleftrightarrow> CloseRefused n \<in> set (sv_trace s)"

definition called :: "server \<Rightarrow> nat \<Rightarrow> bool" where
  "called s n \<longleftrightarrow> (\<exists>e. Call n e \<in> set (sv_trace s))"

definition refused_inv :: "server \<Rightarrow> bool" where
  "refused_inv s \<longleftrightarrow> (\<forall>n. (refused s n \<longrightarrow> map_of (sv_handlers s) n = None \<and> n < sv_next s \<and> \<not> called s n)
     \<and> (called s n \<longrightarrow> n < sv_next s \<and> (\<forall>h. map_of (sv_handlers s) n = Some h \<longrightarrow> handler_session h \<noteq> None)))"

lemma refused_put:
  "refused (put_handler n h s) k \<longleftrightarrow> refused s k"
  "called (put_handler n h s) k \<Longrightarrow> called s k \<or> k = n \<and> handler_session h \<noteq> None"
  by (auto simp: refused_def called_def put_handler_def report_effects_def handler_trace_def
      dest: in_set_dropD split: option.splits)

lemma refused_small [simp]:
  "refused (count_metric c s) = refused s" "called (count_metric c s) = called s"
  "refused (server_log e s) = refused s" "called (server_log e s) = called s"
  "refused (drop_handler n s) = refused s" "called (drop_handler n s) = called s"
  by (auto simp: refused_def called_def server_log_def fun_eq_iff)

lemma refused_refuse:
  "refused (refuse n reason e s) k \<longleftrightarrow> refused s k \<or> k = n" "called (refuse n reason e s) k \<longleftrightarrow> called s k"
  by (auto simp: refuse_def refused_def called_def server_log_def drop_handler_def count_metric_def)

lemma refused_inv_put:
  assumes "refused_inv s" and "ids_inv s" and h: "map_of (sv_handlers s) n = Some h"
    and "handler_session h \<noteq> None \<longrightarrow> handler_session h' \<noteq> None"
    and u: "sv_handlers u = sv_handlers s" "sv_next u = sv_next s" "refused u = refused s" "called u = called s"
  shows "refused_inv (put_handler n h' u)"
  unfolding refused_inv_def
proof (intro allI conjI impI)
  fix k
  note r = assms(1) [unfolded refused_inv_def, rule_format, of k]
  have n: "n < sv_next s" using assms(2) h map_of_SomeD [OF h] by (force simp: ids_inv_def)
  { assume a: "refused (put_handler n h' u) k"
    then have k: "map_of (sv_handlers s) k = None \<and> k < sv_next s \<and> \<not> called s k" using r u by (simp add: refused_put)
    moreover have "k \<noteq> n" using k h by auto
    ultimately show "map_of (sv_handlers (put_handler n h' u)) k = None" "k < sv_next (put_handler n h' u)"
      "\<not> called (put_handler n h' u) k"
      using u refused_put(2) [of n h' u k] by (auto simp: handler_update) }
  assume c: "called (put_handler n h' u) k"
  then show "k < sv_next (put_handler n h' u)" using refused_put(2) [OF c] r n u by auto
  fix h1
  assume "map_of (sv_handlers (put_handler n h' u)) k = Some h1"
  then show "handler_session h1 \<noteq> None"
    using refused_put(2) [OF c] r u h assms(4) by (auto simp: handler_update split: if_splits)
qed

lemma refused_inv_refuse:
  assumes "refused_inv s" and "ids_inv s" and h: "map_of (sv_handlers s) n = Some h" and "handler_session h = None"
    and u: "sv_handlers u = sv_handlers s" "sv_next u = sv_next s" "refused u = refused s" "called u = called s"
  shows "refused_inv (refuse n reason e u)"
proof -
  have "n < sv_next s" using assms(2) map_of_SomeD [OF h] by (force simp: ids_inv_def)
  moreover have "\<not> called s n" using assms(1,4) h by (auto simp: refused_inv_def)
  ultimately show ?thesis using assms(1) u by (auto simp: refused_inv_def refused_refuse handler_delete)
qed

lemma refused_inv_drop:
  assumes "refused_inv s" and "ids_inv s" and h: "map_of (sv_handlers s) n = Some h"
  shows "refused_inv (drop_handler n s)"
  using assms(1) by (auto simp: refused_inv_def handler_delete)

lemma refused_updates [simp]:
  "refused (s\<lparr>sv_limiter := r\<rparr>) = refused s" "called (s\<lparr>sv_limiter := r\<rparr>) = called s"
  "refused (s\<lparr>sv_tracker := c\<rparr>) = refused s" "called (s\<lparr>sv_tracker := c\<rparr>) = called s"
  "refused (s\<lparr>sv_sessions := ns\<rparr>) = refused s" "called (s\<lparr>sv_sessions := ns\<rparr>) = called s"
  "refused (s\<lparr>sv_reload := rl\<rparr>) = refused s" "called (s\<lparr>sv_reload := rl\<rparr>) = called s"
  "refused (s\<lparr>sv_accept := a\<rparr>) = refused s" "called (s\<lparr>sv_accept := a\<rparr>) = called s"
  "refused (s\<lparr>sv_done := d, sv_listener := li\<rparr>) = refused s" "called (s\<lparr>sv_done := d, sv_listener := li\<rparr>) = called s"
  by (simp_all add: refused_def called_def fun_eq_iff)

lemma refused_inv_same:
  "refused_inv s \<Longrightarrow> sv_handlers t = sv_handlers s \<Longrightarrow> sv_next t = sv_next s \<Longrightarrow> refused t = refused s \<Longrightarrow>
     called t = called s \<Longrightarrow> refused_inv t"
  by (simp add: refused_inv_def)

lemma refused_inv_handler_step:
  assumes inv: "refused_inv s" "ids_inv s" and h: "map_of (sv_handlers s) n = Some h"
  shows "refused_inv (handler_step iter now fs l n h s)"
proof (cases h)
  case (Arrived conn)
  show ?thesis
    by (auto simp: Arrived Let_def split: prod.split bool.split
        intro!: refused_inv_put [OF inv h] refused_inv_refuse [OF inv h])
next
  case (Passed conn host)
  show ?thesis
    by (auto simp: Passed split: prod.split bool.split
        intro!: refused_inv_put [OF inv h] refused_inv_refuse [OF inv h])
next
  case (Running host started p)
  show ?thesis
    using inv by (cases p) (auto simp: Running split: label.split intro!: refused_inv_put [OF inv h])
next
  case (Unlisted host sess)
  let ?t = "put_handler n (Unlisted host (log_it (disconnected_event (s_logger sess)) sess))
      (s\<lparr>sv_tracker := tracker_remove host (sv_tracker s)\<rparr>)"
  have "refused_inv ?t" by (rule refused_inv_put [OF inv h]) simp_all
  moreover have "ids_inv ?t" by (rule ids_inv_update [OF inv(2) h]) simp_all
  moreover have "map_of (sv_handlers ?t) n \<noteq> None" by (simp add: handler_update)
  ultimately show ?thesis using refused_inv_drop [of ?t n] by (auto simp: Unlisted)
qed (auto simp: Let_def intro!: refused_inv_put [OF inv h])

lemma close_handler_session: "handler_session h \<noteq> None \<Longrightarrow> handler_session (close_handler h) \<noteq> None"
  by (cases h) simp_all

lemma ids_inv_close: "ids_inv s \<Longrightarrow> ids_inv (close_session n s)"
  by (auto simp: close_session_def intro: ids_inv_update split: option.split)

lemma refused_inv_close_all:
  "refused_inv s \<Longrightarrow> ids_inv s \<Longrightarrow>
     refused_inv (foldl (\<lambda>s n. close_session n s) s ns) \<and> ids_inv (foldl (\<lambda>s n. close_session n s) s ns)"
proof (induction ns arbitrary: s)
  case (Cons n ns)
  have "refused_inv (close_session n s)"
    using Cons.prems
    by (auto simp: close_session_def split: option.split intro!: refused_inv_put close_handler_session)
  then show ?case using Cons ids_inv_close by simp
qed simp

lemma refused_inv_step:
  assumes "refused_inv s" and "ids_inv s"
  shows "refused_inv (server_step iter s l)"
proof (cases l)
  case (Accept r ok)
  have "map_of (sv_handlers s) (sv_next s) = None" using assms(2) by (fastforce simp: ids_inv_def map_of_eq_None_iff)
  moreover have "\<not> called s (sv_next s)" "\<not> refused s (sv_next s)" using assms(1) by (auto simp: refused_inv_def)
  ultimately show ?thesis
    using assms(1)
    by (auto simp: Accept accept_step_def Let_def refused_inv_def server_log_def split: accept_state.split accept_result.split)
      (auto simp: refused_def called_def less_Suc_eq)
next
  case (Handle n now fs l)
  then show ?thesis using assms refused_inv_handler_step by (simp add: handle_step_def split: option.split)
next
  case (LimiterTick now)
  then show ?thesis using assms(1) by (auto intro: refused_inv_same)
next
  case (BeginReload cfg)
  then show ?thesis using assms(1) by (auto simp: begin_reload_def intro: refused_inv_same)
next
  case ReloadStep
  have "refused (reload_step op cfg s) = refused s \<and> called (reload_step op cfg s) = called s" for op cfg
    by (cases op) (simp_all add: Let_def refused_def called_def fun_eq_iff)
  then show ?thesis
    using assms(1) ReloadStep
    by (auto simp: next_reload_step_def reload_step_frame split: option.split list.split intro: refused_inv_same)
next
  case StopServer
  let ?s1 = "s\<lparr>sv_done := True, sv_listener := (case sv_listener s of NotListening \<Rightarrow> NotListening | _ \<Rightarrow> ListenerClosed)\<rparr>"
  have "refused_inv ?s1" by (rule refused_inv_same [OF assms(1)]) simp_all
  moreover have "ids_inv ?s1" using assms(2) by (simp add: ids_inv_def)
  ultimately have "refused_inv (foldl (\<lambda>s n. close_session n s) ?s1 (sv_sessions s))"
    using refused_inv_close_all by blast
  then have "refused_inv (stop_server s)"
    unfolding stop_server_def Let_def by (rule refused_inv_same) simp_all
  then show ?thesis using assms(1) StopServer by simp
qed

lemma refused_inv_run:
  "refused_inv s \<Longrightarrow> server_inv s \<Longrightarrow> refused_inv (server_run iter s ls)"
  by (rule server_runs.run_keeps_under) (simp_all add: refused_inv_step server_inv_def)

lemma refused_inv_serving: "refused_inv (serving cfg level m now)"
  by (simp add: refused_inv_def refused_def called_def serving_def start_server_def Let_def new_server_def server_log_def)

subsection \<open>The configuration of a call\<close>

definition call_config :: "server \<Rightarrow> nat \<Rightarrow> config option" where
  "call_config s n = map_option s_config (Option.bind (map_of (sv_handlers s) n) handler_session)"

text \<open>A call's configuration, once it has one, is that one until the call is over.\<close>

definition config_kept :: "nat \<Rightarrow> config \<Rightarrow> server \<Rightarrow> bool" where
  "config_kept n cfg s \<longleftrightarrow> n < sv_next s \<and> (map_of (sv_handlers s) n = None \<or> call_config s n = Some cfg)"

lemma call_config_update:
  "sv_handlers t = AList.update k h (sv_handlers s) \<Longrightarrow>
     call_config t n = (if n = k then map_option s_config (handler_session h) else call_config s n)"
  by (simp add: call_config_def handler_update)

lemma call_config_delete:
  "sv_handlers t = AList.delete k (sv_handlers s) \<Longrightarrow> call_config t n = (if n = k then None else call_config s n)"
  by (simp add: call_config_def handler_delete)

lemma config_kept_put:
  assumes "config_kept n cfg s" and h: "map_of (sv_handlers s) k = Some h"
    and "sv_handlers u = sv_handlers s" "sv_next u = sv_next s"
    and "k = n \<Longrightarrow> map_option s_config (handler_session h) = Some cfg \<Longrightarrow> map_option s_config (handler_session h') = Some cfg"
  shows "config_kept n cfg (put_handler k h' u)"
  using assms by (auto simp: config_kept_def call_config_def handler_update)

lemma config_kept_delete:
  "config_kept n cfg s \<Longrightarrow> sv_handlers t = AList.delete k (sv_handlers s) \<Longrightarrow> sv_next t = sv_next s \<Longrightarrow> config_kept n cfg t"
  by (auto simp: config_kept_def call_config_def handler_delete)

lemma config_kept_same:
  "config_kept n cfg s \<Longrightarrow> sv_handlers t = sv_handlers s \<Longrightarrow> sv_next t = sv_next s \<Longrightarrow> config_kept n cfg t"
  by (simp add: config_kept_def call_config_def)

lemma config_kept_handler_step:
  assumes k: "config_kept n cfg s" and h: "map_of (sv_handlers s) i = Some h"
  shows "config_kept n cfg (handler_step iter now fs l i h s)"
proof (cases h)
  case (Arrived conn)
  have "config_kept n cfg (refuse i reason e (s\<lparr>sv_limiter := r\<rparr>))"
    "config_kept n cfg (put_handler i (Passed conn host) (s\<lparr>sv_limiter := r\<rparr>))" for reason e r host
    by (rule config_kept_delete [OF k], simp_all) (rule config_kept_put [OF k h], simp_all add: Arrived)
  then show ?thesis by (simp add: Arrived Let_def split: prod.split bool.split)
next
  case (Passed conn host)
  have "config_kept n cfg (refuse i reason e (s\<lparr>sv_tracker := c\<rparr>))"
    "config_kept n cfg (put_handler i (Admitted conn host) (s\<lparr>sv_tracker := c\<rparr>))" for reason e c
    by (rule config_kept_delete [OF k], simp_all) (rule config_kept_put [OF k h], simp_all add: Passed)
  then show ?thesis by (simp add: Passed split: prod.split bool.split)
next
  case (Running host started p)
  then show ?thesis
    using k by (cases p) (auto simp: config_prompt_step config_step [of "InCall d" "Bridge t" for d t, simplified]
        split: label.split intro!: config_kept_put [OF k h])
next
  case (Unlisted host sess)
  then show ?thesis
    unfolding Unlisted handler_step.simps
    by (intro config_kept_delete [OF config_kept_put [OF k h]]) (use Unlisted in \<open>auto simp: log_it_def\<close>)
next
  case (Admitted conn host)
  then show ?thesis by (auto simp: Let_def intro!: config_kept_put [OF k h])
next
  case (Prepared host sess)
  show ?thesis using k h unfolding Prepared handler_step.simps by (auto intro!: config_kept_put)
next
  case (Listed host sess)
  show ?thesis using k h unfolding Listed handler_step.simps by (auto simp: config_begin intro!: config_kept_put)
next
  case (Ended host sess)
  show ?thesis using k h unfolding Ended handler_step.simps by (auto intro!: config_kept_put)
qed

lemma close_handler_config: "map_option s_config (handler_session (close_handler h)) = map_option s_config (handler_session h)"
  by (cases h) (simp_all add: config_step)

lemma config_kept_close_all: "config_kept n cfg s \<Longrightarrow> config_kept n cfg (foldl (\<lambda>s n. close_session n s) s ns)"
proof (induction ns arbitrary: s)
  case (Cons i ns)
  have "config_kept n cfg (close_session i s)"
  proof (cases "map_of (sv_handlers s) i")
    case (Some h)
    then show ?thesis
      using config_kept_put [OF Cons.prems Some, of s "close_handler h"] close_handler_config
      by (simp add: close_session_def)
  qed (use Cons.prems in \<open>simp add: close_session_def\<close>)
  then show ?case using Cons.IH by simp
qed simp

lemma config_kept_step:
  assumes "config_kept n cfg s"
  shows "config_kept n cfg (server_step iter s l)"
proof (cases l)
  case (Accept r ok)
  then show ?thesis
    using assms by (auto simp: accept_step_def Let_def config_kept_def call_config_def split: accept_state.split accept_result.split)
next
  case (Handle i now fs l)
  then show ?thesis using assms config_kept_handler_step by (simp add: handle_step_def split: option.split)
next
  case ReloadStep
  then show ?thesis
    using assms by (auto simp: next_reload_step_def reload_step_frame split: option.split list.split intro: config_kept_same)
next
  case StopServer
  have "config_kept n cfg (s\<lparr>sv_done := True, sv_listener := (case sv_listener s of NotListening \<Rightarrow> NotListening | _ \<Rightarrow> ListenerClosed)\<rparr>)"
    using assms by (rule config_kept_same) simp_all
  then have "config_kept n cfg (stop_server s)"
    unfolding stop_server_def Let_def by (rule config_kept_same [OF config_kept_close_all]) simp_all
  then show ?thesis using assms StopServer by simp
qed (use assms in \<open>auto simp: begin_reload_def intro: config_kept_same\<close>)

lemma config_kept_run: "config_kept n cfg s \<Longrightarrow> config_kept n cfg (server_run iter s ls)"
  by (rule server_runs.run_keeps) (rule config_kept_step)

subsection \<open>A reload in progress\<close>

text \<open>The setting a step of \<open>Reload\<close> sets is that of a configuration.\<close>

fun in_force :: "config \<Rightarrow> server \<Rightarrow> reload_op \<Rightarrow> bool" where
  "in_force cfg s SetRateLimits =
     (let rc = cfg_rate_limit cfg; r = sv_limiter s in
      rl_enabled r = rlc_enabled rc \<and> maxAttempts r = rlc_max_attempts rc \<and> rl_window r = rl_get_window rc
      \<and> blockDuration r = rl_get_block_duration rc)"
| "in_force cfg s SetRateTrusted = (rl_trusted (sv_limiter s) = srv_parsed_trusted (cfg_server cfg))"
| "in_force cfg s SetCeilings =
     (maxTotal (sv_tracker s) = srv_max_connections (cfg_server cfg) \<and> maxPerIP (sv_tracker s) = srv_max_per_ip (cfg_server cfg))"
| "in_force cfg s SetConnTrusted = (ct_trusted (sv_tracker s) = srv_parsed_trusted (cfg_server cfg))"
| "in_force cfg s SetArtDir = (sv_art s = set_art_dir (srv_banner_dir (cfg_server cfg)))"
| "in_force cfg s SetLogLevel = (sv_level s = parse_level (lgc_level (cfg_logging cfg)))"
| "in_force cfg s StoreConfig = (sv_config s = cfg)"

definition consistent :: "server \<Rightarrow> bool" where
  "consistent s \<longleftrightarrow>
     (case sv_reload s of
        None \<Rightarrow> (\<forall>op \<in> set reload_ops. in_force (sv_config s) s op)
      | Some (cfg, ops) \<Rightarrow> ops \<noteq> [] \<and> (\<exists>applied. reload_ops = applied @ ops
            \<and> (\<forall>op \<in> set applied. in_force cfg s op) \<and> (\<forall>op \<in> set ops. in_force (sv_config s) s op)))"

lemma in_force_cong:
  assumes "sv_level t = sv_level s" "sv_art t = sv_art s" "sv_config t = sv_config s"
    "maxTotal (sv_tracker t) = maxTotal (sv_tracker s)" "maxPerIP (sv_tracker t) = maxPerIP (sv_tracker s)"
    "ct_trusted (sv_tracker t) = ct_trusted (sv_tracker s)"
    "rl_enabled (sv_limiter t) = rl_enabled (sv_limiter s)" "maxAttempts (sv_limiter t) = maxAttempts (sv_limiter s)"
    "rl_window (sv_limiter t) = rl_window (sv_limiter s)" "blockDuration (sv_limiter t) = blockDuration (sv_limiter s)"
    "rl_trusted (sv_limiter t) = rl_trusted (sv_limiter s)"
  shows "in_force cfg t = in_force cfg s"
proof
  show "in_force cfg t op = in_force cfg s op" for op using assms by (cases op) (simp_all add: Let_def)
qed

definition settings :: "server \<Rightarrow> (log_level \<times> string \<times> config) \<times> (int \<times> int \<times> ip_net list)
    \<times> (bool \<times> int \<times> duration \<times> duration \<times> ip_net list)" where
  "settings s =
     ((sv_level s, sv_art s, sv_config s),
      (maxTotal (sv_tracker s), maxPerIP (sv_tracker s), ct_trusted (sv_tracker s)),
      (rl_enabled (sv_limiter s), maxAttempts (sv_limiter s), rl_window (sv_limiter s), blockDuration (sv_limiter s),
       rl_trusted (sv_limiter s)))"

lemma consistent_cong:
  assumes "settings t = settings s" and "sv_reload t = sv_reload s"
  shows "consistent t = consistent s"
proof -
  have f: "in_force cfg t = in_force cfg s" for cfg
    by (rule in_force_cong) (use assms(1) in \<open>simp_all add: settings_def\<close>)
  have "sv_config t = sv_config s" using assms(1) by (simp add: settings_def)
  then show ?thesis using assms(2) by (simp add: consistent_def f split: option.split)
qed

lemma tracker_settings [simp]:
  "maxTotal (tracker_remove ip c) = maxTotal c" "maxPerIP (tracker_remove ip c) = maxPerIP c"
  "ct_trusted (tracker_remove ip c) = ct_trusted c"
  by (simp_all add: tracker_remove_def Let_def)

lemma tracker_add_settings:
  "tracker_add ip c = (ok, c') \<Longrightarrow> maxTotal c' = maxTotal c \<and> maxPerIP c' = maxPerIP c \<and> ct_trusted c' = ct_trusted c"
  by (auto simp: tracker_add_def split: if_splits)

lemma allow_settings:
  "allow iter now ip r = (ok, r') \<Longrightarrow> rl_enabled r' = rl_enabled r \<and> maxAttempts r' = maxAttempts r
     \<and> rl_window r' = rl_window r \<and> blockDuration r' = blockDuration r \<and> rl_trusted r' = rl_trusted r"
proof -
  have c: "rl_enabled r2 = rl_enabled r1 \<and> maxAttempts r2 = maxAttempts r1 \<and> rl_window r2 = rl_window r1
      \<and> blockDuration r2 = blockDuration r1 \<and> rl_trusted r2 = rl_trusted r1" if "count_attempt iter now ip r1 = (ok, r2)" for r1 r2 ok
    using count_attempt_frame [of iter now ip r1] that by simp
  show "allow iter now ip r = (ok, r') \<Longrightarrow> ?thesis"
    by (auto simp: allow_def Let_def dest!: c split: if_splits option.splits)
qed

lemma settings_small [simp]:
  "settings (put_handler n h s) = settings s" "settings (count_metric c s) = settings s"
  "settings (server_log e s) = settings s" "settings (drop_handler n s) = settings s"
  "settings (s\<lparr>sv_sessions := ns\<rparr>) = settings s" "settings (s\<lparr>sv_accept := a\<rparr>) = settings s"
  "settings (s\<lparr>sv_reload := rl\<rparr>) = settings s" "settings (s\<lparr>sv_next := k\<rparr>) = settings s"
  "settings (s\<lparr>sv_done := d, sv_listener := li\<rparr>) = settings s"
  "settings (refuse n reason e s) = settings s"
  by (simp_all add: settings_def put_handler_def report_effects_def count_metric_def server_log_def drop_handler_def refuse_def)

lemma settings_handler_step: "settings (handler_step iter now fs l n h s) = settings s"
proof (cases h)
  case (Arrived conn)
  obtain ok r where a: "allow iter now (peer_host (cn_addr conn)) (sv_limiter s) = (ok, r)" by fastforce
  have "settings (s\<lparr>sv_limiter := r\<rparr>) = settings s" using allow_settings [OF a] by (simp add: settings_def)
  then show ?thesis using a by (simp add: Arrived Let_def split: bool.split)
next
  case (Passed conn host)
  obtain ok c where a: "tracker_add host (sv_tracker s) = (ok, c)" by fastforce
  have "settings (s\<lparr>sv_tracker := c\<rparr>) = settings s" using tracker_add_settings [OF a] by (simp add: settings_def)
  then show ?thesis using a by (simp add: Passed split: bool.split)
next
  case (Running host started p)
  then show ?thesis by (cases p) (simp_all split: label.split)
next
  case (Unlisted host sess)
  have "settings (s\<lparr>sv_tracker := tracker_remove host (sv_tracker s)\<rparr>) = settings s" by (simp add: settings_def)
  then show ?thesis by (simp add: Unlisted)
qed (simp_all add: Let_def)

lemma handler_step_reload: "sv_reload (handler_step iter now fs l n h s) = sv_reload s"
  by (cases "(iter, now, fs, l, n, h, s)" rule: handler_step.cases) (auto simp: Let_def split: prod.split bool.split label.split)

lemma close_all_settings:
  "settings (foldl (\<lambda>s n. close_session n s) s ns) = settings s
   \<and> sv_reload (foldl (\<lambda>s n. close_session n s) s ns) = sv_reload s"
  by (induction ns arbitrary: s) (simp_all add: close_session_def split: option.split)

lemma in_force_step:
  "in_force cfg (reload_step op cfg s) op"
  "op' \<noteq> op \<Longrightarrow> op \<noteq> StoreConfig \<Longrightarrow> in_force cfg' (reload_step op cfg s) op' = in_force cfg' s op'"
  "op' \<noteq> StoreConfig \<Longrightarrow> in_force cfg' (reload_step StoreConfig cfg s) op' = in_force cfg' s op'"
  by (cases op; cases op'; simp add: Let_def rl_set_limits_def rl_set_trusted_def ct_set_limits_def ct_set_trusted_def)+

lemma consistent_reload_step:
  assumes "consistent s"
  shows "consistent (next_reload_step s)"
proof (cases "sv_reload s")
  case None
  then show ?thesis using assms by (simp add: next_reload_step_def)
next
  case (Some p)
  then obtain cfg op ops applied where p: "sv_reload s = Some (cfg, op # ops)"
    and split: "reload_ops = applied @ op # ops" and new: "\<forall>op \<in> set applied. in_force cfg s op"
    and old: "\<forall>op \<in> set (op # ops). in_force (sv_config s) s op"
    using assms by (cases p; cases "snd p") (auto simp: consistent_def)
  let ?t = "reload_step op cfg s"
  have same: "in_force c (?t\<lparr>sv_reload := x\<rparr>) = in_force c ?t" for c x
    by (rule in_force_cong) simp_all
  have "distinct (applied @ op # ops)" using split [symmetric] by (simp add: reload_ops_def)
  then have d: "op \<notin> set applied" "op \<notin> set ops" by auto
  have last: "op = StoreConfig \<longleftrightarrow> ops = []"
    using split by (auto simp: reload_ops_def Cons_eq_append_conv)
  have n: "next_reload_step s = ?t\<lparr>sv_reload := (if ops = [] then None else Some (cfg, ops))\<rparr>"
    using p by (simp add: next_reload_step_def)
  show ?thesis
  proof (cases "ops = []")
    case True
    then have op: "op = StoreConfig" using last by simp
    then have cover: "op' = StoreConfig \<or> op' \<in> set applied" for op'
      using split True by (cases op') (auto simp: reload_ops_def Cons_eq_append_conv)
    have "in_force cfg ?t op'" for op'
      using cover [of op'] new in_force_step(3) [of op' cfg cfg s] by (cases "op' = StoreConfig") (auto simp: op)
    moreover have "sv_config ?t = cfg" by (simp add: op)
    ultimately show ?thesis using True by (simp add: n consistent_def same)
  next
    case False
    then have op: "op \<noteq> StoreConfig" using last by simp
    have c: "sv_config ?t = sv_config s" using op by (cases op) (simp_all add: Let_def)
    have "\<forall>op' \<in> set (applied @ [op]). in_force cfg ?t op'"
      using new d op in_force_step(1,2) by (metis Un_iff list.set(1,2) set_append singletonD insertE)
    moreover have "\<forall>op' \<in> set ops. in_force (sv_config s) ?t op'"
      using old d op in_force_step(2) by (metis list.set_intros(2))
    moreover have "reload_ops = (applied @ [op]) @ ops" using split by simp
    ultimately show ?thesis
      using False unfolding n consistent_def by (simp add: same c) (intro exI [of _ "applied @ [op]"], simp)
  qed
qed

lemma consistent_step:
  assumes "consistent s"
  shows "consistent (server_step iter s l)"
proof (cases l)
  case (Accept r ok)
  have "settings (accept_step r ok s) = settings s \<and> sv_reload (accept_step r ok s) = sv_reload s"
    by (auto simp: accept_step_def Let_def settings_def server_log_def split: accept_state.split accept_result.split)
  then show ?thesis using assms Accept consistent_cong [of "accept_step r ok s" s] by simp
next
  case (Handle n now fs l)
  have "consistent (handler_step iter now fs l n h s) = consistent s" for h
    by (rule consistent_cong) (simp_all add: settings_handler_step handler_step_reload)
  then show ?thesis using assms Handle by (simp add: handle_step_def split: option.split)
next
  case (LimiterTick now)
  have "settings (s\<lparr>sv_limiter := cleanup_tick now (sv_limiter s)\<rparr>) = settings s"
    by (simp add: settings_def cleanup_tick_def Let_def)
  then show ?thesis using assms LimiterTick consistent_cong [of "s\<lparr>sv_limiter := cleanup_tick now (sv_limiter s)\<rparr>" s] by simp
next
  case (BeginReload cfg)
  have same: "in_force c (s\<lparr>sv_reload := x\<rparr>) = in_force c s" for c x by (rule in_force_cong) simp_all
  have "reload_ops \<noteq> []" by (simp add: reload_ops_def)
  then show ?thesis using assms BeginReload by (auto simp: begin_reload_def consistent_def same del: in_force.simps)
next
  case ReloadStep
  then show ?thesis using assms consistent_reload_step by simp
next
  case StopServer
  have "settings (stop_server s) = settings s \<and> sv_reload (stop_server s) = sv_reload s"
    by (simp add: stop_server_def Let_def close_all_settings)
  then show ?thesis using assms StopServer consistent_cong [of "stop_server s" s] by simp
qed

lemma consistent_run: "consistent s \<Longrightarrow> consistent (server_run iter s ls)"
  by (rule server_runs.run_keeps) (rule consistent_step)

lemma consistent_serving: "consistent (serving cfg (parse_level (lgc_level (cfg_logging cfg))) m now)"
proof -
  have "in_force cfg (serving cfg (parse_level (lgc_level (cfg_logging cfg))) m now) op" for op
    by (cases op) (simp_all add: serving_def start_server_def Let_def new_server_def server_log_def rl_set_trusted_def
        new_rate_limiter_def ct_set_trusted_def new_connection_tracker_def)
  then show ?thesis by (simp add: consistent_def)
qed

text \<open>A whole reload, its steps folded.\<close>

lemma reload_step_pending: "reload_step op cfg (s\<lparr>sv_reload := x\<rparr>) = (reload_step op cfg s)\<lparr>sv_reload := x\<rparr>"
  by (cases op) (simp_all add: Let_def)

lemma reload_steps:
  "ops \<noteq> [] \<Longrightarrow> (next_reload_step ^^ length ops) (s\<lparr>sv_reload := Some (cfg, ops)\<rparr>)
     = (foldl (\<lambda>s op. reload_step op cfg s) s ops)\<lparr>sv_reload := None\<rparr>"
proof (induction ops arbitrary: s)
  case (Cons op ops)
  have "next_reload_step (s\<lparr>sv_reload := Some (cfg, op # ops)\<rparr>)
      = (reload_step op cfg s)\<lparr>sv_reload := (if ops = [] then None else Some (cfg, ops))\<rparr>"
    by (simp add: next_reload_step_def reload_step_pending)
  then show ?case using Cons.IH [of "reload_step op cfg s"]
    by (cases "ops = []") (simp_all add: funpow_swap1 del: funpow.simps(2) add: funpow_Suc_right)
qed simp

lemma reload_eq:
  "reload cfg s = (let c = carry_version (sv_config s) cfg in
     ((foldl (\<lambda>s op. reload_step op c s) s reload_ops)\<lparr>sv_reload := None\<rparr>, unapplied_settings (sv_config s) cfg))"
proof -
  have "reload_ops \<noteq> []" by (simp add: reload_ops_def)
  then show ?thesis by (simp add: reload_def begin_reload_def reload_steps Let_def)
qed

lemma reload_result [simp]:
  "snd (reload cfg s) = unapplied_settings (sv_config s) cfg" "sv_reload (fst (reload cfg s)) = None"
  "sv_config (fst (reload cfg s)) = carry_version (sv_config s) cfg"
  "sv_handlers (fst (reload cfg s)) = sv_handlers s" "sv_sessions (fst (reload cfg s)) = sv_sessions s"
  "sv_metrics (fst (reload cfg s)) = sv_metrics s" "sv_done (fst (reload cfg s)) = sv_done s"
  "sv_trace (fst (reload cfg s)) = sv_trace s" "sv_next (fst (reload cfg s)) = sv_next s"
  by (simp_all add: reload_eq reload_ops_def Let_def)

lemma reload_in_force: "in_force (carry_version (sv_config s) cfg) (fst (reload cfg s)) op"
  by (cases op) (simp_all add: reload_eq reload_ops_def Let_def rl_set_limits_def rl_set_trusted_def
      ct_set_limits_def ct_set_trusted_def)

subsection \<open>Stopping\<close>

lemma close_session_other: "k \<noteq> n \<Longrightarrow> map_of (sv_handlers (close_session n s)) k = map_of (sv_handlers s) k"
  by (simp add: close_session_def handler_update split: option.split)

lemma close_all_other: "k \<notin> set ns \<Longrightarrow> map_of (sv_handlers (foldl (\<lambda>s n. close_session n s) s ns)) k = map_of (sv_handlers s) k"
  by (induction ns arbitrary: s) (simp_all add: close_session_other)

lemma close_session_self: "map_of (sv_handlers (close_session n s)) n = map_option close_handler (map_of (sv_handlers s) n)"
  by (simp add: close_session_def handler_update split: option.split)

lemma close_all_self:
  "distinct ns \<Longrightarrow> n \<in> set ns \<Longrightarrow>
     map_of (sv_handlers (foldl (\<lambda>s n. close_session n s) s ns)) n = map_option close_handler (map_of (sv_handlers s) n)"
proof (induction ns arbitrary: s)
  case (Cons k ns)
  then show ?case by (cases "k = n") (simp_all add: close_all_other close_session_self close_session_other)
qed simp

lemma stop_server_handlers:
  assumes "distinct (sv_sessions s)"
  shows "map_of (sv_handlers (stop_server s)) n =
     (if n \<in> set (sv_sessions s) then map_option close_handler (map_of (sv_handlers s) n) else map_of (sv_handlers s) n)"
  using assms by (simp add: stop_server_def Let_def close_all_self close_all_other)

lemma stop_server_sessions [simp]: "sv_sessions (stop_server s) = []"
  by (simp add: stop_server_def Let_def)

lemma close_all_done [simp]: "sv_done (foldl (\<lambda>s n. close_session n s) s ns) = sv_done s"
  by (induction ns arbitrary: s) (simp_all add: close_session_def split: option.split)

lemma stop_server_done [simp]: "sv_done (stop_server s)"
  by (simp add: stop_server_def Let_def)

text \<open>The map of sessions has one entry for each.\<close>

lemma sessions_frame:
  "sv_sessions (accept_step r ok s) = sv_sessions s" "sv_sessions (next_reload_step s) = sv_sessions s"
  by (auto simp: accept_step_def Let_def next_reload_step_def reload_step_frame
      split: accept_state.split accept_result.split option.split list.split)

lemma sessions_handler_step:
  "sv_sessions (handler_step iter now fs l n h s) =
     (case h of Prepared host sess \<Rightarrow> n # sv_sessions s | Ended host sess \<Rightarrow> removeAll n (sv_sessions s) | _ \<Rightarrow> sv_sessions s)"
  by (cases "(iter, now, fs, l, n, h, s)" rule: handler_step.cases) (auto simp: Let_def split: prod.split bool.split label.split)

lemma distinct_sessions_step:
  assumes "server_inv s" and "distinct (sv_sessions s)"
  shows "distinct (sv_sessions (server_step iter s l))"
proof (cases l)
  case (Handle n now fs l)
  show ?thesis
  proof (cases "map_of (sv_handlers s) n")
    case (Some h)
    then show ?thesis
      using assms Handle not_registered [OF assms(1) Some]
      by (cases h) (simp_all add: handle_step_def sessions_handler_step distinct_removeAll del: handler_step.simps)
  qed (use assms Handle in \<open>simp add: handle_step_def\<close>)
qed (use assms in \<open>simp_all add: sessions_frame begin_reload_def\<close>)

lemma distinct_sessions_run:
  "server_inv s \<Longrightarrow> distinct (sv_sessions s) \<Longrightarrow> distinct (sv_sessions (server_run iter s ls))"
  by (rule server_runs.run_keeps_under) (simp_all add: distinct_sessions_step)

lemma serving_sessions [simp]: "sv_sessions (serving cfg level m now) = []"
  by (simp add: serving_def start_server_def Let_def new_server_def)

text \<open>One step of a handler, as a map of handlers.\<close>

lemma handle_self:
  "map_of (sv_handlers s) n = Some h \<Longrightarrow> server_step iter s (Handle n now fs l) = handler_step iter now fs l n h s"
  by (simp add: handle_step_def)

lemma closed_prompt_ends:
  assumes "map_of (sv_handlers s) n = Some (Running host started (AtPrompt sess))" and "s_done sess"
  shows "map_of (sv_handlers (server_run iter s (replicate 4 (Handle n now fs (Prompt env))))) n = None"
proof -
  let ?l = "Handle n now fs (Prompt env)"
  have p: "prompt_step env sess = Gone (cleanup_session sess)"
    using assms(2) by (simp add: prompt_step_def finish_session_def)
  let ?s1 = "server_step iter s ?l"
  have 1: "map_of (sv_handlers ?s1) n = Some (Running host started (Gone (cleanup_session sess)))"
    unfolding handle_self [OF assms(1)] by (simp add: p handler_update)
  let ?s2 = "server_step iter ?s1 ?l"
  have 2: "map_of (sv_handlers ?s2) n = Some (Ended host (cleanup_session sess))"
    unfolding handle_self [OF 1] by (simp add: handler_update)
  let ?s3 = "server_step iter ?s2 ?l"
  have 3: "map_of (sv_handlers ?s3) n = Some (Unlisted host (cleanup_session sess))"
    unfolding handle_self [OF 2] by (simp add: handler_update)
  have "map_of (sv_handlers (server_step iter ?s3 ?l)) n = None"
    unfolding handle_self [OF 3] by (simp add: handler_delete)
  then show ?thesis by (simp add: numeral_eq_Suc del: server_step.simps)
qed

subsection \<open>Example runs\<close>

definition example_connection :: connection where
  "example_connection =
     \<lparr>cn_addr = ''192.0.2.1:50000'', cn_arrivals = [], cn_writes = [],
      cn_rand = [], cn_id = [1, 2, 3, 4], cn_art = 0\<rparr>"

definition no_art :: art_files where
  "no_art = \<lparr>dir_entries = \<lambda>d. None, file_bytes = \<lambda>d f. None\<rparr>"

text \<open>A caller who has been accepted and admitted, and the server then.\<close>

definition admitted_run :: "server_label list" where
  "admitted_run =
     [Accept (AcceptError []) True, Accept (Accepted example_connection) True,
      Handle 0 0 no_art Stop, Handle 0 0 no_art Stop]"

abbreviation example_server :: server where
  "example_server \<equiv> serving default_config InfoLevel (Some new_metrics) 0"

lemma admitted_state:
  "map_of (sv_handlers (server_run id example_server admitted_run)) 0 = Some (Admitted example_connection ''192.0.2.1'')
   \<and> sv_config (server_run id example_server admitted_run) = default_config
   \<and> \<not> sv_done (server_run id example_server admitted_run)"
  by code_simp

lemmas admitted_example = admitted_state [THEN conjunct1]
lemmas admitted_config = admitted_state [THEN conjunct2, THEN conjunct1]

lemma prepared_example:
  "\<exists>sess. map_of (sv_handlers (server_run id example_server (admitted_run @ [Handle 0 0 no_art Stop]))) 0
       = Some (Prepared ''192.0.2.1'' sess) \<and> s_config sess = default_config \<and> \<not> s_done sess
       \<and> s_arrivals sess = [] \<and> s_writes sess = []"
  unfolding server_run_snoc handle_self [OF admitted_example]
  by (simp add: Let_def handler_update admitted_config new_session_def log_it_def emit_def example_connection_def)

section \<open>Properties\<close>

text \<open>C3: Over every interleaving of accepts, handlers, sessions, limiter ticks, reloads and the stop, the
  counts agree: the tracker's total and its count for an address are the handlers that hold a place, the
  gauge of active sessions is the number of sessions running, and no dial is in flight between steps.\<close>

theorem server_counts_callers:
  assumes "gauges m 0"
  shows "let s = server_run iter (serving cfg level m now) ls; line = tally holds_place (sv_handlers s)
     in tracker_count (sv_tracker s) = int (size line) \<and> conns_of (sv_tracker s) ip = int (count line ip)
        \<and> gauges (sv_metrics s) (tally active (sv_handlers s))"
proof -
  have "server_inv (server_run iter (serving cfg level m now) ls)"
    by (rule server_inv_run [OF server_inv_serving [OF assms]])
  then show ?thesis
    by (simp add: server_inv_def places_inv_def gauges_inv_def tracker_count_def Let_def
        size_tracker_line [symmetric] count_tracker_line [symmetric])
qed

theorem server_counts_callers_witness:
  "let s = server_run id example_server admitted_run; line = tally holds_place (sv_handlers s)
   in tracker_count (sv_tracker s) = int (size line) \<and> conns_of (sv_tracker s) ''192.0.2.1'' = int (count line ''192.0.2.1'')
      \<and> gauges (sv_metrics s) (tally active (sv_handlers s))"
  by (rule server_counts_callers [OF fresh_gauges])

text \<open>Every session the server runs keeps the session invariant, and while the server is up the map of
  sessions holds exactly the connections whose session has been registered and not yet removed.\<close>

theorem server_sessions_sound:
  assumes "gauges m 0" and "map_of (sv_handlers (server_run iter (serving cfg level m now) ls)) n = Some h"
  shows "handler_ok h
     \<and> (n \<in> set (sv_sessions (server_run iter (serving cfg level m now) ls)) \<longrightarrow> registered h)
     \<and> (\<not> sv_done (server_run iter (serving cfg level m now) ls) \<and> registered h
          \<longrightarrow> n \<in> set (sv_sessions (server_run iter (serving cfg level m now) ls)))"
proof -
  note inv = server_inv_run [OF server_inv_serving [OF assms(1)], of iter cfg level now ls]
  show ?thesis
    using handler_known [OF inv assms(2)] not_registered [OF inv assms(2)] registered_listed [OF inv assms(2)] by blast
qed

theorem server_sessions_sound_witness:
  "handler_ok (Admitted example_connection ''192.0.2.1'')
   \<and> 0 \<notin> set (sv_sessions (server_run id example_server admitted_run))"
  using server_sessions_sound [OF fresh_gauges admitted_example] by simp

text \<open>C16: A connection the server refuses, whether for its rate or for the ceilings, is closed without a
  session: nothing is ever written to it, dialled for it, logged or counted under a session of it, and it
  is not handled again.\<close>

theorem refused_caller_untouched:
  assumes "gauges m 0" and "CloseRefused n \<in> set (sv_trace (server_run iter (serving cfg level m now) ls))"
  shows "Call n e \<notin> set (sv_trace (server_run iter (serving cfg level m now) ls))
     \<and> map_of (sv_handlers (server_run iter (serving cfg level m now) ls)) n = None"
proof -
  have "refused_inv (server_run iter (serving cfg level m now) ls)"
    by (rule refused_inv_run [OF refused_inv_serving server_inv_serving [OF assms(1)]])
  then show ?thesis using assms(2) by (auto simp: refused_inv_def refused_def called_def)
qed

definition crowded_config :: config where
  "crowded_config = default_config\<lparr>cfg_server := (cfg_server default_config)\<lparr>srv_max_per_ip := 0\<rparr>\<rparr>"

theorem refused_caller_untouched_witness:
  "Call 0 ClosedClient \<notin> set (sv_trace (server_run id (serving crowded_config InfoLevel (Some new_metrics) 0) admitted_run))"
  by (rule refused_caller_untouched [THEN conjunct1, OF fresh_gauges]) code_simp

text \<open>C8: The connections the server lets pass the rate limit are exactly those a limiter accepts on the
  history of their addresses, and the server's limiter is the limiter after that history: reloads, other
  handlers and sessions do not enter. So what holds of every history of the limiter holds of the server.\<close>

theorem server_refines_limiter:
  assumes "gauges m 0"
  shows "let s0 = serving cfg level m now; es = run_limiter_events iter s0 ls
     in run_passes iter s0 ls = accepted iter (sv_limiter s0) es
        \<and> sv_limiter (server_run iter s0 ls) = rl_run iter (sv_limiter s0) es"
  using run_refines_limiter [OF server_inv_serving [OF assms]] by (simp add: Let_def)

theorem server_refines_limiter_witness:
  "let es = run_limiter_events id example_server admitted_run
   in run_passes id example_server admitted_run = accepted id (sv_limiter example_server) es
      \<and> sv_limiter (server_run id example_server admitted_run) = rl_run id (sv_limiter example_server) es"
  using server_refines_limiter [OF fresh_gauges] unfolding Let_def .

text \<open>C14: A reload cannot disturb a call: whatever is reloaded and however often, a connection that has a
  session keeps the very configuration it started with until the session is over.\<close>

theorem reload_spares_calls:
  assumes "gauges m 0" and "call_config (server_run iter (serving cfg level m now) ls) n = Some c"
    and "map_of (sv_handlers (server_run iter (serving cfg level m now) (ls @ ms))) n \<noteq> None"
  shows "call_config (server_run iter (serving cfg level m now) (ls @ ms)) n = Some c"
proof -
  let ?s = "server_run iter (serving cfg level m now) ls"
  have inv: "server_inv ?s" by (rule server_inv_run [OF server_inv_serving [OF assms(1)]])
  obtain h where h: "map_of (sv_handlers ?s) n = Some h"
    using assms(2) by (auto simp: call_config_def bind_eq_Some_conv)
  have "n < sv_next ?s" using inv map_of_SomeD [OF h] by (force simp: server_inv_def ids_inv_def)
  then have "config_kept n c (server_run iter ?s ms)"
    using assms(2) config_kept_run [of n c ?s] by (simp add: config_kept_def)
  moreover have "server_run iter ?s ms = server_run iter (serving cfg level m now) (ls @ ms)"
    by (simp add: server_run_def)
  ultimately show ?thesis using assms(3) by (simp add: config_kept_def)
qed

theorem reload_spares_calls_witness:
  "call_config (server_run id example_server ((admitted_run @ [Handle 0 0 no_art Stop]) @
     [BeginReload crowded_config, ReloadStep, ReloadStep, ReloadStep])) 0 = Some default_config"
proof -
  obtain sess where sess: "map_of (sv_handlers (server_run id example_server (admitted_run @ [Handle 0 0 no_art Stop]))) 0
      = Some (Prepared ''192.0.2.1'' sess)" "s_config sess = default_config"
    using prepared_example by (elim exE conjE)
  let ?s = "server_run id example_server (admitted_run @ [Handle 0 0 no_art Stop])"
  have same: "sv_handlers (next_reload_step t) = sv_handlers t" for t
    by (simp add: next_reload_step_def reload_step_frame split: option.split list.split)
  have "sv_handlers (server_run id example_server ((admitted_run @ [Handle 0 0 no_art Stop]) @
      [BeginReload crowded_config, ReloadStep, ReloadStep, ReloadStep])) = sv_handlers ?s"
    by (subst server_run_append) (simp add: same begin_reload_def del: append_assoc)
  then have "map_of (sv_handlers (server_run id example_server ((admitted_run @ [Handle 0 0 no_art Stop]) @
      [BeginReload crowded_config, ReloadStep, ReloadStep, ReloadStep]))) 0 \<noteq> None"
    using sess(1) by simp
  then show ?thesis
    by (rule reload_spares_calls [OF fresh_gauges, rotated]) (use sess in \<open>simp add: call_config_def\<close>)
qed

text \<open>What the server enforces is never a mixture nobody wrote: at any moment each of the settings a
  reload pushes (rate limits, ceilings, trusted proxies, art directory, log level) is that of the
  configuration new callers get, unless a reload is under way and has already pushed that setting of its
  configuration, which new callers get only when all of them are in force.\<close>

theorem reload_is_consistent:
  "let s = server_run iter (serving cfg (parse_level (lgc_level (cfg_logging cfg))) m now) ls in
     \<forall>op. in_force (sv_config s) s op
       \<or> (\<exists>new ops. sv_reload s = Some (new, ops) \<and> op \<notin> set ops \<and> StoreConfig \<in> set ops \<and> in_force new s op)"
proof -
  let ?s = "server_run iter (serving cfg (parse_level (lgc_level (cfg_logging cfg))) m now) ls"
  have c: "consistent ?s" by (rule consistent_run [OF consistent_serving])
  have all: "op \<in> set reload_ops" for op by (cases op) (simp_all add: reload_ops_def)
  show ?thesis
  proof (cases "sv_reload ?s")
    case None
    then have "in_force (sv_config ?s) ?s op" for op using c all unfolding consistent_def None option.case by blast
    then show ?thesis by (simp add: Let_def)
  next
    case (Some p)
    obtain new ops where p: "p = (new, ops)" by fastforce
    then obtain applied where a: "ops \<noteq> []" "reload_ops = applied @ ops" "\<forall>op \<in> set applied. in_force new ?s op"
      "\<forall>op \<in> set ops. in_force (sv_config ?s) ?s op"
      using c unfolding consistent_def Some option.case prod.case by blast
    have "last reload_ops = last ops" using a(1) unfolding a(2) by simp
    then have "StoreConfig \<in> set ops" using a(1) last_in_set [of ops] by (simp add: reload_ops_def)
    moreover have "op \<in> set applied \<or> op \<in> set ops" for op using all [of op, unfolded a(2)] by auto
    ultimately show ?thesis using a(3,4) Some p by (metis (no_types, lifting))
  qed
qed

text \<open>A reload applies every setting it can, carries the build version over, leaves callers, counts and
  sessions alone, and returns the names of exactly those of the four restart-only settings that differ.\<close>

theorem reload_applies_and_reports:
  "let (t, ignored) = reload cfg s in
     sv_reload t = None \<and> sv_config t = carry_version (sv_config s) cfg \<and> cfg_version (sv_config t) = cfg_version (sv_config s)
     \<and> (\<forall>op. in_force (sv_config t) t op)
     \<and> sv_handlers t = sv_handlers s \<and> sv_sessions t = sv_sessions s \<and> sv_metrics t = sv_metrics s
     \<and> set ignored = {n. (n = ''server.port'' \<and> srv_port (cfg_server (sv_config s)) \<noteq> srv_port (cfg_server cfg))
         \<or> (n = ''logging.file'' \<and> lgc_file (cfg_logging (sv_config s)) \<noteq> lgc_file (cfg_logging cfg))
         \<or> (n = ''logging.format'' \<and> lgc_format (cfg_logging (sv_config s)) \<noteq> lgc_format (cfg_logging cfg))
         \<or> (n = ''metrics'' \<and> (mc_enabled (cfg_metrics (sv_config s)) \<noteq> mc_enabled (cfg_metrics cfg)
              \<or> metrics_get_port (cfg_metrics (sv_config s)) \<noteq> metrics_get_port (cfg_metrics cfg)
              \<or> mc_bind (cfg_metrics (sv_config s)) \<noteq> mc_bind (cfg_metrics cfg)))}"
  using reload_in_force [of s cfg]
  by (auto simp: split_beta carry_version_def unapplied_settings_def)

text \<open>A caller admitted just before a reload is served the new phonebook under the old ceilings: once a
  handler has its place, the ceilings are not looked at again, and it reads the configuration only after
  that, so even a reload that lowers them to nothing hands it the reloaded configuration.\<close>

theorem admitted_caller_mixes_configs:
  assumes "map_of (sv_handlers s) n = Some (Admitted conn host)"
  shows "call_config (server_step iter (fst (reload cfg s)) (Handle n now fs l)) n = Some (carry_version (sv_config s) cfg)"
proof -
  have h: "map_of (sv_handlers (fst (reload cfg s))) n = Some (Admitted conn host)" using assms by simp
  show ?thesis
    unfolding handle_self [OF h] by (simp add: Let_def call_config_def handler_update new_session_def log_it_def)
qed

theorem admitted_caller_mixes_configs_witness:
  "call_config (server_step id (fst (reload crowded_config (server_run id example_server admitted_run)))
     (Handle 0 0 no_art Stop)) 0 = Some (carry_version default_config crowded_config)
   \<and> srv_max_per_ip (cfg_server (carry_version default_config crowded_config)) = 0"
  using admitted_caller_mixes_configs [OF admitted_example, of id crowded_config 0 no_art Stop] admitted_config
  by (simp add: crowded_config_def carry_version_def)


text \<open>A handler that has not yet registered its session when the server stops is missed: its session
  starts after the stop, is not told to stop, and runs on in a stopped server.\<close>

theorem stop_misses_unregistered:
  assumes "map_of (sv_handlers s) n = Some (Prepared host sess)" and "n \<notin> set (sv_sessions s)"
    and "distinct (sv_sessions s)"
  shows "sv_done (stop_server s)
     \<and> map_of (sv_handlers (server_run iter (stop_server s) [Handle n t fs l, Handle n t fs l])) n
         = Some (Running host (s_now sess) (begin_session sess))
     \<and> n \<in> set (sv_sessions (server_run iter (stop_server s) [Handle n t fs l, Handle n t fs l]))"
proof -
  let ?t = "stop_server s"
  have 1: "map_of (sv_handlers ?t) n = Some (Prepared host sess)"
    using assms by (simp add: stop_server_handlers)
  have 2: "map_of (sv_handlers (server_step iter ?t (Handle n t fs l))) n = Some (Listed host sess)"
    "n \<in> set (sv_sessions (server_step iter ?t (Handle n t fs l)))"
    unfolding handle_self [OF 1] by (simp_all add: handler_update)
  show ?thesis
    using 2(2) by (simp add: handle_self [OF 2(1)] handler_update del: server_step.simps)
qed

text \<open>The same caller at its prompt.\<close>

lemma begin_silent:
  assumes "s_arrivals s = []" and "s_writes s = []" and "\<not> s_done s"
  shows "\<exists>t. begin_session s = AtPrompt t"
proof -
  have w: "write_client data t = (True, emit (ToClient data) t)" if "s_writes t = []" "\<not> s_done t" for data t
    using that by (simp add: write_client_def)
  let ?u = "drain_client_telnet (sleep (100 * millisecond) (emit (ToClient client_negotiation) s))"
  have "s_writes ?u = [] \<and> \<not> s_done ?u"
    using assms by (simp add: drain_client_telnet_def set_read_deadline_def sleep_def emit_def drain_loop.simps conn_read_def)
  then show ?thesis
    using assms by (simp add: begin_session_def w send_result_def)
qed

definition prompt_run :: "server_label list" where
  "prompt_run = admitted_run @ replicate 3 (Handle 0 0 no_art Stop)"

lemma handle_done: "sv_done (server_step iter s (Handle n now fs l)) = sv_done s"
proof -
  have "sv_done (handler_step iter now fs l n h s) = sv_done s" for h
    by (cases "(iter, now, fs, l, n, h, s)" rule: handler_step.cases)
      (auto simp: Let_def split: prod.split bool.split label.split)
  then show ?thesis by (simp add: handle_step_def split: option.split)
qed

lemma prompt_example:
  "\<not> sv_done (server_run id example_server prompt_run)
   \<and> (\<exists>started sess. map_of (sv_handlers (server_run id example_server prompt_run)) 0
        = Some (Running ''192.0.2.1'' started (AtPrompt sess)))"
proof -
  let ?l = "Handle 0 0 no_art Stop"
  let ?s = "server_run id example_server (admitted_run @ [?l])"
  obtain sess where h: "map_of (sv_handlers ?s) 0 = Some (Prepared ''192.0.2.1'' sess)"
    and sess: "\<not> s_done sess" "s_arrivals sess = []" "s_writes sess = []"
    using prepared_example by (elim exE conjE)
  have h1: "map_of (sv_handlers (server_step id ?s ?l)) 0 = Some (Listed ''192.0.2.1'' sess)"
    unfolding handle_self [OF h] by (simp add: handler_update)
  obtain t where t: "begin_session sess = AtPrompt t" using begin_silent sess by blast
  have h2: "map_of (sv_handlers (server_step id (server_step id ?s ?l) ?l)) 0 = Some (Running ''192.0.2.1'' (s_now sess) (AtPrompt t))"
    unfolding handle_self [OF h1] by (simp add: handler_update t)
  have r: "server_run id example_server prompt_run = server_step id (server_step id ?s ?l) ?l"
    by (simp add: prompt_run_def server_run_append numeral_eq_Suc del: server_step.simps)
  have "\<not> sv_done ?s"
    unfolding server_run_snoc handle_done using admitted_state by blast
  then show ?thesis using h2 unfolding r handle_done by auto
qed

theorem stop_misses_unregistered_witness:
  "0 \<in> set (sv_sessions (server_run id (stop_server (server_run id example_server (admitted_run @ [Handle 0 0 no_art Stop])))
     [Handle 0 0 no_art Stop, Handle 0 0 no_art Stop]))"
proof -
  let ?s = "server_run id example_server (admitted_run @ [Handle 0 0 no_art Stop])"
  obtain sess where h: "map_of (sv_handlers ?s) 0 = Some (Prepared ''192.0.2.1'' sess)"
    using prepared_example by (elim exE conjE)
  have inv: "server_inv ?s" by (rule server_inv_run [OF server_inv_serving [OF fresh_gauges]])
  have "distinct (sv_sessions ?s)"
    by (rule distinct_sessions_run [OF server_inv_serving [OF fresh_gauges]]) simp
  moreover have "0 \<notin> set (sv_sessions ?s)" using not_registered [OF inv h] by simp
  ultimately show ?thesis using stop_misses_unregistered [OF h] by blast
qed


end
