(* ===== verification/ServerSafety.thy ===== *)
theory ServerSafety
  imports ServerRuns
begin

section \<open>What callers can make the server do\<close>

text \<open>
  The guarantees of the components, stated of the whole server over any run: how often an address gets
  past the rate limit, and where the connections opened for callers go.
\<close>

subsection \<open>Connections go to the phonebook\<close>

text \<open>Every effect of a session's step is within the configuration the session holds.\<close>

lemma emits_within:
  assumes "emits c s t"
  shows "list_all (within_config c) (drop (length (s_trace s)) (s_trace t))"
proof -
  obtain ess where t: "s_trace t = s_trace s @ concat ess"
    and ess: "\<forall>es \<in> set ess. list_all (tame c) es \<or> dial_burst c es"
    using assms by (auto simp: emits_def)
  have "list_all (within_config c) es" if "list_all (tame c) es" for es
    using that by (auto simp: list_all_iff tame_def)
  then have "list_all (within_config c) es" if "es \<in> set ess" for es
    using ess that by (fastforce simp: dial_burst_def)
  then show ?thesis by (auto simp: t list_all_iff)
qed

text \<open>\<open>written C c\<close>: \<open>c\<close> is a configuration of \<open>C\<close> but for the build's version.\<close>

definition written :: "config set \<Rightarrow> config \<Rightarrow> bool" where
  "written C c \<longleftrightarrow> (\<exists>c0 \<in> C. \<exists>v. c = c0\<lparr>cfg_version := v\<rparr>)"

lemma writtenI: "c \<in> C \<Longrightarrow> written C c"
  unfolding written_def by (intro bexI [of _ c] exI [of _ "cfg_version c"]) simp_all

lemma written_carried: "c \<in> C \<Longrightarrow> written C (carry_version old c)"
  by (auto simp: written_def carry_version_def)

lemma within_version [simp]: "within_config (c\<lparr>cfg_version := v\<rparr>) e = within_config c e"
  by (cases "(c, e)" rule: within_config.cases) (simp_all add: listed_address_def reachable_entry_def)

lemma written_within: "written C c \<Longrightarrow> within_config c e \<Longrightarrow> \<exists>c \<in> C. within_config c e"
  by (auto simp: written_def)

definition dials_inv :: "config set \<Rightarrow> server \<Rightarrow> bool" where
  "dials_inv C s \<longleftrightarrow> written C (sv_config s) \<and> (\<forall>c ops. sv_reload s = Some (c, ops) \<longrightarrow> written C c)
     \<and> (\<forall>n h x. map_of (sv_handlers s) n = Some h \<longrightarrow> handler_session h = Some x \<longrightarrow> written C (s_config x))
     \<and> (\<forall>n e. Call n e \<in> set (sv_trace s) \<longrightarrow> (\<exists>c \<in> C. within_config c e))"

lemma dials_inv_updates [simp]:
  "dials_inv C (s\<lparr>sv_limiter := r\<rparr>) = dials_inv C s" "dials_inv C (s\<lparr>sv_tracker := t\<rparr>) = dials_inv C s"
  "dials_inv C (s\<lparr>sv_sessions := ns\<rparr>) = dials_inv C s" "dials_inv C (s\<lparr>sv_accept := a\<rparr>) = dials_inv C s"
  "dials_inv C (s\<lparr>sv_done := d, sv_listener := li\<rparr>) = dials_inv C s"
  "dials_inv C (count_metric m s) = dials_inv C s" "dials_inv C (server_log e s) = dials_inv C s"
  by (simp_all add: dials_inv_def count_metric_def server_log_def)

text \<open>A handler's session goes on, or is the one it was.\<close>

definition goes_on :: "handler \<Rightarrow> handler \<Rightarrow> bool" where
  "goes_on h h' \<longleftrightarrow> (\<forall>x'. handler_session h' = Some x' \<longrightarrow>
     (\<exists>x. handler_session h = Some x \<and> emits (s_config x) x x' \<and> s_config x' = s_config x))"

lemma dials_inv_put:
  assumes "dials_inv C s"
    and "\<And>x. handler_session h' = Some x \<Longrightarrow> written C (s_config x)
       \<and> list_all (within_config (s_config x)) (drop (length (handler_trace (map_of (sv_handlers s) n))) (s_trace x))"
  shows "dials_inv C (put_handler n h' s)"
proof -
  let ?new = "drop (length (handler_trace (map_of (sv_handlers s) n))) (handler_trace (Some h'))"
  have t: "sv_trace (put_handler n h' s) = sv_trace s @ map (Call n) ?new"
    by (simp add: put_handler_def report_effects_def)
  have "\<exists>c \<in> C. within_config c e" if "e \<in> set ?new" for e
  proof -
    have "handler_session h' \<noteq> None" using that by (cases h') (auto simp: handler_trace_def)
    then obtain x where x: "handler_session h' = Some x" by blast
    then have "within_config (s_config x) e"
      using assms(2) [OF x] that by (auto simp: list_all_iff handler_trace_def)
    then show ?thesis using assms(2) [OF x] written_within by blast
  qed
  then show ?thesis
    using assms unfolding dials_inv_def t by (auto simp: handler_update)
qed

lemma dials_inv_goes_on:
  assumes "dials_inv C s" and "map_of (sv_handlers s) n = Some h" and "goes_on h h'"
  shows "dials_inv C (put_handler n h' s)"
proof (rule dials_inv_put [OF assms(1)])
  fix x'
  assume "handler_session h' = Some x'"
  then obtain x where x: "handler_session h = Some x" "emits (s_config x) x x'" "s_config x' = s_config x"
    using assms(3) by (auto simp: goes_on_def)
  then show "written C (s_config x')
      \<and> list_all (within_config (s_config x')) (drop (length (handler_trace (map_of (sv_handlers s) n))) (s_trace x'))"
    using assms(1,2) emits_within [OF x(2)] by (auto simp: dials_inv_def handler_trace_def)
qed

lemma dials_inv_drop: "dials_inv C s \<Longrightarrow> dials_inv C (drop_handler n s)"
  unfolding dials_inv_def by (auto simp: handler_delete)

lemma dials_inv_refuse: "dials_inv C s \<Longrightarrow> dials_inv C (refuse n reason e s)"
  unfolding refuse_def by (rule dials_inv_drop) (auto simp: dials_inv_def server_log_def count_metric_def)

lemma goes_on_simps [simp]:
  "goes_on h (Arrived conn)" "goes_on h (Passed conn host)" "goes_on h (Admitted conn host)"
  "goes_on (Prepared host x) (Listed host x)" "goes_on (Running host started (Gone x)) (Ended host x)"
  "goes_on (Ended host x) (Unlisted host x)"
  "goes_on (Listed host x) (Running host (s_now x) (begin_session x))"
  "goes_on (Running host started p) (Running host started (session_step p l))"
  "goes_on h (close_handler h)"
proof -
  show "goes_on h (close_handler h)"
    by (cases h) (simp_all add: goes_on_def emits_close emits_step config_step)
qed (simp_all add: goes_on_def emits_begin config_begin emits_step config_step)

lemma goes_on_log: "goes_on (Unlisted host x) (Unlisted host (log_it e x))"
  by (simp add: goes_on_def emit_intros)

lemma dials_inv_prepare:
  assumes "dials_inv C s" and "map_of (sv_handlers s) n = Some (Admitted conn host)"
  shows "dials_inv C (handler_step iter now fs l n (Admitted conn host) s)"
  unfolding handler_step.simps Let_def
  by (rule dials_inv_put [OF assms(1)])
    (use assms in \<open>auto simp: dials_inv_def new_session_def log_it_def emit_def handler_trace_def\<close>)

lemma dials_inv_handler_step:
  assumes inv: "dials_inv C s" and h: "map_of (sv_handlers s) n = Some h"
  shows "dials_inv C (handler_step iter now fs l n h s)"
proof (cases h)
  case (Arrived conn)
  then show ?thesis
    using inv h by (auto simp: Let_def split: prod.split bool.split intro!: dials_inv_refuse dials_inv_goes_on [of C _ n h])
next
  case (Passed conn host)
  then show ?thesis
    using inv h by (auto split: prod.split bool.split intro!: dials_inv_refuse dials_inv_goes_on [of C _ n h])
next
  case (Admitted conn host)
  then show ?thesis using dials_inv_prepare [OF inv, of n conn host] h by simp
next
  case (Running host started p)
  then show ?thesis
    using inv h by (cases p) (auto simp del: session_step.simps split: label.split intro!: dials_inv_goes_on [of C _ n h])
next
  case (Unlisted host x)
  then show ?thesis
    using inv h by (auto intro!: dials_inv_drop dials_inv_goes_on [of C _ n h] goes_on_log)
qed (use inv h in \<open>auto intro!: dials_inv_goes_on [of C _ n h]\<close>)

lemma dials_inv_close_all: "dials_inv C s \<Longrightarrow> dials_inv C (foldl (\<lambda>s n. close_session n s) s ns)"
proof (induction ns arbitrary: s)
  case (Cons n ns)
  have "dials_inv C (close_session n s)"
    using Cons.prems by (auto simp: close_session_def split: option.split intro: dials_inv_goes_on)
  then show ?case using Cons.IH by simp
qed simp

text \<open>The configurations a run hands to \<open>Reload\<close>.\<close>

fun reloaded :: "server_label list \<Rightarrow> config list" where
  "reloaded [] = []"
| "reloaded (BeginReload c # ls) = c # reloaded ls"
| "reloaded (l # ls) = reloaded ls"

lemma dials_inv_reload:
  assumes "dials_inv C s"
  shows "dials_inv C (next_reload_step s)"
proof -
  have t: "sv_trace (reload_step op c s) = sv_trace s" for op c by (cases op) (simp_all add: Let_def)
  have c: "sv_config (reload_step op c s) = (if op = StoreConfig then c else sv_config s)" for op c
    by (cases op) (simp_all add: Let_def)
  show ?thesis
    using assms
    by (auto simp: next_reload_step_def dials_inv_def t c reload_step_frame split: option.split list.split)
qed

lemma dials_inv_step:
  assumes "dials_inv C s" and "\<And>c. l = BeginReload c \<Longrightarrow> c \<in> C"
  shows "dials_inv C (server_step iter s l)"
proof (cases l)
  case (Accept r ok)
  then show ?thesis
    using assms(1) by (auto simp: accept_step_def Let_def split: accept_state.split accept_result.split)
      (auto simp: dials_inv_def)
next
  case (Handle n now fs l)
  then show ?thesis using assms(1) dials_inv_handler_step by (simp add: handle_step_def split: option.split)
next
  case (BeginReload c)
  then show ?thesis using assms by (auto simp: begin_reload_def dials_inv_def written_carried)
next
  case StopServer
  then show ?thesis using assms(1) by (simp add: stop_server_def Let_def dials_inv_close_all)
qed (use assms(1) in \<open>simp_all add: dials_inv_reload\<close>)

lemma reloaded_iff: "c \<in> set (reloaded ls) \<longleftrightarrow> BeginReload c \<in> set ls"
  by (induction ls rule: reloaded.induct) auto

lemma dials_inv_run:
  assumes "dials_inv C s" and "set (reloaded ls) \<subseteq> C"
  shows "dials_inv C (server_run iter s ls)"
  using assms(1)
proof (rule server_runs.run_keeps_if [rotated])
  show "list_all (\<lambda>l. \<forall>c. l = BeginReload c \<longrightarrow> c \<in> C) ls"
    using assms(2) by (auto simp: list_all_iff reloaded_iff [symmetric])
qed (simp add: dials_inv_step)

lemma dials_inv_serving: "cfg \<in> C \<Longrightarrow> dials_inv C (serving cfg level m now)"
  by (auto simp: dials_inv_def serving_def start_server_def Let_def new_server_def server_log_def intro: writtenI)

subsection \<open>The limiter of the server\<close>

lemma serving_limiter:
  assumes "rlc_enabled (cfg_rate_limit cfg)" and "\<not> trusted_has (srv_parsed_trusted (cfg_server cfg)) ip"
  shows "limits_are (rlc_max_attempts (cfg_rate_limit cfg)) (rl_get_window (cfg_rate_limit cfg))
      (rl_get_block_duration (cfg_rate_limit cfg)) (sv_limiter (serving cfg level m now))"
    and "tracks (sv_limiter (serving cfg level m now)) ip w now []"
    and "\<not> trusted_has (rl_trusted (sv_limiter (serving cfg level m now))) ip"
    and "well_keyed (sv_limiter (serving cfg level m now)) {}"
proof -
  show "tracks (sv_limiter (serving cfg level m now)) ip w now []"
    by (rule tracksI [of _ "[]"]) (simp_all add: new_server_def Let_def rl_set_trusted_def attempts_of_def new_rate_limiter_def)
qed (use assms in \<open>simp_all add: new_server_def Let_def limits_are_def rl_set_trusted_def new_rate_limiter_def well_keyed_def\<close>)

section \<open>Properties\<close>


text \<open>A limit of one, and a caller who comes twice.\<close>

definition strict_config :: config where
  "strict_config = default_config\<lparr>cfg_rate_limit :=
     \<lparr>rlc_enabled = True, rlc_max_attempts = 1, rlc_window_seconds = 1, rlc_block_duration = 1\<rparr>\<rparr>"

definition calling_twice :: "server_label list" where
  "calling_twice =
     [Accept (AcceptError []) True, Accept (Accepted example_connection) True,
      Accept (AcceptError []) True, Accept (Accepted example_connection) True,
      Handle 0 0 no_art Stop, Handle 1 0 no_art Stop]"

lemma calling_twice_events:
  "run_limiter_events id (serving strict_config InfoLevel (Some new_metrics) 0) calling_twice
     = [Attempt ''192.0.2.1'' 0, Attempt ''192.0.2.1'' 0]"
  by code_simp


text \<open>C2: The gateway is no open proxy: whatever callers type, whatever boards, resolvers and reloads do,
  an address the server connects to on behalf of a caller is the host and port of a line of a phonebook
  the operator wrote (the one it started with or one it was reloaded with) that is not marked busy, and
  if that configuration allows certain networks only and the line's host is an address, it is in them.\<close>

theorem server_dials_phonebook_only:
  assumes "Call n (Network (Connect addr timeout)) \<in> set (sv_trace (server_run iter (serving cfg level m now) ls))"
  shows "\<exists>c \<in> set (cfg # reloaded ls). listed_address c addr"
proof -
  have "dials_inv (set (cfg # reloaded ls)) (server_run iter (serving cfg level m now) ls)"
    by (intro dials_inv_run dials_inv_serving) auto
  then have "\<exists>c \<in> set (cfg # reloaded ls). within_config c (Network (Connect addr timeout))"
    using assms unfolding dials_inv_def by blast
  then show ?thesis by simp
qed

text \<open>A caller who dials the one board of the phonebook.\<close>

definition dialling_config :: config where
  "dialling_config = default_config\<lparr>cfg_phonebook := [example_entry]\<rparr>"

definition dialling_connection :: connection where
  "dialling_connection = example_connection\<lparr>cn_arrivals := [Arrive second (bytes_of ''ATDT5551234'' @ [13])]\<rparr>"

definition dialling_session :: "session_logger \<Rightarrow> bytes \<Rightarrow> session" where
  "dialling_session logger banner = example_session\<lparr>s_config := dialling_config, s_modem := new_modem [],
     s_logger := logger, s_banner := banner, s_reader := False, s_arrivals := cn_arrivals dialling_connection\<rparr>"

lemma dialling_example:
  "case begin_session (log_it e (dialling_session logger banner)) of
     AtPrompt s \<Rightarrow>
       Network (Connect ''192.0.2.7:23'' (30 * second))
         \<in> set (drop (length (s_trace s)) (s_trace (phase_session (prompt_step engaged_env s))))
   | _ \<Rightarrow> False"
  by code_simp

definition dialling_run :: "server_label list" where
  "dialling_run =
     [Accept (AcceptError []) True, Accept (Accepted dialling_connection) True, Handle 0 0 no_art Stop, Handle 0 0 no_art Stop]"

lemma dialling_admitted:
  "map_of (sv_handlers (server_run id (serving dialling_config InfoLevel None 0) dialling_run)) 0
      = Some (Admitted dialling_connection ''192.0.2.1'')
   \<and> sv_config (server_run id (serving dialling_config InfoLevel None 0) dialling_run) = dialling_config"
  by code_simp

theorem server_dials_phonebook_only_witness: "listed_address dialling_config ''192.0.2.7:23''"
proof -
  let ?l = "Handle 0 0 no_art Stop" and ?p = "Handle 0 0 no_art (Prompt engaged_env)"
  let ?s = "server_run id (serving dialling_config InfoLevel None 0) dialling_run"
  let ?new = "new_session dialling_connection 0 no_art (Some (sv_art ?s)) dialling_config"
  let ?sess = "log_it (new_connection_event (s_logger ?new)) ?new"
  have new: "?new = dialling_session (s_logger ?new) (s_banner ?new)"
    by (simp add: new_session_def dialling_session_def dialling_config_def default_config_def example_session_def
        dialling_connection_def example_connection_def)
  obtain t where t: "begin_session ?sess = AtPrompt t"
    and dials: "Network (Connect ''192.0.2.7:23'' (30 * second))
       \<in> set (drop (length (s_trace t)) (s_trace (phase_session (prompt_step engaged_env t))))"
    using dialling_example [of "new_connection_event (s_logger ?new)" "s_logger ?new" "s_banner ?new"]
    unfolding new [symmetric] by (auto split: phase.splits)
  note h = dialling_admitted [THEN conjunct1]
  let ?s1 = "server_step id ?s ?l"
  have 1: "map_of (sv_handlers ?s1) 0 = Some (Prepared ''192.0.2.1'' ?sess)"
    unfolding handle_self [OF h] by (simp add: Let_def handler_update dialling_admitted)
  let ?s2 = "server_step id ?s1 ?l"
  have 2: "map_of (sv_handlers ?s2) 0 = Some (Listed ''192.0.2.1'' ?sess)"
    unfolding handle_self [OF 1] by (simp add: handler_update)
  let ?s3 = "server_step id ?s2 ?l"
  have 3: "map_of (sv_handlers ?s3) 0 = Some (Running ''192.0.2.1'' (s_now ?sess) (AtPrompt t))"
    unfolding handle_self [OF 2] by (simp add: handler_update t)
  have "Call 0 (Network (Connect ''192.0.2.7:23'' (30 * second))) \<in> set (sv_trace (server_step id ?s3 ?p))"
    unfolding handle_self [OF 3] using 3 dials
    by (simp add: put_handler_def report_effects_def handler_trace_simps)
  moreover have "server_step id ?s3 ?p
      = server_run id (serving dialling_config InfoLevel None 0) (dialling_run @ [?l, ?l, ?l, ?p])"
    by (simp add: server_run_append del: server_step.simps)
  ultimately have "Call 0 (Network (Connect ''192.0.2.7:23'' (30 * second)))
      \<in> set (sv_trace (server_run id (serving dialling_config InfoLevel None 0) (dialling_run @ [?l, ?l, ?l, ?p])))"
    by (simp only:)
  from server_dials_phonebook_only [OF this] show ?thesis by (simp add: dialling_run_def)
qed

end
