(* ===== verification/Gateway.thy ===== *)
theory Gateway
  imports ServerRuns Watcher Probe
begin

section \<open>The gateway process (cmd/telix/main.go, internal/probe/probe.go: Start and Stop)\<close>

text \<open>
  What \<open>main\<close> wires together: the server, the prober, the config watcher and the one set of metrics,
  from startup to shutdown. The watcher's goroutine, the prober's cycle, the server's goroutines and
  \<open>main\<close> itself take steps in any order; \<open>onReload\<close> and the shutdown are cut where they block.

  \<^item> \<open>gw_probing\<close> is the cycle in flight: the targets whose probe has not come back yet.
  \<^item> \<open>gw_looping\<close> says whether the prober's goroutine is alive (its \<open>done\<close> not closed), \<open>gw_stopping\<close>
    whether its \<open>stop\<close> is closed. Between two cycles the goroutine waits in a \<open>select\<close> on \<open>stop\<close> and the
    ticker; with both ready either may be taken, so a cycle can still begin after the stop.
  \<^item> The metrics live in the server's state, as the program passes one pointer around.
  \<^item> Flags, signals, what the metrics HTTP server serves and standard output are not modelled beyond
    their log lines; \<open>gw_http\<close> is whether that server was started and its goroutine still runs; \<open>config.Load\<close> is \<open>load\<close>, with the third-party decoder as a parameter.
\<close>

subsection \<open>Metrics inventory\<close>

definition inventory_address :: "phonebook_entry \<Rightarrow> string" where
  "inventory_address e = (if pe_host e \<noteq> [] then join_host_port (pe_host e) (fmt_d (pe_port e)) else [])"

definition publish_phonebook :: "config \<Rightarrow> metrics option \<Rightarrow> metrics option" where
  "publish_phonebook cfg m =
     foldl (\<lambda>m e. phonebook_line (pe_name e) (inventory_address e) (pe_busy e) m) m (cfg_phonebook cfg)"

subsection \<open>State\<close>

datatype reload_stage =
    NoReload
  | Serving config "string list"
  | Published config "string list"
  | Draining config "string list"

datatype main_stage = Up | Signalled | WatcherStopped | ProberStopping | ProberStopped | MetricsStopped | Down

datatype metrics_http = NoHttp | HttpServing | HttpEnded

record gateway =
  gw_path :: string
  gw_server :: server
  gw_prober :: prober
  gw_looping :: bool
  gw_stopping :: bool
  gw_probing :: "probe_target list option"
  gw_watcher :: "watcher option"
  gw_http :: metrics_http
  gw_reload :: reload_stage
  gw_main :: main_stage

definition gateway_log :: "log_event \<Rightarrow> gateway \<Rightarrow> gateway" where
  "gateway_log e g = g\<lparr>gw_server := server_log e (gw_server g)\<rparr>"

definition on_metrics :: "(metrics option \<Rightarrow> metrics option) \<Rightarrow> gateway \<Rightarrow> gateway" where
  "on_metrics f g = g\<lparr>gw_server := (gw_server g)\<lparr>sv_metrics := f (sv_metrics (gw_server g))\<rparr>\<rparr>"

subsection \<open>The prober's loop\<close>

text \<open>\<open>Start\<close>; \<open>show\<close> is \<open>Duration.String\<close>.\<close>

definition probe_started_event :: "(duration \<Rightarrow> string) \<Rightarrow> prober \<Rightarrow> log_event" where
  "probe_started_event show p =
     ev_str ''interval'' (show (pr_interval p))
       (ev_int ''targets'' (int (length (pr_targets p))) (ev_str ''event'' ''probe_started'' (new_event InfoLevel)))"

definition start_prober :: "(duration \<Rightarrow> string) \<Rightarrow> prober \<Rightarrow> gateway \<Rightarrow> gateway" where
  "start_prober show p g =
     (let g1 = g\<lparr>gw_prober := p, gw_looping := pr_enabled p, gw_stopping := False,
                  gw_probing := (if pr_enabled p then Some (pr_targets p) else None)\<rparr>
      in if pr_enabled p then gateway_log (probe_started_event show p) g1 else g1)"

text \<open>
  The first cycle starts with the goroutine. A tick starts another when none is in flight; a probe comes
  back; the cycle ends with its last one; the goroutine sees \<open>stop\<close> between two cycles only.
\<close>

definition begin_cycle :: "gateway \<Rightarrow> gateway" where
  "begin_cycle g =
     (if gw_looping g \<and> gw_probing g = None then g\<lparr>gw_probing := Some (pr_targets (gw_prober g))\<rparr> else g)"

definition remove_nth :: "nat \<Rightarrow> 'a list \<Rightarrow> 'a list" where
  "remove_nth i xs = take i xs @ drop (Suc i) xs"

definition probe_returns ::
  "network \<Rightarrow> (dial_error \<Rightarrow> string) \<Rightarrow> duration \<Rightarrow> time \<Rightarrow> nat \<Rightarrow> gateway \<Rightarrow> gateway" where
  "probe_returns net show_err elapsed now i g =
     (case gw_probing g of
        None \<Rightarrow> g
      | Some ts \<Rightarrow>
          if i < length ts then
            (case probe_one net show_err elapsed now (ts ! i) (gw_prober g, sv_metrics (gw_server g)) of
               ((p, m), evs) \<Rightarrow>
                 foldl (\<lambda>g e. gateway_log e g)
                   (on_metrics (\<lambda>_. m) (g\<lparr>gw_prober := p, gw_probing := Some (remove_nth i ts)\<rparr>)) evs)
          else g)"

definition end_cycle :: "gateway \<Rightarrow> gateway" where
  "end_cycle g = (if gw_probing g = Some [] then g\<lparr>gw_probing := None\<rparr> else g)"

definition loop_ends :: "gateway \<Rightarrow> gateway" where
  "loop_ends g = (if gw_stopping g \<and> gw_probing g = None then g\<lparr>gw_looping := False\<rparr> else g)"

text \<open>\<open>Stop\<close> closes \<open>stop\<close>; its caller then waits until \<open>gw_looping\<close> is false.\<close>

definition close_stop :: "gateway \<Rightarrow> gateway" where
  "close_stop g = g\<lparr>gw_stopping := True\<rparr>"

subsection \<open>Reload\<close>

definition config_reloaded_event :: "string \<Rightarrow> config \<Rightarrow> string list \<Rightarrow> log_event" where
  "config_reloaded_event path next ignored =
     (let e = ev_int ''phonebook_entries'' (int (length (cfg_phonebook next)))
                (ev_str ''path'' path (ev_str ''event'' ''config_reloaded'' (new_event InfoLevel)))
      in if ignored \<noteq> [] then ev_str ''needs_restart'' (join_with '', '' ignored) e else e)"

definition config_reload_failed_event :: "(load_error \<Rightarrow> string) \<Rightarrow> string \<Rightarrow> load_error \<Rightarrow> log_event" where
  "config_reload_failed_event show_load path err =
     ev_err (Some (show_load err)) (ev_str ''path'' path (ev_str ''event'' ''config_reload_failed'' (new_event ErrorLevel)))"

text \<open>\<open>onReload\<close> as far as the first lock inside \<open>srv.Reload\<close>, then its stages: the steps of
  \<open>srv.Reload\<close>, the metrics, closing the prober's \<open>stop\<close>, and, once its goroutine has ended, the
  new prober and the log line.\<close>

definition on_reload :: "config \<Rightarrow> gateway \<Rightarrow> gateway" where
  "on_reload next g =
     (case begin_reload next (gw_server g) of
        (srv, ignored) \<Rightarrow> g\<lparr>gw_server := srv, gw_reload := Serving next ignored\<rparr>)"

definition republish :: "config \<Rightarrow> gateway \<Rightarrow> gateway" where
  "republish next g = on_metrics (\<lambda>m. publish_phonebook next (reset_phonebook_series m)) g"

definition reload_turn :: "(duration \<Rightarrow> string) \<Rightarrow> gateway \<Rightarrow> gateway" where
  "reload_turn show g =
     (case gw_reload g of
        NoReload \<Rightarrow> g
      | Serving next ignored \<Rightarrow>
          if sv_reload (gw_server g) \<noteq> None then g\<lparr>gw_server := next_reload_step (gw_server g)\<rparr>
          else (republish next g)\<lparr>gw_reload := Published next ignored\<rparr>
      | Published next ignored \<Rightarrow> (close_stop g)\<lparr>gw_reload := Draining next ignored\<rparr>
      | Draining next ignored \<Rightarrow>
          if gw_looping g then g
          else (gateway_log (config_reloaded_event (gw_path g) next ignored) (start_prober show (new_prober next) g))
                 \<lparr>gw_reload := NoReload\<rparr>)"

text \<open>One poll of the watcher, which calls back at most once.\<close>

definition watch_turn ::
  "(bytes \<Rightarrow> config \<Rightarrow> string + config) \<Rightarrow> (bytes \<Rightarrow> bytes) \<Rightarrow> (load_error \<Rightarrow> string) \<Rightarrow>
     string + bytes \<Rightarrow> string + bytes \<Rightarrow> gateway \<Rightarrow> gateway" where
  "watch_turn unmarshal sha show_load f1 f2 g =
     (case gw_watcher g of
        Some w \<Rightarrow>
          if gw_reload g = NoReload then
            (case poll unmarshal sha f1 f2 w of
               (w', evs) \<Rightarrow>
                 foldl (\<lambda>g e. case e of
                    OnReload next \<Rightarrow> on_reload next g
                  | OnError err \<Rightarrow> gateway_log (config_reload_failed_event show_load (gw_path g) err) g)
                   (g\<lparr>gw_watcher := Some w'\<rparr>) evs)
          else g
      | None \<Rightarrow> g)"

subsection \<open>Startup\<close>

definition startup_event :: "string \<Rightarrow> config \<Rightarrow> log_event" where
  "startup_event ver cfg =
     ev_int ''phonebook_entries'' (int (length (cfg_phonebook cfg)))
       (ev_str ''version'' ver (ev_str ''event'' ''startup'' (new_event InfoLevel)))"

definition metrics_server_started_event :: "config \<Rightarrow> log_event" where
  "metrics_server_started_event cfg =
     ev_str ''addr'' (metrics_addr (cfg_metrics cfg)) (ev_str ''event'' ''metrics_server_started'' (new_event InfoLevel))"

text \<open>The goroutine of \<open>startMetricsServer\<close>, when \<open>ListenAndServe\<close> fails.\<close>

definition metrics_server_failed_event :: "string \<Rightarrow> log_event" where
  "metrics_server_failed_event err = ev_err (Some err) (ev_str ''event'' ''metrics_server_failed'' (new_event ErrorLevel))"

definition metrics_server_fails :: "string \<Rightarrow> gateway \<Rightarrow> gateway" where
  "metrics_server_fails err g =
     (if gw_http g = HttpServing then gateway_log (metrics_server_failed_event err) (g\<lparr>gw_http := HttpEnded\<rparr>) else g)"

definition metrics_http_of :: "config \<Rightarrow> metrics_http" where
  "metrics_http_of cfg = (if mc_enabled (cfg_metrics cfg) then HttpServing else NoHttp)"

definition watch_event_of :: "(duration \<Rightarrow> string) \<Rightarrow> string \<Rightarrow> config \<Rightarrow> log_event" where
  "watch_event_of show path cfg =
     (if rc_enabled (cfg_reload cfg) then
        ev_str ''interval'' (show (reload_get_interval (cfg_reload cfg)))
          (ev_str ''path'' path (ev_str ''event'' ''config_watch_started'' (new_event InfoLevel)))
      else ev_str ''path'' path (ev_str ''event'' ''config_watch_disabled'' (new_event InfoLevel)))"

definition initial_metrics :: "string \<Rightarrow> config \<Rightarrow> metrics option" where
  "initial_metrics ver cfg =
     (if mc_enabled (cfg_metrics cfg) then publish_phonebook cfg (set_build_info ver (Some new_metrics)) else None)"

definition start_config_watcher :: "(duration \<Rightarrow> string) \<Rightarrow> config \<Rightarrow> gateway \<Rightarrow> gateway" where
  "start_config_watcher show cfg g =
     gateway_log (watch_event_of show (gw_path g) cfg)
       (g\<lparr>gw_watcher := (if rc_enabled (cfg_reload cfg) then Some (new_watcher cfg) else None)\<rparr>)"

datatype start_error = LoadFailed load_error | ListenFailed string

text \<open>The server as \<open>main\<close> builds it, and the rest wired to it once it listens.\<close>

definition boot_server :: "string \<Rightarrow> config \<Rightarrow> time \<Rightarrow> server" where
  "boot_server ver cfg now =
     (let level = parse_level (lgc_level (cfg_logging cfg));
          srv = server_log (startup_event ver cfg) (new_server cfg level (initial_metrics ver cfg) now)
      in if mc_enabled (cfg_metrics cfg) then server_log (metrics_server_started_event cfg) srv else srv)"

definition wire_gateway :: "(duration \<Rightarrow> string) \<Rightarrow> string \<Rightarrow> config \<Rightarrow> server \<Rightarrow> gateway" where
  "wire_gateway show path cfg srv =
     (let p = new_prober cfg in
      start_config_watcher show cfg
        (start_prober show p
          \<lparr>gw_path = path, gw_server = srv, gw_prober = p, gw_looping = False, gw_stopping = False,
           gw_probing = None, gw_watcher = None, gw_http = metrics_http_of cfg, gw_reload = NoReload, gw_main = Up\<rparr>))"

text \<open>\<open>main\<close> from \<open>config.Load\<close> to waiting for a signal; \<open>file\<close> and \<open>listen\<close> are what the file and the
  listening socket come to.\<close>

definition start_gateway ::
  "(bytes \<Rightarrow> config \<Rightarrow> string + config) \<Rightarrow> (bytes \<Rightarrow> bytes) \<Rightarrow> (duration \<Rightarrow> string) \<Rightarrow> string \<Rightarrow> string \<Rightarrow>
     string + bytes \<Rightarrow> string option \<Rightarrow> time \<Rightarrow> start_error + gateway" where
  "start_gateway unmarshal sha show ver path file listen now =
     (case load unmarshal sha file of
        Inl err \<Rightarrow> Inl (LoadFailed err)
      | Inr loaded \<Rightarrow>
          (let cfg = loaded\<lparr>cfg_version := ver\<rparr> in
           case start_server listen (boot_server ver cfg now) of
             Inl err \<Rightarrow> Inl (ListenFailed err)
           | Inr srv \<Rightarrow> Inr (wire_gateway show path cfg srv)))"

subsection \<open>Shutdown\<close>

definition shutdown_signal_event :: "string \<Rightarrow> log_event" where
  "shutdown_signal_event name = ev_str ''signal'' name (ev_str ''event'' ''shutdown_signal'' (new_event InfoLevel))"

definition metrics_shutdown_error_event :: "string \<Rightarrow> log_event" where
  "metrics_shutdown_error_event err = ev_err (Some err) (ev_str ''event'' ''metrics_shutdown_error'' (new_event WarnLevel))"

text \<open>\<open>metricsSrv.Shutdown\<close>; \<open>err\<close> is what it returns.\<close>

definition stop_metrics_server :: "string option \<Rightarrow> gateway \<Rightarrow> gateway" where
  "stop_metrics_server err g =
     (if gw_http g = NoHttp then g
      else (case err of None \<Rightarrow> g | Some e \<Rightarrow> gateway_log (metrics_shutdown_error_event e) g)\<lparr>gw_http := HttpEnded\<rparr>)"

text \<open>\<open>main\<close> after the signal: \<open>watcher.Stop\<close> waits for the poll in flight and so for its reload,
  \<open>stopProber\<close> for the prober's goroutine, then the metrics server and \<open>srv.Stop\<close>.\<close>

definition main_turn :: "string \<Rightarrow> string option \<Rightarrow> gateway \<Rightarrow> gateway" where
  "main_turn signal err g =
     (case gw_main g of
        Up \<Rightarrow> (gateway_log (shutdown_signal_event signal) g)\<lparr>gw_main := Signalled\<rparr>
      | Signalled \<Rightarrow>
          if gw_reload g = NoReload then g\<lparr>gw_watcher := None, gw_main := WatcherStopped\<rparr> else g
      | WatcherStopped \<Rightarrow> (close_stop g)\<lparr>gw_main := ProberStopping\<rparr>
      | ProberStopping \<Rightarrow> if gw_looping g then g else g\<lparr>gw_main := ProberStopped\<rparr>
      | ProberStopped \<Rightarrow> (stop_metrics_server err g)\<lparr>gw_main := MetricsStopped\<rparr>
      | MetricsStopped \<Rightarrow> g\<lparr>gw_server := stop_server (gw_server g), gw_main := Down\<rparr>
      | Down \<Rightarrow> g)"

subsection \<open>Runs\<close>

datatype gateway_label =
    Serve server_label
  | Watch "string + bytes" "string + bytes"
  | ReloadTurn
  | CycleBegins
  | ProbeReturns network duration time nat
  | CycleEnds
  | LoopEnds
  | MetricsServerFails string
  | MainTurn string "string option"

text \<open>The server's own steps; its reloads and its stop come from here.\<close>

fun served :: "server_label \<Rightarrow> bool" where
  "served (BeginReload cfg) = False"
| "served ReloadStep = False"
| "served StopServer = False"
| "served _ = True"

record outside =
  os_unmarshal :: "bytes \<Rightarrow> config \<Rightarrow> string + config"
  os_sha :: "bytes \<Rightarrow> bytes"
  os_show :: "duration \<Rightarrow> string"
  os_show_load :: "load_error \<Rightarrow> string"
  os_show_dial :: "dial_error \<Rightarrow> string"
  os_iter :: attempt_order

fun gateway_step :: "outside \<Rightarrow> gateway \<Rightarrow> gateway_label \<Rightarrow> gateway" where
  "gateway_step os g (Serve l) =
     (if served l then g\<lparr>gw_server := server_step (os_iter os) (gw_server g) l\<rparr> else g)"
| "gateway_step os g (Watch f1 f2) = watch_turn (os_unmarshal os) (os_sha os) (os_show_load os) f1 f2 g"
| "gateway_step os g ReloadTurn = reload_turn (os_show os) g"
| "gateway_step os g CycleBegins = begin_cycle g"
| "gateway_step os g (ProbeReturns net elapsed now i) = probe_returns net (os_show_dial os) elapsed now i g"
| "gateway_step os g CycleEnds = end_cycle g"
| "gateway_step os g LoopEnds = loop_ends g"
| "gateway_step os g (MetricsServerFails err) = metrics_server_fails err g"
| "gateway_step os g (MainTurn signal err) = main_turn signal err g"

definition gateway_run :: "outside \<Rightarrow> gateway \<Rightarrow> gateway_label list \<Rightarrow> gateway" where
  "gateway_run os g ls = foldl (gateway_step os) g ls"

end
