(* ===== verification/GatewayFacts.thy ===== *)
theory GatewayFacts
  imports Gateway
begin

section \<open>What the gateway keeps from startup to shutdown\<close>

subsection \<open>The inventory series\<close>

definition inventory_line :: "phonebook_entry \<Rightarrow> string \<times> string \<times> bool" where
  "inventory_line e = (if pe_name e = [] then ''unnamed'' else pe_name e, inventory_address e, pe_busy e)"

definition inventory_is :: "config \<Rightarrow> metrics option \<Rightarrow> bool" where
  "inventory_is cfg m \<longleftrightarrow>
     (case m of None \<Rightarrow> True | Some m \<Rightarrow> set (phonebookEntry m) = inventory_line ` set (cfg_phonebook cfg))"

lemma publish_series:
  "\<exists>m'. foldl (\<lambda>m e. phonebook_line (pe_name e) (inventory_address e) (pe_busy e) m) (Some m) es = Some m'
     \<and> set (phonebookEntry m') = set (phonebookEntry m) \<union> inventory_line ` set es
     \<and> dialsTotal m' = dialsTotal m \<and> sessionsActive m' = sessionsActive m \<and> dialsInFlight m' = dialsInFlight m"
proof (induction es arbitrary: m)
  case (Cons e es)
  let ?m = "m\<lparr>phonebookEntry := List.insert (inventory_line e) (phonebookEntry m)\<rparr>"
  have "phonebook_line (pe_name e) (inventory_address e) (pe_busy e) (Some m) = Some ?m"
    by (simp add: phonebook_line_def inventory_line_def)
  then show ?case using Cons.IH [of ?m] by auto
qed simp

lemma publish_none: "foldl (\<lambda>m e. phonebook_line (f e) (g e) (h e) m) None es = None"
  by (induction es) (simp_all add: phonebook_line_def)

lemma inventory_republished: "inventory_is cfg (publish_phonebook cfg (reset_phonebook_series m))"
proof (cases m)
  case (Some m0)
  show ?thesis
    using publish_series [of "m0\<lparr>phonebookEntry := [], bbsReachable := [], bbsProbeDur := [], bbsProbeTime := []\<rparr>" "cfg_phonebook cfg"]
    by (auto simp: Some publish_phonebook_def reset_phonebook_series_def inventory_is_def)
qed (simp add: publish_phonebook_def publish_none inventory_is_def reset_phonebook_series_def)

lemma gauges_published: "gauges m k \<Longrightarrow> gauges (publish_phonebook cfg m) k"
proof (cases m)
  case (Some m0)
  assume "gauges m k"
  then show ?thesis
    using publish_series [of m0 "cfg_phonebook cfg"] by (auto simp: Some publish_phonebook_def gauges_def)
qed (simp add: publish_phonebook_def publish_none)

lemma gauges_reset: "gauges m k \<Longrightarrow> gauges (reset_phonebook_series m) k"
  by (cases m) (simp_all add: gauges_def reset_phonebook_series_def)

lemma inventory_initial: "inventory_is cfg (initial_metrics ver cfg)" "gauges (initial_metrics ver cfg) 0"
proof -
  show "gauges (initial_metrics ver cfg) 0"
    unfolding initial_metrics_def
    by (cases "mc_enabled (cfg_metrics cfg)")
      (auto intro!: gauges_published, simp_all add: gauges_def set_build_info_def new_metrics_def)
  show "inventory_is cfg (initial_metrics ver cfg)"
    using publish_series [of "new_metrics\<lparr>buildInfo := List.insert ver (buildInfo new_metrics)\<rparr>" "cfg_phonebook cfg"]
    by (auto simp: initial_metrics_def publish_phonebook_def set_build_info_def inventory_is_def new_metrics_def)
qed

text \<open>Calls, sessions and probes leave the inventory alone, and probes the gauges.\<close>

definition inventory_of :: "metrics option \<Rightarrow> (string \<times> string \<times> bool) list option" where
  "inventory_of m = map_option phonebookEntry m"

lemma inventory_is_cong: "inventory_of m' = inventory_of m \<Longrightarrow> inventory_is cfg m' = inventory_is cfg m"
  by (cases m; cases m') (simp_all add: inventory_of_def inventory_is_def)

lemma inventory_step [simp]: "inventory_of (metric_step m c) = inventory_of m"
  by (cases m; cases c) (simp_all add: inventory_of_def session_started_def session_ended_def connection_rejected_def
      dial_started_def dial_completed_def bytes_transferred_def)

lemma inventory_steps [simp]: "inventory_of (foldl metric_step m cs) = inventory_of m"
  by (induction cs arbitrary: m) simp_all

lemma inventory_put [simp]: "inventory_of (sv_metrics (put_handler n h s)) = inventory_of (sv_metrics s)"
  by (simp add: put_handler_metrics)

lemma inventory_small [simp]:
  "inventory_of (sv_metrics (count_metric c s)) = inventory_of (sv_metrics s)"
  "inventory_of (sv_metrics (refuse n reason e s)) = inventory_of (sv_metrics s)"
  by (simp_all del: metric_step.simps)

lemma inventory_handler_step: "inventory_of (sv_metrics (handler_step iter now fs l n h s)) = inventory_of (sv_metrics s)"
  by (cases "(iter, now, fs, l, n, h, s)" rule: handler_step.cases)
    (auto simp: Let_def simp del: small_fields(10) refuse_fields(9) split: prod.split bool.split label.split)

lemma inventory_close_all: "inventory_of (sv_metrics (foldl (\<lambda>s n. close_session n s) s ns)) = inventory_of (sv_metrics s)"
  by (induction ns arbitrary: s) (simp_all add: close_session_def split: option.split)

lemma inventory_server_step: "inventory_of (sv_metrics (server_step iter s l)) = inventory_of (sv_metrics s)"
proof (cases l)
  case (Accept r ok)
  then show ?thesis by (auto simp: accept_step_def Let_def server_log_def split: accept_state.split accept_result.split)
next
  case (Handle n now fs l)
  then show ?thesis by (simp add: handle_step_def inventory_handler_step split: option.split)
next
  case ReloadStep
  then show ?thesis by (auto simp: next_reload_step_def reload_step_frame split: option.split list.split)
qed (simp_all add: begin_reload_def stop_server_def Let_def inventory_close_all)

lemma probed_series:
  "\<exists>m'. foldl (\<lambda>m e. bbs_probed e a up d t m) (Some m) es = Some m' \<and> phonebookEntry m' = phonebookEntry m
     \<and> dialsTotal m' = dialsTotal m \<and> sessionsActive m' = sessionsActive m \<and> dialsInFlight m' = dialsInFlight m"
proof (induction es arbitrary: m)
  case (Cons e es)
  let ?m = "m\<lparr>bbsReachable := AList.update (e, a) up (bbsReachable m),
       bbsProbeDur := AList.update (e, a) d (bbsProbeDur m), bbsProbeTime := AList.update (e, a) t (bbsProbeTime m)\<rparr>"
  have "bbs_probed e a up d t (Some m) = Some ?m" by (simp add: bbs_probed_def)
  then show ?case using Cons.IH [of ?m] by simp
qed simp

lemma probed_none: "foldl (\<lambda>m e. bbs_probed e a up d t m) None es = None"
  by (induction es) (simp_all add: bbs_probed_def)

lemma probe_one_metrics:
  assumes "probe_one net show_err elapsed now t (p, m) = ((p', m'), evs)"
  shows "inventory_of m' = inventory_of m" and "gauges m k \<Longrightarrow> gauges m' k"
proof -
  define up where "up = (snd (probe_host net (pr_dialer p) (tg_host t) (tg_port t)) = None)"
  have m': "m' = foldl (\<lambda>m e. bbs_probed e (tg_address t) up elapsed now m) m (tg_entries t)"
    using assms by (auto simp: probe_one_def Let_def up_def split: prod.splits)
  have "inventory_of m' = inventory_of m \<and> (gauges m k \<longrightarrow> gauges m' k)"
  proof (cases m)
    case (Some m0)
    obtain x where "m' = Some x" "phonebookEntry x = phonebookEntry m0" "dialsTotal x = dialsTotal m0"
      "sessionsActive x = sessionsActive m0" "dialsInFlight x = dialsInFlight m0"
      using probed_series [of "tg_address t" up elapsed now m0 "tg_entries t"] by (auto simp: m' Some)
    then show ?thesis by (simp add: Some inventory_of_def gauges_def)
  qed (simp add: m' probed_none)
  then show "inventory_of m' = inventory_of m" "gauges m k \<Longrightarrow> gauges m' k" by simp_all
qed

lemma probe_one_prober:
  "probe_one net show_err elapsed now t (p, m) = ((p', m'), evs) \<Longrightarrow>
     pr_targets p' = pr_targets p \<and> pr_dialer p' = pr_dialer p \<and> pr_interval p' = pr_interval p \<and> pr_enabled p' = pr_enabled p"
  by (auto simp: probe_one_def log_change_def Let_def split: prod.splits if_splits)

subsection \<open>The server inside the gateway\<close>

lemma served_frame:
  assumes "served l"
  shows "settings (server_step iter s l) = settings s" and "sv_reload (server_step iter s l) = sv_reload s"
    and "sv_done (server_step iter s l) = sv_done s"
proof -
  have "settings (server_step iter s l) = settings s \<and> sv_reload (server_step iter s l) = sv_reload s
      \<and> sv_done (server_step iter s l) = sv_done s"
  proof (cases l)
    case (Accept r ok)
    then show ?thesis
      by (auto simp: accept_step_def Let_def settings_def server_log_def split: accept_state.split accept_result.split)
  next
    case (Handle n now fs l)
    then show ?thesis
      using handle_done [of iter s n now fs l]
      by (simp add: handle_step_def settings_handler_step handler_step_reload split: option.split)
  next
    case (LimiterTick now)
    then show ?thesis by (simp add: settings_def cleanup_tick_def Let_def)
  qed (use assms in simp_all)
  then show "settings (server_step iter s l) = settings s" "sv_reload (server_step iter s l) = sv_reload s"
    "sv_done (server_step iter s l) = sv_done s" by simp_all
qed

lemma settings_config: "settings t = settings s \<Longrightarrow> sv_config t = sv_config s"
  by (simp add: settings_def)

lemma server_inv_metrics:
  "server_inv s \<Longrightarrow> (\<And>k. gauges (sv_metrics s) k \<Longrightarrow> gauges m k) \<Longrightarrow> server_inv (s\<lparr>sv_metrics := m\<rparr>)"
  by (simp add: server_inv_def server_pieces)

lemma settings_metrics [simp]: "settings (s\<lparr>sv_metrics := m\<rparr>) = settings s"
  by (simp add: settings_def)

lemma consistent_metrics [simp]: "consistent (s\<lparr>sv_metrics := m\<rparr>) = consistent s" "consistent (server_log e s) = consistent s"
  by (rule consistent_cong; simp)+

lemma config_ok_version [simp]: "config_ok (c\<lparr>cfg_version := v\<rparr>) = config_ok c"
  by (simp add: config_ok_def)

subsection \<open>The invariant\<close>

definition built_from :: "config \<Rightarrow> prober \<Rightarrow> bool" where
  "built_from cfg p \<longleftrightarrow> pr_targets p = pr_targets (new_prober cfg) \<and> pr_dialer p = pr_dialer (new_prober cfg)
     \<and> pr_interval p = pr_interval (new_prober cfg) \<and> pr_enabled p = pr_enabled (new_prober cfg)"

text \<open>\<open>applied v next cfg\<close>: the configuration in force is the reloaded one with the build's version.\<close>

definition applied :: "string \<Rightarrow> config \<Rightarrow> config \<Rightarrow> bool" where
  "applied v next cfg \<longleftrightarrow> cfg = next\<lparr>cfg_version := v\<rparr>"

definition stage_inv :: "string \<Rightarrow> gateway \<Rightarrow> bool" where
  "stage_inv v g \<longleftrightarrow>
     (let cfg = sv_config (gw_server g); m = sv_metrics (gw_server g) in
      case gw_reload g of
        NoReload \<Rightarrow> sv_reload (gw_server g) = None \<and> inventory_is cfg m \<and> built_from cfg (gw_prober g)
          \<and> (gw_looping g \<longrightarrow> pr_enabled (gw_prober g))
          \<and> (gw_main g \<in> {Up, Signalled, WatcherStopped} \<longrightarrow> \<not> gw_stopping g)
      | Serving next ignored \<Rightarrow> config_ok next
          \<and> (case sv_reload (gw_server g) of None \<Rightarrow> applied v next cfg | Some (c, ops) \<Rightarrow> applied v next c)
          \<and> \<not> gw_stopping g
      | Published next ignored \<Rightarrow> config_ok next \<and> applied v next cfg \<and> sv_reload (gw_server g) = None \<and> inventory_is cfg m
          \<and> \<not> gw_stopping g
      | Draining next ignored \<Rightarrow> config_ok next \<and> applied v next cfg \<and> sv_reload (gw_server g) = None \<and> inventory_is cfg m
          \<and> gw_stopping g)"

definition main_inv :: "gateway \<Rightarrow> bool" where
  "main_inv g \<longleftrightarrow>
     (case gw_main g of
        Up \<Rightarrow> \<not> sv_done (gw_server g)
      | Signalled \<Rightarrow> \<not> sv_done (gw_server g)
      | WatcherStopped \<Rightarrow> \<not> sv_done (gw_server g) \<and> gw_watcher g = None \<and> gw_reload g = NoReload
      | ProberStopping \<Rightarrow> \<not> sv_done (gw_server g) \<and> gw_watcher g = None \<and> gw_reload g = NoReload \<and> gw_stopping g
      | ProberStopped \<Rightarrow> \<not> sv_done (gw_server g) \<and> gw_watcher g = None \<and> gw_reload g = NoReload \<and> \<not> gw_looping g
      | MetricsStopped \<Rightarrow> \<not> sv_done (gw_server g) \<and> gw_watcher g = None \<and> gw_reload g = NoReload \<and> \<not> gw_looping g
          \<and> gw_http g \<noteq> HttpServing
      | Down \<Rightarrow> sv_done (gw_server g) \<and> gw_watcher g = None \<and> gw_reload g = NoReload \<and> \<not> gw_looping g
          \<and> gw_http g \<noteq> HttpServing)"

text \<open>A cycle is in flight only while the prober's goroutine is alive.\<close>

definition loop_inv :: "gateway \<Rightarrow> bool" where
  "loop_inv g \<longleftrightarrow> (gw_probing g \<noteq> None \<longrightarrow> gw_looping g)"

definition gateway_inv :: "string \<Rightarrow> duration \<Rightarrow> gateway \<Rightarrow> bool" where
  "gateway_inv v interval g \<longleftrightarrow> server_inv (gw_server g) \<and> consistent (gw_server g)
     \<and> config_ok (sv_config (gw_server g)) \<and> cfg_version (sv_config (gw_server g)) = v
     \<and> stage_inv v g \<and> main_inv g \<and> loop_inv g \<and> (\<forall>w. gw_watcher g = Some w \<longrightarrow> w_interval w = interval)"

lemmas gateway_pieces = gateway_inv_def stage_inv_def main_inv_def loop_inv_def close_stop_def

lemma gateway_log_fields [simp]:
  "gw_prober (gateway_log e g) = gw_prober g" "gw_looping (gateway_log e g) = gw_looping g"
  "gw_http (gateway_log e g) = gw_http g"
  "gw_stopping (gateway_log e g) = gw_stopping g"
  "gw_probing (gateway_log e g) = gw_probing g" "gw_watcher (gateway_log e g) = gw_watcher g"
  "gw_reload (gateway_log e g) = gw_reload g" "gw_main (gateway_log e g) = gw_main g"
  "gw_path (gateway_log e g) = gw_path g" "gw_server (gateway_log e g) = server_log e (gw_server g)"
  by (simp_all add: gateway_log_def)

lemma on_metrics_fields [simp]:
  "gw_prober (on_metrics f g) = gw_prober g" "gw_looping (on_metrics f g) = gw_looping g"
  "gw_http (on_metrics f g) = gw_http g"
  "gw_stopping (on_metrics f g) = gw_stopping g"
  "gw_probing (on_metrics f g) = gw_probing g" "gw_watcher (on_metrics f g) = gw_watcher g"
  "gw_reload (on_metrics f g) = gw_reload g" "gw_main (on_metrics f g) = gw_main g"
  "gw_path (on_metrics f g) = gw_path g"
  "gw_server (on_metrics f g) = (gw_server g)\<lparr>sv_metrics := f (sv_metrics (gw_server g))\<rparr>"
  by (simp_all add: on_metrics_def)

lemma gateway_inv_log [simp]: "gateway_inv v i (gateway_log e g) = gateway_inv v i g"
  by (simp add: gateway_pieces split: reload_stage.split main_stage.split)

text \<open>A step of the server that is its own changes nothing the gateway depends on.\<close>

lemma gateway_inv_serve:
  assumes "gateway_inv v i g" and "served l"
  shows "gateway_inv v i (g\<lparr>gw_server := server_step iter (gw_server g) l\<rparr>)"
proof -
  let ?s = "gw_server g" and ?t = "server_step iter (gw_server g) l"
  note f = served_frame [OF assms(2), of iter ?s]
  have "sv_config ?t = sv_config ?s" using f(1) by (rule settings_config)
  moreover have "inventory_is cfg (sv_metrics ?t) = inventory_is cfg (sv_metrics ?s)" for cfg
    by (rule inventory_is_cong [OF inventory_server_step])
  moreover have "server_inv ?t" using assms(1) server_inv_step by (simp add: gateway_inv_def)
  moreover have "consistent ?t" using assms(1) consistent_step by (simp add: gateway_inv_def)
  ultimately show ?thesis
    using assms(1) f by (simp add: gateway_pieces Let_def cong: reload_stage.case_cong main_stage.case_cong option.case_cong)
qed

lemma foldl_log_fields:
  "gw_prober (foldl (\<lambda>g e. gateway_log e g) g evs) = gw_prober g"
  "gateway_inv v i (foldl (\<lambda>g e. gateway_log e g) g evs) = gateway_inv v i g"
  by (induction evs arbitrary: g) simp_all

lemma gateway_inv_probe:
  assumes "gateway_inv v i g"
  shows "gateway_inv v i (probe_returns net show_err elapsed now k g)"
proof (cases "gw_probing g")
  case (Some ts)
  show ?thesis
  proof (cases "k < length ts")
    case True
    obtain p m evs where r: "probe_one net show_err elapsed now (ts ! k) (gw_prober g, sv_metrics (gw_server g)) = ((p, m), evs)"
      by (metis prod.exhaust)
    note pm = probe_one_metrics [OF r] and pp = probe_one_prober [OF r]
    let ?g = "on_metrics (\<lambda>_. m) (g\<lparr>gw_prober := p, gw_probing := Some (remove_nth k ts)\<rparr>)"
    have inv: "inventory_is cfg m = inventory_is cfg (sv_metrics (gw_server g))" for cfg
      by (rule inventory_is_cong [OF pm(1)])
    have "server_inv (gw_server ?g)"
      using assms pm(2) by (simp add: gateway_inv_def server_inv_metrics)
    moreover have "built_from cfg p = built_from cfg (gw_prober g)" for cfg using pp by (simp add: built_from_def)
    ultimately have "gateway_inv v i ?g"
      using assms Some pp
      by (auto simp: gateway_pieces Let_def inv split: reload_stage.splits main_stage.splits)
    then show ?thesis using Some True r by (simp add: probe_returns_def foldl_log_fields)
  qed (use Some assms in \<open>simp add: probe_returns_def\<close>)
qed (use assms in \<open>simp add: probe_returns_def\<close>)

lemma applied_config: "applied v next cfg \<Longrightarrow> config_ok next \<Longrightarrow> config_ok cfg \<and> cfg_version cfg = v \<and> cfg_phonebook cfg = cfg_phonebook next"
  by (auto simp: applied_def config_ok_def)

lemma new_prober_version: "new_prober (c\<lparr>cfg_version := v\<rparr>) = new_prober c"
  by (simp add: new_prober_def)

lemma built_from_applied: "applied v next cfg \<Longrightarrow> built_from cfg (new_prober next)"
  by (auto simp: applied_def built_from_def new_prober_version)

lemma inventory_applied: "applied v next cfg \<Longrightarrow> inventory_is cfg m = inventory_is next m"
  by (simp add: applied_def inventory_is_def split: option.split)

lemma reload_step_config: "sv_config (reload_step op cfg s) = (if op = StoreConfig then cfg else sv_config s)"
  by (cases op) (simp_all add: Let_def)

text \<open>A step of \<open>srv.Reload\<close>: the configuration changes with the last one only.\<close>

lemma reload_turn_config:
  assumes "consistent s" and "sv_reload s = Some (cfg, ops)"
  shows "sv_metrics (next_reload_step s) = sv_metrics s" "sv_done (next_reload_step s) = sv_done s"
    and "if sv_reload (next_reload_step s) = None then sv_config (next_reload_step s) = cfg
         else sv_config (next_reload_step s) = sv_config s \<and> (\<exists>ops'. sv_reload (next_reload_step s) = Some (cfg, ops'))"
proof -
  obtain op ops' applied where o: "ops = op # ops'" "reload_ops = applied @ op # ops'"
    using assms by (cases ops) (auto simp: consistent_def)
  have n: "next_reload_step s = (reload_step op cfg s)\<lparr>sv_reload := (if ops' = [] then None else Some (cfg, ops'))\<rparr>"
    using assms(2) o(1) by (simp add: next_reload_step_def)
  have "op = StoreConfig \<longleftrightarrow> ops' = []" using o(2) by (auto simp: reload_ops_def Cons_eq_append_conv)
  then show "if sv_reload (next_reload_step s) = None then sv_config (next_reload_step s) = cfg
         else sv_config (next_reload_step s) = sv_config s \<and> (\<exists>ops'. sv_reload (next_reload_step s) = Some (cfg, ops'))"
    by (simp add: n reload_step_config)
  show "sv_metrics (next_reload_step s) = sv_metrics s" "sv_done (next_reload_step s) = sv_done s"
    by (simp_all add: n reload_step_frame)
qed

lemma gateway_inv_reload_turn:
  assumes inv: "gateway_inv v i g"
  shows "gateway_inv v i (reload_turn show g)"
proof (cases "gw_reload g")
  case NoReload
  then show ?thesis using inv by (simp add: reload_turn_def)
next
  case (Serving new ignored)
  let ?s = "gw_server g"
  have main: "main_inv (g\<lparr>gw_server := t, gw_reload := r\<rparr>)" if "sv_done t = sv_done ?s" for t r
    using inv Serving that by (auto simp: gateway_inv_def main_inv_def split: main_stage.splits)
  have new: "config_ok new" using inv Serving by (simp add: gateway_pieces Let_def)
  show ?thesis
  proof (cases "sv_reload ?s")
    case None
    then have a: "applied v new (sv_config ?s)" using inv Serving by (simp add: gateway_pieces Let_def)
    let ?m = "publish_phonebook new (reset_phonebook_series (sv_metrics ?s))"
    have "server_inv (?s\<lparr>sv_metrics := ?m\<rparr>)"
      using inv by (simp add: gateway_inv_def server_inv_metrics gauges_published gauges_reset)
    moreover have "inventory_is (sv_config ?s) ?m" using a inventory_republished inventory_applied by blast
    moreover have "main_inv ((republish new g)\<lparr>gw_reload := Published new ignored\<rparr>)"
      using main [of "?s\<lparr>sv_metrics := ?m\<rparr>" "Published new ignored"] by (simp add: republish_def on_metrics_def)
    ultimately show ?thesis
      using inv Serving None a new
      by (simp add: reload_turn_def gateway_inv_def stage_inv_def Let_def) (simp add: republish_def loop_inv_def)
  next
    case (Some p)
    obtain c ops where p: "sv_reload ?s = Some (c, ops)" using Some by (cases p) simp
    have c: "consistent ?s" using inv by (simp add: gateway_inv_def)
    note r = reload_turn_config [OF c p]
    have a: "applied v new c" using inv Serving p by (simp add: gateway_pieces Let_def)
    have "g\<lparr>gw_server := next_reload_step ?s\<rparr> = g\<lparr>gw_server := next_reload_step ?s, gw_reload := Serving new ignored\<rparr>"
      using Serving by simp
    then have "main_inv (g\<lparr>gw_server := next_reload_step ?s\<rparr>)" using main [OF r(2)] by metis
    moreover have "server_inv (next_reload_step ?s)" "consistent (next_reload_step ?s)"
      using inv server_inv_reload consistent_reload_step by (simp_all add: gateway_inv_def)
    ultimately show ?thesis
      using inv Serving p a r(3) new applied_config [OF a new]
      by (auto simp: reload_turn_def gateway_inv_def stage_inv_def loop_inv_def Let_def split: if_splits)
  qed
next
  case (Published new ignored)
  then show ?thesis
    using inv by (auto simp: reload_turn_def gateway_pieces Let_def split: main_stage.splits)
next
  case (Draining new ignored)
  show ?thesis
  proof (cases "gw_looping g")
    case False
    let ?p = "new_prober new"
    let ?g = "g\<lparr>gw_prober := ?p, gw_looping := pr_enabled ?p, gw_stopping := False,
        gw_probing := (if pr_enabled ?p then Some (pr_targets ?p) else None), gw_reload := NoReload\<rparr>"
    have "gateway_inv v i ?g"
      using inv Draining built_from_applied [of v new "sv_config (gw_server g)"]
      by (auto simp: gateway_pieces Let_def split: main_stage.splits)
    moreover have "reload_turn show g = (gateway_log (config_reloaded_event (gw_path g) new ignored)
        (if pr_enabled ?p then gateway_log (probe_started_event show ?p) ?g else ?g))"
      using Draining False by (simp add: reload_turn_def start_prober_def Let_def gateway_log_def)
    ultimately show ?thesis by (cases "pr_enabled ?p") simp_all
  qed (use inv Draining in \<open>simp add: reload_turn_def\<close>)
qed

lemma poll_facts:
  assumes "poll unmarshal sha f1 f2 w = (w', evs)"
  shows "w_interval w' = w_interval w" and "evs = [] \<or> (\<exists>err. evs = [OnError err]) \<or> (\<exists>cfg. evs = [OnReload cfg] \<and> config_ok cfg)"
  using assms load_digest [of unmarshal sha f2]
  by (auto simp: poll_def Let_def split: sum.splits if_splits)

lemma gateway_inv_watch:
  assumes inv: "gateway_inv v i g"
  shows "gateway_inv v i (watch_turn unmarshal sha show_load f1 f2 g)"
proof (cases "\<exists>w. gw_watcher g = Some w \<and> gw_reload g = NoReload")
  case True
  then obtain w where w: "gw_watcher g = Some w" "gw_reload g = NoReload" by blast
  obtain w' evs where p: "poll unmarshal sha f1 f2 w = (w', evs)" by fastforce
  note f = poll_facts [OF p]
  let ?g = "g\<lparr>gw_watcher := Some w'\<rparr>"
  have up: "gw_main g = Up \<or> gw_main g = Signalled"
    using inv w by (auto simp: gateway_inv_def main_inv_def split: main_stage.splits)
  have g: "gateway_inv v i ?g"
    using inv w up f(1) by (auto simp: gateway_pieces Let_def)
  have "gateway_inv v i (on_reload new ?g)" if "config_ok new" for new
  proof -
    let ?t = "(gw_server g)\<lparr>sv_reload := Some (carry_version (sv_config (gw_server g)) new, reload_ops)\<rparr>"
    have none: "sv_reload (gw_server g) = None" using inv w by (simp add: gateway_inv_def stage_inv_def Let_def)
    have "server_inv ?t" using inv by (simp add: gateway_inv_def)
    moreover have "consistent ?t"
      using inv none consistent_step [of "gw_server g" id "BeginReload new"]
      by (simp add: gateway_inv_def begin_reload_def)
    ultimately show ?thesis
      using inv w up f(1) that
      by (auto simp: on_reload_def begin_reload_def gateway_pieces Let_def applied_def carry_version_def)
  qed
  then show ?thesis using f(2) g w p by (auto simp: watch_turn_def)
qed (use inv in \<open>auto simp: watch_turn_def split: option.split\<close>)

lemma gateway_inv_main:
  assumes inv: "gateway_inv v i g"
  shows "gateway_inv v i (main_turn signal err g)"
proof (cases "gw_main g")
  case Up
  have "gateway_inv v i (g\<lparr>gw_main := Signalled\<rparr>)"
    using inv Up by (simp add: gateway_pieces cong: reload_stage.case_cong)
  moreover have "main_turn signal err g = gateway_log (shutdown_signal_event signal) (g\<lparr>gw_main := Signalled\<rparr>)"
    using Up by (simp add: main_turn_def gateway_log_def)
  ultimately show ?thesis by simp
next
  case ProberStopped
  then show ?thesis
    using inv by (cases err) (auto simp: main_turn_def stop_metrics_server_def gateway_pieces Let_def)
next
  case MetricsStopped
  let ?s = "gw_server g"
  have "settings (stop_server ?s) = settings ?s" "sv_reload (stop_server ?s) = sv_reload ?s"
    by (simp_all add: stop_server_def Let_def close_all_settings)
  moreover have "inventory_is cfg (sv_metrics (stop_server ?s)) = inventory_is cfg (sv_metrics ?s)" for cfg
    by (rule inventory_is_cong) (simp add: stop_server_def Let_def inventory_close_all)
  moreover have "server_inv (stop_server ?s)" using inv server_inv_stop by (simp add: gateway_inv_def)
  moreover have "consistent (stop_server ?s)"
    using inv MetricsStopped consistent_step [of ?s id StopServer] by (simp add: gateway_inv_def main_inv_def)
  ultimately show ?thesis
    using inv MetricsStopped settings_config [of "stop_server ?s" ?s]
    by (auto simp: main_turn_def gateway_pieces Let_def)
qed (use inv in \<open>auto simp: main_turn_def gateway_pieces Let_def split: reload_stage.splits\<close>)

lemma gateway_inv_cycle:
  "gateway_inv v i g \<Longrightarrow> gateway_inv v i (begin_cycle g)" "gateway_inv v i g \<Longrightarrow> gateway_inv v i (end_cycle g)"
  "gateway_inv v i g \<Longrightarrow> gateway_inv v i (loop_ends g)"
  by (auto simp: begin_cycle_def end_cycle_def loop_ends_def gateway_pieces Let_def
      split: reload_stage.splits main_stage.splits option.splits)

lemma gateway_inv_metrics_fails:
  assumes "gateway_inv v i g"
  shows "gateway_inv v i (metrics_server_fails err g)"
proof (cases "gw_http g = HttpServing")
  case True
  have "gateway_inv v i (g\<lparr>gw_http := HttpEnded\<rparr>)"
    using assms by (auto simp: gateway_pieces Let_def split: reload_stage.splits main_stage.splits)
  then show ?thesis by (simp add: metrics_server_fails_def True)
qed (use assms in \<open>simp add: metrics_server_fails_def\<close>)

lemma gateway_inv_step: "gateway_inv v i g \<Longrightarrow> gateway_inv v i (gateway_step os g l)"
  by (cases l) (simp_all add: gateway_inv_serve gateway_inv_watch gateway_inv_reload_turn gateway_inv_cycle
      gateway_inv_probe gateway_inv_main gateway_inv_metrics_fails)

interpretation gateway_runs: invariant_system "gateway_step os" "gateway_run os" "gateway_inv v i" for os v i
  by unfold_locales (simp_all add: gateway_run_def gateway_inv_step)

lemmas gateway_inv_run = gateway_runs.inv_run

lemma boot_server_facts:
  assumes "start_server listen (boot_server ver cfg now) = Inr srv"
  shows "server_inv srv" "consistent srv" "sv_reload srv = None" "\<not> sv_done srv"
    "sv_metrics srv = initial_metrics ver cfg" "sv_config srv = cfg"
proof -
  let ?level = "parse_level (lgc_level (cfg_logging cfg))" and ?m = "initial_metrics ver cfg"
  let ?new = "new_server cfg ?level ?m now"
  have "server_inv (boot_server ver cfg now)"
    by (simp add: boot_server_def Let_def server_inv_new inventory_initial)
  then show "server_inv srv" using assms server_inv_start by blast
  have new: "sv_reload ?new = None" "\<not> sv_done ?new" "sv_metrics ?new = ?m" "sv_config ?new = cfg"
    by (simp_all add: new_server_def Let_def)
  have listening: "settings (s\<lparr>sv_listener := x\<rparr>) = settings s" for s x by (simp add: settings_def)
  obtain x e where "srv = (server_log e ((boot_server ver cfg now)\<lparr>sv_listener := x\<rparr>))\<lparr>sv_accept := LoopTop\<rparr>"
    using assms by (cases listen) (auto simp: start_server_def Let_def)
  then have f: "settings srv = settings ?new \<and> sv_reload srv = None \<and> \<not> sv_done srv \<and> sv_metrics srv = ?m \<and> sv_config srv = cfg"
    using new by (simp add: boot_server_def Let_def listening)
  moreover have "settings ?new = settings (serving cfg ?level ?m now)"
    by (simp add: serving_def start_server_def Let_def settings_def server_log_def)
  ultimately show "consistent srv"
    using consistent_cong [of srv "serving cfg ?level ?m now"] consistent_serving [of cfg ?m now] by simp
  show "sv_reload srv = None" "\<not> sv_done srv" "sv_metrics srv = ?m" "sv_config srv = cfg" using f by simp_all
qed

lemma gateway_inv_wire:
  assumes "start_server listen (boot_server (cfg_version cfg) cfg now) = Inr srv" and "config_ok cfg"
  shows "gateway_inv (cfg_version cfg) (reload_get_interval (cfg_reload cfg)) (wire_gateway show path cfg srv)"
    and "sv_config (gw_server (wire_gateway show path cfg srv)) = cfg"
proof -
  let ?p = "new_prober cfg"
  let ?g = "\<lparr>gw_path = path, gw_server = srv, gw_prober = ?p, gw_looping = pr_enabled ?p, gw_stopping = False,
      gw_probing = (if pr_enabled ?p then Some (pr_targets ?p) else None),
      gw_watcher = (if rc_enabled (cfg_reload cfg) then Some (new_watcher cfg) else None), gw_http = metrics_http_of cfg,
      gw_reload = NoReload, gw_main = Up\<rparr>"
  note f = boot_server_facts [OF assms(1)]
  have g: "gateway_inv (cfg_version cfg) (reload_get_interval (cfg_reload cfg)) ?g"
    using f assms(2) inventory_initial by (simp add: gateway_pieces Let_def built_from_def new_watcher_def)
  have w: "wire_gateway show path cfg srv = gateway_log (watch_event_of show path cfg)
      (if pr_enabled ?p then gateway_log (probe_started_event show ?p) ?g else ?g)"
    by (simp add: wire_gateway_def start_config_watcher_def start_prober_def gateway_log_def Let_def)
  show "gateway_inv (cfg_version cfg) (reload_get_interval (cfg_reload cfg)) (wire_gateway show path cfg srv)"
    unfolding w using g by (cases "pr_enabled ?p") simp_all
  show "sv_config (gw_server (wire_gateway show path cfg srv)) = cfg"
    unfolding w using f(6) by simp
qed

lemma gateway_inv_start:
  assumes "start_gateway unmarshal sha show ver path file listen now = Inr g"
  shows "\<exists>cfg. load unmarshal sha file = Inr cfg \<and> sv_config (gw_server g) = cfg\<lparr>cfg_version := ver\<rparr>
     \<and> gateway_inv ver (reload_get_interval (cfg_reload cfg)) g"
proof -
  obtain c where c: "load unmarshal sha file = Inr c"
    using assms by (cases "load unmarshal sha file") (auto simp: start_gateway_def)
  let ?cfg = "c\<lparr>cfg_version := ver\<rparr>"
  obtain srv where srv: "start_server listen (boot_server ver ?cfg now) = Inr srv" "g = wire_gateway show path ?cfg srv"
    using assms c by (cases "start_server listen (boot_server ver ?cfg now)") (auto simp: start_gateway_def)
  have "config_ok ?cfg" using load_digest [OF c] by simp
  then show ?thesis using gateway_inv_wire [of listen ?cfg now srv] srv c by simp
qed

subsection \<open>An example\<close>

text \<open>The file [1] lists a board, the file [2] nothing; probing answers at once.\<close>

definition two_files :: "bytes \<Rightarrow> config \<Rightarrow> string + config" where
  "two_files data c =
     (if data = [1] then Inr (c\<lparr>cfg_phonebook := [example_entry]\<rparr>)
      else if data = [2] then Inr (c\<lparr>cfg_phonebook := []\<rparr>) else Inl ''yaml'')"

definition example_outside :: outside where
  "example_outside =
     \<lparr>os_unmarshal = two_files, os_sha = id, os_show = (\<lambda>d. ''60s''), os_show_load = (\<lambda>e. ''invalid''),
      os_show_dial = (\<lambda>e. ''down''), os_iter = id\<rparr>"

definition probing_config :: config where
  "probing_config = default_config\<lparr>cfg_phonebook := [example_entry], cfg_source_hash := [1],
     cfg_metrics := (cfg_metrics default_config)\<lparr>mc_enabled := True, mc_port := 9\<rparr>,
     cfg_probe := (cfg_probe default_config)\<lparr>pc_enabled := True\<rparr>,
     cfg_reload := (cfg_reload default_config)\<lparr>rc_enabled := True\<rparr>\<rparr>"

definition example_gateway :: "start_error + gateway" where
  "example_gateway =
     start_gateway (\<lambda>data c. Inr probing_config) id (\<lambda>d. ''60s'') ''1.0.0'' ''telix.yaml'' (Inr [1]) None 0"

definition answering :: network where
  "answering = \<lparr>lookup_host = \<lambda>h. Inl TimedOut, tcp_connect = \<lambda>a t. Inr [192, 0, 2, 7]\<rparr>"

text \<open>The first cycle is in flight when the file is edited; its probe comes back between the reset of
  the series and the end of the reload.\<close>

definition edited_run :: "gateway_label list" where
  "edited_run =
     Watch (Inr [2]) (Inr [2]) # replicate 8 ReloadTurn @ [ProbeReturns answering second 0 0, CycleEnds, ReloadTurn, LoopEnds,
     ReloadTurn]"

text \<open>The shutdown after it, the new prober's empty cycle in flight.\<close>

definition stopped_run :: "gateway_label list" where
  "stopped_run = edited_run @ replicate 3 (MainTurn ''terminated'' None) @ [CycleEnds, LoopEnds] @ replicate 3 (MainTurn ''terminated'' None)"

lemma edited_example:
  "case example_gateway of
     Inl err \<Rightarrow> False
   | Inr g \<Rightarrow>
       let g' = gateway_run example_outside g edited_run in
         gw_reload g' = NoReload \<and> cfg_phonebook (sv_config (gw_server g')) = [] \<and> pr_targets (gw_prober g') = []
         \<and> (case sv_metrics (gw_server g') of
              None \<Rightarrow> False
            | Some m \<Rightarrow> phonebookEntry m = [] \<and> bbsReachable m = [((''Test BBS'', ''192.0.2.7:23''), True)])"
  by code_simp

lemma example_started: "\<exists>g. example_gateway = Inr g"
  using edited_example by (auto split: sum.splits)

section \<open>Properties\<close>

text \<open>C7: From startup on, whatever is written to the file, however the watcher's reads tear, whatever
  callers, boards and probes do and wherever a reload or the shutdown stands, the configuration in force
  has passed validation and carries the build's version, the server keeps its invariant, and what it
  enforces is consistent with that configuration.\<close>

theorem gateway_config_sound:
  assumes "start_gateway unmarshal sha shw ver path file listen now = Inr g"
  shows "let s = gw_server (gateway_run os g ls)
     in config_ok (sv_config s) \<and> cfg_version (sv_config s) = ver \<and> server_inv s \<and> consistent s"
proof -
  obtain i where "gateway_inv ver i g" using gateway_inv_start [OF assms] by blast
  then have "gateway_inv ver i (gateway_run os g ls)" by (rule gateway_inv_run)
  then show ?thesis by (simp add: gateway_inv_def Let_def)
qed

theorem gateway_config_sound_witness:
  "case example_gateway of
     Inl err \<Rightarrow> False
   | Inr g \<Rightarrow> config_ok (sv_config (gw_server (gateway_run example_outside g edited_run)))"
proof -
  obtain g where g: "example_gateway = Inr g" using example_started by blast
  from gateway_config_sound [OF g [unfolded example_gateway_def], of example_outside edited_run]
  show ?thesis by (simp add: g Let_def)
qed

text \<open>C15: When no reload is under way, the inventory series are exactly the lines of the phonebook in
  force, each once per name, address and state, and the prober is the one built from it: an edit is
  applied to the metrics and the prober as it is to the callers.\<close>

theorem reload_reaches_metrics_and_prober:
  assumes "start_gateway unmarshal sha shw ver path file listen now = Inr g"
    and "gw_reload (gateway_run os g ls) = NoReload"
  shows "let g' = gateway_run os g ls; cfg = sv_config (gw_server g')
     in built_from cfg (gw_prober g')
        \<and> (\<forall>m. sv_metrics (gw_server g') = Some m \<longrightarrow> set (phonebookEntry m) = inventory_line ` set (cfg_phonebook cfg))"
proof -
  obtain i where "gateway_inv ver i g" using gateway_inv_start [OF assms(1)] by blast
  then have "gateway_inv ver i (gateway_run os g ls)" by (rule gateway_inv_run)
  then show ?thesis using assms(2) by (auto simp: gateway_inv_def stage_inv_def inventory_is_def Let_def)
qed

theorem reload_reaches_metrics_and_prober_witness:
  "case example_gateway of
     Inl err \<Rightarrow> False
   | Inr g \<Rightarrow> built_from (sv_config (gw_server (gateway_run example_outside g edited_run)))
       (gw_prober (gateway_run example_outside g edited_run))"
proof -
  obtain g where g: "example_gateway = Inr g" using example_started by blast
  have "gw_reload (gateway_run example_outside g edited_run) = NoReload"
    using edited_example by (simp add: g Let_def)
  from reload_reaches_metrics_and_prober [OF g [unfolded example_gateway_def] this]
  show ?thesis by (simp add: g Let_def)
qed

text \<open>A deleted board can stay on the dashboard as reachable: its probe, in flight when the reload
  resets the series, comes back before the prober is replaced and records it again; when the reload is
  over the phonebook, the inventory and the prober's targets are empty and the board is still UP.\<close>

theorem deleted_board_stays_reachable:
  "case example_gateway of
     Inl err \<Rightarrow> False
   | Inr g \<Rightarrow>
       let g' = gateway_run example_outside g edited_run in
         gw_reload g' = NoReload \<and> cfg_phonebook (sv_config (gw_server g')) = [] \<and> pr_targets (gw_prober g') = []
         \<and> (case sv_metrics (gw_server g') of
              None \<Rightarrow> False
            | Some m \<Rightarrow> phonebookEntry m = [] \<and> bbsReachable m = [((''Test BBS'', ''192.0.2.7:23''), True)])"
  by (rule edited_example)

text \<open>The settings of the watcher itself are outside every reload: the interval is that of the
  configuration the process started with, for good, and a reload that changes them does not say so.\<close>

theorem watcher_settings_need_restart:
  assumes "load unmarshal sha file = Inr cfg"
    and "start_gateway unmarshal sha shw ver path file listen now = Inr g"
    and "gw_watcher (gateway_run os g ls) = Some w"
  shows "w_interval w = reload_get_interval (cfg_reload cfg)
     \<and> unapplied_settings old (new\<lparr>cfg_reload := r\<rparr>) = unapplied_settings old new"
proof -
  have "gateway_inv ver (reload_get_interval (cfg_reload cfg)) g"
    using gateway_inv_start [OF assms(2)] assms(1) by auto
  then have "gateway_inv ver (reload_get_interval (cfg_reload cfg)) (gateway_run os g ls)" by (rule gateway_inv_run)
  then show ?thesis using assms(3) by (simp add: gateway_inv_def unapplied_settings_def)
qed

lemma edited_watched:
  "case example_gateway of
     Inl err \<Rightarrow> False
   | Inr g \<Rightarrow> gw_watcher (gateway_run example_outside g edited_run) \<noteq> None"
  by code_simp

theorem watcher_settings_need_restart_witness:
  "case example_gateway of
     Inl err \<Rightarrow> False
   | Inr g \<Rightarrow> (case gw_watcher (gateway_run example_outside g edited_run) of
         None \<Rightarrow> False | Some w \<Rightarrow> w_interval w = 2 * second)"
proof -
  obtain g where g: "example_gateway = Inr g" using example_started by blast
  obtain w where w: "gw_watcher (gateway_run example_outside g edited_run) = Some w"
    using edited_watched by (auto simp: g)
  obtain cfg where l: "load (\<lambda>data c. Inr probing_config) id (Inr [1]) = Inr cfg"
    using g by (cases "load (\<lambda>data c. Inr probing_config) id (Inr [1])") (auto simp: example_gateway_def start_gateway_def)
  have "cfg_reload cfg = cfg_reload probing_config"
    using l by (auto simp: load_def finish_load_def Let_def split: sum.splits option.splits)
  then have "reload_get_interval (cfg_reload cfg) = 2 * second"
    by (simp only:) code_simp
  then show ?thesis
    using watcher_settings_need_restart [OF l g [unfolded example_gateway_def] w] by (simp add: g w)
qed

text \<open>C18: The shutdown leaves nothing running behind the server: when \<open>main\<close> is through, the watcher is
  stopped and no reload is under way or can begin, the prober's goroutine has ended with no probe in
  flight, so has the metrics server's, and the server has been told to stop, in that order: the server is up until the other two are
  gone. When \<open>main\<close> comes to stop the prober no reload has closed its \<open>stop\<close>, so the channel is never
  closed twice.\<close>

theorem shutdown_in_order:
  assumes "start_gateway unmarshal sha shw ver path file listen now = Inr g"
  shows "let g' = gateway_run os g ls in
     (gw_main g' = Down \<longrightarrow> sv_done (gw_server g') \<and> gw_watcher g' = None \<and> gw_reload g' = NoReload
        \<and> \<not> gw_looping g' \<and> gw_probing g' = None \<and> gw_http g' \<noteq> HttpServing)
     \<and> (gw_main g' = WatcherStopped \<longrightarrow> gw_reload g' = NoReload \<and> \<not> gw_stopping g')
     \<and> (sv_done (gw_server g') \<longrightarrow> gw_main g' = Down)"
proof -
  obtain i where "gateway_inv ver i g" using gateway_inv_start [OF assms] by blast
  then have "gateway_inv ver i (gateway_run os g ls)" by (rule gateway_inv_run)
  then show ?thesis by (auto simp: gateway_pieces Let_def split: main_stage.splits)
qed

lemma stopped_example:
  "case example_gateway of
     Inl err \<Rightarrow> False
   | Inr g \<Rightarrow> gw_main (gateway_run example_outside g stopped_run) = Down"
  by code_simp

theorem shutdown_in_order_witness:
  "case example_gateway of
     Inl err \<Rightarrow> False
   | Inr g \<Rightarrow> sv_done (gw_server (gateway_run example_outside g stopped_run))"
proof -
  obtain g where g: "example_gateway = Inr g" using example_started by blast
  have "gw_main (gateway_run example_outside g stopped_run) = Down"
    using stopped_example by (simp add: g)
  then show ?thesis
    using shutdown_in_order [OF g [unfolded example_gateway_def], of example_outside "stopped_run"]
    by (simp add: g Let_def)
qed

end
