(* ===== verification/Spec2Isabelle.thy ===== *)
theory Spec2Isabelle
  imports Modem CommandRoundtrip Telnet RateHistories ConnTracker Watcher BannerArt Logging Probe ServerSafety GatewayFacts
begin

text \<open>
  A verification library for the Telix modem gateway, the Go program under \<open>src/\<close>: a TCP server that
  plays a Hayes modem to its callers. A caller types AT commands; a dial command connects the caller to
  a board of the operator's phonebook; the gateway then carries bytes both ways until the board hangs
  up or the caller escapes back to the modem.

  \<^bold>\<open>The program and its theories.\<close> Paths are under \<open>src/\<close>. Each theory opens with a text that says what
  it holds; a theory \<open>XFacts\<close> holds the lemmas about theory \<open>X\<close>.

  \<^item> \<open>Prelude\<close>, \<open>GoText\<close>: bytes, int64 durations and times with Go's wrap-around and saturation, the maps
    and lists the components share, the parts of \<open>strings\<close>, \<open>strconv\<close> and \<open>fmt\<close> the program calls, and
    the locales \<open>run_system\<close> and \<open>invariant_system\<close> of runs of a step function.
  \<^item> \<open>SRegisters\<close>, \<open>Commands\<close>, \<open>Modem\<close> (\<open>internal/modem\<close>): the register file with its limits, the
    tokeniser and parser of a command line, and \<open>Execute\<close> on the modem's state.
  \<^item> \<open>Telnet\<close>, \<open>NetAddr\<close>, \<open>DialerNet\<close> (\<open>internal/dialer/dialer.go\<close> and the parts of package \<open>net\<close> it
    uses): the telnet filter byte by byte, addresses and CIDR blocks, dialling and probing.
  \<^item> \<open>RateLimiter\<close>, \<open>RateHistories\<close>, \<open>ConnTracker\<close> (\<open>internal/server/ratelimit.go\<close>).
  \<^item> \<open>Config\<close>, \<open>Watcher\<close> (\<open>internal/config\<close>), \<open>Logging\<close> (\<open>internal/logging\<close>), \<open>Metrics\<close>
    (\<open>internal/metrics\<close>), \<open>Probe\<close> (\<open>internal/probe\<close>), \<open>BannerArt\<close> (\<open>internal/server/banner_art.go\<close>
    and the banner of \<open>session.go\<close>).
  \<^item> \<open>SessionIO\<close>, \<open>Dial\<close>, \<open>DataLoop\<close>, \<open>Session\<close> (\<open>internal/server/session.go\<close>, \<open>dial.go\<close>): reading and
    writing with time and arrivals explicit, \<open>handleDial\<close>, \<open>dataLoop\<close>, and the session that composes
    them; \<open>SessionTrace\<close> says what a session does to the outside.
  \<^item> \<open>Server\<close>, \<open>ServerRuns\<close>, \<open>ServerSafety\<close> (\<open>internal/server/server.go\<close>): the accept loop, a handler per
    connection, reload and stop, as interleaved steps.
  \<^item> \<open>Gateway\<close> (\<open>cmd/telix/main.go\<close>, and \<open>Start\<close> and \<open>Stop\<close> of the prober): startup, reload and shutdown
    of the whole process.

  \<^bold>\<open>How the parts interact.\<close> \<open>main\<close> loads the configuration, starts the server, the prober and the
  watcher of the configuration file, and waits for a signal. A connection that the accept loop takes
  goes to a handler, which asks the rate limiter and then the connection tracker for a place, makes a
  session over the configuration in force, registers it and runs it. A session reads a line with the
  line editor, parses it and executes its commands; a dial looks the number up in the phonebook of the
  session's own configuration, checks what the board requires of the modem, and connects; the session
  is then in data mode until the call ends. The watcher hands a changed and valid configuration to
  \<open>onReload\<close>, which reloads the server, resets the series of the phonebook and replaces the prober.

  \<^bold>\<open>State and concurrency.\<close> Structs are records, with a prefix per struct on the field names; errors and
  early returns are values. A component that is called under its own lock is a function on its state.
  A component with goroutines is a step function on a state that holds the program counter of each of
  them (\<open>control\<close>, \<open>handler\<close>, \<open>accept_state\<close>, \<open>reload_stage\<close>, \<open>main_stage\<close>), cut where the goroutine
  blocks, takes a lock or touches what another one touches; a run is a list of labels, and a theorem
  about all lists is about every interleaving:

  \<^item> \<open>take_turns\<close>: the two goroutines of \<open>dataLoop\<close> and \<open>Close\<close> from outside, down to single bytes of a
    chunk in hand;
  \<^item> \<open>session_run\<close>: command lines at the prompt, turns of a call, a stop;
  \<^item> \<open>server_run\<close>: accepts, the steps of each handler, ticks of the limiter, steps of a reload, the stop;
  \<^item> \<open>gateway_run\<close>: the server's steps, polls of the watcher, stages of a reload, probes of a cycle in
    any order, the shutdown.

  What a session does is also recorded in order in its trace (\<open>effect\<close>: bytes written, log events,
  metric calls, effects on the network); the server's trace holds those of its sessions under the
  number of their connection. Time is an integer of nanoseconds in the state: reads advance it to the
  next arrival or the deadline, \<open>sleep\<close> and the labels of a run advance it too.

  \<^bold>\<open>What the lemmas show.\<close>

  \<^item> Per component: an invariant and its preservation by every operation (\<open>sregs_inv\<close>, \<open>modem_inv\<close>,
    \<open>rl_inv\<close>, \<open>tracker_inv\<close>, \<open>config_ok\<close>), the results of every branch, round trips and bounds.
  \<^item> Of the command parser: no line makes it index out of range, every command it yields is well formed,
    and a line of commands, however spaced, parses back to them (\<open>CommandRoundtrip\<close>).
  \<^item> Of the limiter: over histories of attempts, ticks and reloads, the window, the block, the bounds on
    its tables and that cleaning up cannot be observed.
  \<^item> Of a dial: what has to hold before the network is touched, that the outcome and the line agree, the
    accounting on every path.
  \<^item> Of data mode: conservation of the caller's bytes, what an escape takes, that a call ends and closes
    its line.
  \<^item> Of a session, the server and the gateway: an invariant over all runs (\<open>phase_inv\<close>, \<open>server_inv\<close>,
    \<open>gateway_inv\<close>), and on top of it the statements that span components: the server refines the
    limiter, counts its callers, dials the phonebook only, spares calls from reloads and ends calls on a
    stop; a reload reaches the metrics and the prober; the shutdown is in order.
  \<^item> Where the code does not do what it or its comments say, a theorem says what it does.

  \<^bold>\<open>Interfaces.\<close> The contracts between components are locales, interpreted on the model where it provides
  them: \<open>register_file\<close> (the modem on its registers), \<open>stream_filter\<close> (the readers on the filter, which
  sees a stream in pieces), \<open>admission_gate\<close> (the server on the tracker), and \<open>run_system\<close> with its
  extension \<open>invariant_system\<close> (limiter, bridge, session, server, gateway).

  \<^bold>\<open>Bounds and termination.\<close> No definition uses fuel. The loops of the program that wait for input recurse
  on what has still to arrive (measures in \<open>SessionIO\<close>); the tokeniser recurses on the rest of the line,
  and an index out of range would be \<open>None\<close>, which is proved not to happen. Loops that run as long as the
  process does (\<open>commandLoop\<close>, \<open>dataLoop\<close>, \<open>acceptLoop\<close>, the watcher, the prober) are the runs above.

  \<^bold>\<open>Parameters.\<close> Code outside the repository is an argument: \<open>yaml.Unmarshal\<close>, SHA-256, the resolver and TCP
  connects (\<open>network\<close>), the directory of banner art, random draws, the iteration order of Go's maps, the
  limiter of accepts (\<open>golang.org/x/time/rate\<close>), which only delays, and the text of errors and durations.

  \<^bold>\<open>Abstractions.\<close> A command line at the prompt, the dial it places included, is one step of the session,
  so a stop takes effect before or after it; so is the greeting of a new session. A failed write to the
  caller is one outcome, whether the connection is gone or the deadline passed. An arrival is what one
  read can return; a read of the board is one turn with what it returns. The background dial takes a
  given time and its effects on the network are entered when it starts.

  \<^bold>\<open>Not modelled.\<close> Flags, standard output, the metrics HTTP handlers and the Prometheus registry behind
  the recording calls, rotation of the log file, the memory model (data races on fields read without
  their lock), and everything that is not Go: the web terminal, the container, proxy and monitoring
  configuration.
\<close>

end
